(* ===== verification/Agent_Prelude.thy ===== *)
theory Agent_Prelude
  imports Main "HOL-Library.Word" "HOL-Library.Multiset"
begin

text \<open>
  Prelude of the development: the machine integer types of the C agent, the named
  collections the component theories fill, and the generic lemmas on lists, multisets of
  list data and 32-bit words that the components share.

  A C \<open>int\<close> and a C \<open>unsigned\<close> are both a 32-bit word; what tells them apart is the
  operation: the signed order \<open>\<le>s\<close> and the signed reading \<open>sint\<close> for the first, the
  plain order and \<open>unat\<close> for the second. Addition and subtraction wrap. A \<open>time_t\<close> is
  an \<open>int\<close>: it counts seconds since boot.
\<close>

section \<open>Machine types and collections\<close>

type_synonym cint = "32 word"
type_synonym cuint = "32 word"
type_synonym time_t = int
type_synonym fd = "32 word"

named_theorems table_defs \<open>definitions of the hash table operations\<close>
named_theorems queue_defs \<open>definitions of the queue operations\<close>
named_theorems agent_defs \<open>definitions of small state accessors\<close>
named_theorems frame_simps \<open>what an operation leaves unchanged\<close>

abbreviation NUL :: char where
  "NUL \<equiv> CHR 0x00"

abbreviation NEWLINE :: char where
  "NEWLINE \<equiv> CHR 0x0A"

section \<open>Signed 32-bit arithmetic without overflow\<close>

lemma sint32_range: "- 2147483648 \<le> sint (x :: cint)" "sint (x :: cint) < 2147483648"
  using sint_ge [of x] sint_lt [of x] by simp_all

lemma sint32_add:
  assumes "- 2147483648 \<le> sint (a :: cint) + sint b" "sint a + sint b < 2147483648"
  shows "sint (a + b) = sint a + sint b"
  using assms by (simp add: sint_word_ariths signed_take_bit_int_eq_self)

lemma sint32_sub:
  assumes "- 2147483648 \<le> sint (a :: cint) - sint b" "sint a - sint b < 2147483648"
  shows "sint (a - b) = sint a - sint b"
  using assms by (simp add: sint_word_ariths signed_take_bit_int_eq_self)

lemma sint32_sub_nonneg:
  assumes "0 \<le> sint (b :: cint)" "b \<le>s a"
  shows "sint (a - b) = sint a - sint b"
  using assms sint32_range [of a] by (intro sint32_sub) (simp_all add: word_sle_eq)

section \<open>Lists of lists\<close>

lemma mset_concat_update:
  "i < length xss \<Longrightarrow> mset (concat (xss[i := ys])) + mset (xss ! i) = mset (concat xss) + mset ys"
proof (induction xss arbitrary: i)
  case (Cons xs xss)
  then show ?case
    by (cases i) (simp_all add: union_assoc [symmetric] add.left_commute)
qed simp

lemma mset_replace:
  assumes "A + L = C + L'" "L' + R = L + (X :: 'a multiset)"
  shows "A + R = C + X"
proof (rule multiset_eqI)
  fix x
  have "count A x + count L x = count C x + count L' x" "count L' x + count R x = count L x + count X x"
    using assms [THEN arg_cong, of "\<lambda>m. count m x"] by simp_all
  then show "count (A + R) x = count (C + X) x" by simp
qed

lemma mset_remove_member:
  assumes "x \<in> set xs"
  obtains ys where "mset xs = mset (x # ys)"
  using assms by (metis ex_mset insert_DiffM mset.simps(2) set_mset_mset)

lemma set_concat_nth: "x \<in> set (concat xss) \<longleftrightarrow> (\<exists>i < length xss. x \<in> set (xss ! i))"
  by (simp add: set_concat) (metis in_set_conv_nth)

lemma distinct_map_mset_cong: "mset xs = mset ys \<Longrightarrow> distinct (map f xs) = distinct (map f ys)"
  by (metis mset_eq_imp_distinct_iff mset_map)

lemma sum_list_mset_cong: "mset xs = mset ys \<Longrightarrow> sum_list (map f xs) = (sum_list (map f ys) :: 'a :: comm_monoid_add)"
  by (metis mset_map sum_mset_sum_list)

lemma mset_list_update_swap:
  "i < length xs \<Longrightarrow> mset (xs[i := y]) + {# xs ! i #} = mset xs + {# y #}"
  by (simp add: mset_update)

lemma length_mset_cong: "mset xs = mset ys \<Longrightarrow> length xs = length ys"
  by (metis size_mset)

lemma set_mset_cong: "mset xs = mset ys \<Longrightarrow> set xs = set ys"
  by (metis set_mset_mset)

end
