(* ===== verification/C_Strings.thy ===== *)
theory C_Strings
  imports Agent_Prelude
begin

text \<open>
  The C library functions the agent uses on text, as the C standard and glibc define them: a C
  string is the list of its bytes before the terminating NUL.

  \<open>strtok_r\<close> returns the token (if any) and the rest the next call continues from.
  \<open>atoi\<close> is \<open>(int) strtol(s, NULL, 10)\<close>: white space, an optional sign, digits, the
  value clamped to a 64-bit long and then cut to 32 bits. \<open>fmt_d\<close> is what the conversion
  \<open>%d\<close> prints; \<open>snprintf n s\<close> is what a buffer of \<open>n\<close> bytes keeps of the formatted
  text \<open>s\<close>, and \<open>strncpy_z n s\<close> is \<open>strncpy\<close> into such a buffer followed by the
  store of the NUL in its last byte.
\<close>

section \<open>Definitions\<close>

definition isspace :: "char \<Rightarrow> bool" where
  "isspace c \<longleftrightarrow> c \<in> {CHR 0x20, CHR 0x09, CHR 0x0A, CHR 0x0B, CHR 0x0C, CHR 0x0D}"

definition isdigit :: "char \<Rightarrow> bool" where
  "isdigit c \<longleftrightarrow> 48 \<le> (of_char c :: nat) \<and> (of_char c :: nat) \<le> 57"

definition strtok_r :: "string \<Rightarrow> string \<Rightarrow> string option \<times> string" where
  "strtok_r delims s =
     (let start = dropWhile (\<lambda>c. c \<in> set delims) s in
      if start = [] then (None, [])
      else (Some (takeWhile (\<lambda>c. c \<notin> set delims) start),
            tl (dropWhile (\<lambda>c. c \<notin> set delims) start)))"

fun strtol_digits :: "int \<Rightarrow> string \<Rightarrow> int" where
  "strtol_digits acc [] = acc"
| "strtol_digits acc (c # cs) =
     (if isdigit c then strtol_digits (acc * 10 + (of_char c - 48)) cs else acc)"

definition strtol :: "string \<Rightarrow> int" where
  "strtol s =
     (let s1 = dropWhile isspace s;
          v = (case s1 of
                 [] \<Rightarrow> 0
               | c # cs \<Rightarrow> if c = CHR ''-'' then - strtol_digits 0 cs
                           else if c = CHR ''+'' then strtol_digits 0 cs
                           else strtol_digits 0 s1)
      in max (- (2 ^ 63)) (min (2 ^ 63 - 1) v))"

definition atoi :: "string \<Rightarrow> cint" where
  "atoi s = word_of_int (strtol s)"

fun nat_digits :: "nat \<Rightarrow> string" where
  "nat_digits n =
     (if n < 10 then [char_of (48 + n)] else nat_digits (n div 10) @ [char_of (48 + n mod 10)])"

declare nat_digits.simps [simp del]

definition fmt_int :: "int \<Rightarrow> string" where
  "fmt_int i = (if i < 0 then CHR ''-'' # nat_digits (nat (- i)) else nat_digits (nat i))"

definition fmt_d :: "cint \<Rightarrow> string" where
  "fmt_d w = fmt_int (sint w)"

definition snprintf :: "nat \<Rightarrow> string \<Rightarrow> string" where
  "snprintf n s = take (n - 1) s"

definition strncpy_z :: "nat \<Rightarrow> string \<Rightarrow> string" where
  "strncpy_z n s = take (n - 1) s"

section \<open>Printing and reading a number\<close>

lemma of_char_digit: "d < 10 \<Longrightarrow> (of_char (char_of (48 + d)) :: nat) = 48 + d"
  by (simp add: of_char_of take_bit_eq_mod)

lemma of_char_digit_int: "d < 10 \<Longrightarrow> (of_char (char_of (48 + d :: nat)) :: int) = 48 + int d"
  using of_char_digit [of d] by (metis of_nat_add of_nat_numeral of_nat_of_char)

lemma isdigit_char_of: "d < 10 \<Longrightarrow> isdigit (char_of (48 + d :: nat))"
  by (simp add: isdigit_def of_char_digit)

lemma nat_digits_isdigit: "c \<in> set (nat_digits n) \<Longrightarrow> isdigit c"
proof (induction n rule: nat_digits.induct)
  case (1 n)
  then show ?case
    by (subst (asm) (2) nat_digits.simps) (auto simp: isdigit_char_of split: if_splits)
qed

lemma nat_digits_nonempty [simp]: "nat_digits n \<noteq> []"
  by (subst nat_digits.simps) simp

lemma strtol_digits_nat:
  "strtol_digits 0 (nat_digits n @ r) = strtol_digits (int n) r"
proof (induction n arbitrary: r rule: nat_digits.induct)
  case (1 n)
  show ?case
  proof (cases "n < 10")
    case True
    then show ?thesis by (subst nat_digits.simps) (simp add: isdigit_char_of of_char_digit_int)
  next
    case False
    have "strtol_digits 0 (nat_digits n @ r) =
        strtol_digits 0 (nat_digits (n div 10) @ char_of (48 + n mod 10) # r)"
      using False by (subst nat_digits.simps) simp
    also have "\<dots> = strtol_digits (int (n div 10)) (char_of (48 + n mod 10) # r)"
      using 1 [OF False] by simp
    also have "\<dots> = strtol_digits (int n) r"
      by (simp add: isdigit_char_of of_char_digit_int) (metis div_mult_mod_eq mult.commute of_nat_add of_nat_mult of_nat_numeral)
    finally show ?thesis .
  qed
qed

lemma nat_digits_length: "n < 10 ^ k \<Longrightarrow> 0 < k \<Longrightarrow> length (nat_digits n) \<le> k"
proof (induction n arbitrary: k rule: nat_digits.induct)
  case (1 n)
  show ?case
  proof (cases "n < 10")
    case True
    then show ?thesis using 1 by (subst nat_digits.simps) simp
  next
    case False
    then obtain j where k: "k = Suc j" "0 < j" using 1(2,3) by (cases k; cases "k - 1") auto
    then have "n div 10 < 10 ^ j" using 1(2) by (simp add: div_less_iff_less_mult mult.commute)
    then have "length (nat_digits (n div 10)) \<le> j" using 1(1) [OF False] k(2) by blast
    then show ?thesis using k False by (subst nat_digits.simps) simp
  qed
qed

lemma not_space_digit: "isdigit c \<Longrightarrow> \<not> isspace c" "isdigit c \<Longrightarrow> c \<noteq> CHR ''-''" "isdigit c \<Longrightarrow> c \<noteq> CHR ''+''"
  by (auto simp: isdigit_def isspace_def)

lemma strtol_nat:
  assumes "r = [] \<or> \<not> isdigit (hd r)" "n < 2 ^ 63"
  shows "strtol (nat_digits n @ r) = int n"
proof -
  obtain c cs where c: "nat_digits n = c # cs" by (cases "nat_digits n") auto
  then have "isdigit c" using nat_digits_isdigit [of c n] by simp
  moreover have "strtol_digits 0 (nat_digits n @ r) = int n"
    using assms(1) strtol_digits_nat [of n r] by (cases r) simp_all
  ultimately show ?thesis
    using assms(2) c by (auto simp: strtol_def Let_def not_space_digit)
qed

lemma strtol_fmt_int:
  assumes "r = [] \<or> \<not> isdigit (hd r)" "- (2 ^ 63) \<le> i" "i < 2 ^ 63"
  shows "strtol (fmt_int i @ r) = i"
proof (cases "i < 0")
  case True
  have "strtol_digits 0 (nat_digits (nat (- i)) @ r) = - i"
    using assms(1) True strtol_digits_nat [of "nat (- i)" r] by (cases r) simp_all
  then show ?thesis using True assms(2) by (simp add: strtol_def fmt_int_def isspace_def)
next
  case False
  then show ?thesis
    using assms strtol_nat [of r "nat i"] by (simp add: fmt_int_def nat_less_iff)
qed

lemma atoi_fmt_d:
  assumes "r = [] \<or> \<not> isdigit (hd r)"
  shows "atoi (fmt_d w @ r) = w"
  using strtol_fmt_int [OF assms, of "sint w"] sint32_range [of w]
  by (simp add: atoi_def fmt_d_def)

lemma fmt_d_length: "length (fmt_d w) \<le> 11"
proof -
  have "nat (- sint w) < 10 ^ 10" "nat (sint w) < 10 ^ 10" using sint32_range [of w] by simp_all
  then show ?thesis
    using nat_digits_length [of "nat (- sint w)" 10] nat_digits_length [of "nat (sint w)" 10]
    by (simp add: fmt_d_def fmt_int_def)
qed

lemma fmt_d_nonempty [simp]: "fmt_d w \<noteq> []"
  by (simp add: fmt_d_def fmt_int_def)

lemma fmt_d_chars: "c \<in> set (fmt_d w) \<Longrightarrow> isdigit c \<or> c = CHR ''-''"
  by (auto simp: fmt_d_def fmt_int_def nat_digits_isdigit split: if_splits)

lemma snprintf_fits: "length s < n \<Longrightarrow> snprintf n s = s"
  by (simp add: snprintf_def)

section \<open>Tokens\<close>

lemma strtok_r_token:
  assumes "t \<noteq> []" "\<forall>c \<in> set t. c \<notin> set ds" "d \<in> set ds"
  shows "strtok_r ds (t @ d # r) = (Some t, r)"
proof -
  have "dropWhile (\<lambda>c. c \<in> set ds) (t @ d # r) = t @ d # r" using assms(1,2) by (cases t) auto
  moreover have "takeWhile (\<lambda>c. c \<notin> set ds) (t @ d # r) = t"
    "dropWhile (\<lambda>c. c \<notin> set ds) (t @ d # r) = d # r"
    using assms(2,3) by (simp_all add: takeWhile_append2 dropWhile_append2)
  ultimately show ?thesis using assms(1) by (simp add: strtok_r_def Let_def)
qed

lemma strtok_r_last:
  assumes "t \<noteq> []" "\<forall>c \<in> set t. c \<notin> set ds"
  shows "strtok_r ds t = (Some t, [])"
proof -
  have "dropWhile (\<lambda>c. c \<in> set ds) t = t" using assms by (cases t) auto
  then show ?thesis using assms by (simp add: strtok_r_def Let_def takeWhile_eq_all_conv [THEN iffD2] dropWhile_eq_Nil_conv [THEN iffD2])
qed

lemma strtok_r_None: "\<forall>c \<in> set s. c \<in> set ds \<Longrightarrow> strtok_r ds s = (None, [])"
  by (simp add: strtok_r_def Let_def)

end
