(* ===== verification/Hashtable.thy ===== *)
theory Hashtable
  imports Agent_Prelude
begin

text \<open>
  The generic chained hash table of \<open>ResourceManager/hashtable.c\<close>.

  A table is the record of its C struct: the bucket array \<open>elems\<close> (one list of data per
  bucket, in chain order), the counters, and the function pointers. A \<open>void*\<close> datum is the
  value it points to. The table mutex has no field: each exported operation takes it on entry
  and releases it on every exit, so each operation is one atomic step. The field
  \<open>destroyed\<close> is a ghost: the data handed to the \<open>destr\<close> callback, in order, so that
  \<open>freed exactly once\<close> can be stated.

  The locale \<open>hash_callbacks\<close> is the interface to \<open>hash.c\<close>: what the table relies on of
  its callbacks. Under it the table implements a finite map from keys to data
  (\<open>table_map\<close>), and the bucket invariant \<open>table_inv\<close> is kept by every operation.
\<close>

section \<open>The table\<close>

definition HASH_SIZE :: nat where
  "HASH_SIZE = 256"

record 'a HashTable =
  elems :: "'a list list"
  numElems :: cuint
  capacity :: cuint
  copy :: "'a \<Rightarrow> 'a"
  comp :: "'a \<Rightarrow> 'a \<Rightarrow> cint"
  hash :: "'a \<Rightarrow> cuint"
  destroyed :: "'a list"

definition tablahash_create ::
  "('a \<Rightarrow> 'a) \<Rightarrow> ('a \<Rightarrow> 'a \<Rightarrow> cint) \<Rightarrow> ('a \<Rightarrow> cuint) \<Rightarrow> 'a HashTable" where
  "tablahash_create cp cm h =
     \<lparr>elems = replicate HASH_SIZE [], numElems = 0, capacity = of_nat HASH_SIZE,
      copy = cp, comp = cm, hash = h, destroyed = []\<rparr>"

definition tablahash_nelems :: "'a HashTable \<Rightarrow> cint" where
  "tablahash_nelems table = numElems table"

definition tablahash_capacity :: "'a HashTable \<Rightarrow> cint" where
  "tablahash_capacity table = capacity table"

text \<open>The node of a chain is given by its position in the chain.\<close>

fun find_in_list :: "('a \<Rightarrow> 'a \<Rightarrow> cint) \<Rightarrow> 'a list \<Rightarrow> 'a \<Rightarrow> nat option" where
  "find_in_list cm [] d = None"
| "find_in_list cm (x # xs) d =
     (if cm x d = 0 then Some 0 else map_option Suc (find_in_list cm xs d))"

definition bucket_index :: "'a HashTable \<Rightarrow> 'a \<Rightarrow> nat" where
  "bucket_index table d = unat (hash table d mod capacity table)"

definition tablahash_insert :: "'a HashTable \<Rightarrow> 'a \<Rightarrow> 'a HashTable" where
  "tablahash_insert table d =
     (let idx = bucket_index table d; list = elems table ! idx in
      case find_in_list (comp table) list d of
        Some i \<Rightarrow>
          table\<lparr>elems := (elems table)[idx := list[i := copy table d]],
                destroyed := destroyed table @ [list ! i]\<rparr>
      | None \<Rightarrow>
          table\<lparr>elems := (elems table)[idx := copy table d # list],
                numElems := numElems table + 1\<rparr>)"

definition tablahash_find :: "'a HashTable \<Rightarrow> 'a \<Rightarrow> 'a option" where
  "tablahash_find table d =
     (let idx = bucket_index table d; list = elems table ! idx in
      map_option (\<lambda>i. list ! i) (find_in_list (comp table) list d))"

text \<open>
  The walk of \<open>tablahash_remove\<close> down a chain: the chain without the first node that
  compares equal, and that node's datum (none when the walk reaches the end).
\<close>

fun unlink :: "('a \<Rightarrow> 'a \<Rightarrow> cint) \<Rightarrow> 'a list \<Rightarrow> 'a \<Rightarrow> 'a list \<times> 'a option" where
  "unlink cm [] d = ([], None)"
| "unlink cm (x # xs) d =
     (if cm x d \<noteq> 0 then (let (rest, r) = unlink cm xs d in (x # rest, r)) else (xs, Some x))"

definition tablahash_remove :: "'a HashTable \<Rightarrow> 'a \<Rightarrow> 'a HashTable" where
  "tablahash_remove table d =
     (let idx = bucket_index table d in
      case unlink (comp table) (elems table ! idx) d of
        (_, None) \<Rightarrow> table
      | (list', Some x) \<Rightarrow>
          table\<lparr>elems := (elems table)[idx := list'],
                destroyed := destroyed table @ [x],
                numElems := numElems table - 1\<rparr>)"

definition tablahash_remove_lock :: "'a HashTable \<Rightarrow> 'a \<Rightarrow> 'a HashTable" where
  "tablahash_remove_lock table d = tablahash_remove table d"

fun destroy_chain :: "'a list \<Rightarrow> 'a list \<Rightarrow> 'a list" where
  "destroy_chain [] freed = freed"
| "destroy_chain (x # xs) freed = destroy_chain xs (freed @ [x])"

definition tablahash_destroy :: "'a HashTable \<Rightarrow> 'a list" where
  "tablahash_destroy table =
     fold (\<lambda>idx freed. destroy_chain (elems table ! idx) freed) [0..<unat (capacity table)]
       (destroyed table)"

section \<open>Specification: the data, the map, the invariant\<close>

definition table_data :: "'a HashTable \<Rightarrow> 'a list" where
  "table_data table = concat (elems table)"

definition table_map :: "('a \<Rightarrow> 'k) \<Rightarrow> 'a HashTable \<Rightarrow> 'k \<Rightarrow> 'a option" where
  "table_map key table k = find (\<lambda>d. key d = k) (table_data table)"

definition mset_option :: "'a option \<Rightarrow> 'a multiset" where
  "mset_option r = (case r of None \<Rightarrow> {#} | Some e \<Rightarrow> {# e #})"

definition table_inv :: "('a \<Rightarrow> 'k) \<Rightarrow> 'a HashTable \<Rightarrow> bool" where
  "table_inv key table \<longleftrightarrow>
     capacity table = of_nat HASH_SIZE \<and> length (elems table) = HASH_SIZE \<and>
     (\<forall>i < HASH_SIZE. \<forall>d \<in> set (elems table ! i). bucket_index table d = i) \<and>
     distinct (map key (table_data table)) \<and>
     numElems table = of_nat (length (table_data table))"

text \<open>The sweeps of \<open>utils.c\<close> and \<open>timer.c\<close> remove every datum that fails a test.\<close>

definition table_filter :: "('a \<Rightarrow> bool) \<Rightarrow> 'a HashTable \<Rightarrow> 'a HashTable" where
  "table_filter P table =
     table\<lparr>elems := map (filter P) (elems table),
           numElems := numElems table - of_nat (length (filter (Not \<circ> P) (table_data table))),
           destroyed := destroyed table @ filter (Not \<circ> P) (table_data table)\<rparr>"

text \<open>A write through a pointer to a stored datum.\<close>

definition table_modify :: "('a \<Rightarrow> 'a) \<Rightarrow> 'a HashTable \<Rightarrow> 'a HashTable" where
  "table_modify f table = table\<lparr>elems := map (map f) (elems table)\<rparr>"

definition table_ok ::
  "('a \<Rightarrow> 'k) \<Rightarrow> ('a \<Rightarrow> 'a) \<Rightarrow> ('a \<Rightarrow> 'a \<Rightarrow> cint) \<Rightarrow> ('a \<Rightarrow> cuint) \<Rightarrow> 'a HashTable \<Rightarrow> bool"
where
  "table_ok key cp cm h table \<longleftrightarrow>
     table_inv key table \<and> copy table = cp \<and> comp table = cm \<and> hash table = h"

section \<open>Lemmas that need no callback law\<close>

lemma mset_option_simps [simp]: "mset_option None = {#}" "mset_option (Some e) = {# e #}"
  by (simp_all add: mset_option_def)

lemma table_map_SomeD: "table_map key table k = Some d \<Longrightarrow> d \<in> set (table_data table) \<and> key d = k"
  by (auto simp: table_map_def find_Some_iff)

lemma table_map_NoneD: "table_map key table k = None \<Longrightarrow> d \<in> set (table_data table) \<Longrightarrow> key d \<noteq> k"
  by (auto simp: table_map_def find_None_iff)

lemma table_map_eq_Some:
  assumes "distinct (map key (table_data table))"
  shows "table_map key table k = Some d \<longleftrightarrow> d \<in> set (table_data table) \<and> key d = k"
  using assms table_map_SomeD [of key table k] table_map_NoneD [of key table k]
  by (metis distinct_map inj_on_contraD not_None_eq)

lemma table_map_mset_cong:
  assumes "mset (table_data t) = mset (table_data t')" "distinct (map key (table_data t))"
  shows "table_map key t = table_map key t'"
proof
  fix k
  have "set (table_data t) = set (table_data t')" "distinct (map key (table_data t'))"
    using assms by (auto dest: mset_eq_setD simp: distinct_map_mset_cong [of "table_data t"])
  then have "table_map key t k = Some d \<longleftrightarrow> table_map key t' k = Some d" for d
    using assms(2) by (simp add: table_map_eq_Some)
  then show "table_map key t k = table_map key t' k"
    by (metis not_Some_eq)
qed

lemma table_invD:
  assumes "table_inv key table"
  shows table_inv_distinct: "distinct (map key (table_data table))"
    and table_inv_num: "numElems table = of_nat (length (table_data table))"
    and table_inv_capacity: "capacity table = 256"
    and table_inv_length: "length (elems table) = 256"
  using assms by (simp_all add: table_inv_def HASH_SIZE_def)

lemma bucket_index_less: "capacity table = 256 \<Longrightarrow> bucket_index table d < 256"
  using unat_mono [OF word_mod_less_divisor [of "256 :: cuint" "hash table d"]]
  by (simp add: bucket_index_def)

lemma table_inv_bucket:
  assumes "table_inv key table" "d \<in> set (table_data table)"
  shows "d \<in> set (elems table ! bucket_index table d)"
  using assms by (auto simp: table_inv_def table_data_def set_concat_nth simp del: set_concat)

lemma bucket_subset:
  assumes "table_inv key table" "x \<in> set (elems table ! bucket_index table d)"
  shows "x \<in> set (table_data table)"
  using assms bucket_index_less [of table d]
  by (auto simp: table_inv_def HASH_SIZE_def table_data_def set_concat_nth simp del: set_concat)

lemma destroy_chain_append: "destroy_chain xs freed = freed @ xs"
  by (induction xs arbitrary: freed) auto

lemma fold_append_nth:
  "fold (\<lambda>i acc. acc @ xss ! i) [0..<n] acc = acc @ concat (map (\<lambda>i. xss ! i) [0..<n])"
  by (induction n) auto

lemma tablahash_destroy_all:
  assumes "table_inv key table"
  shows "tablahash_destroy table = destroyed table @ table_data table"
proof -
  have "map (\<lambda>i. elems table ! i) [0..<256] = elems table"
    using map_nth [of "elems table"] table_inv_length [OF assms] by simp
  then show ?thesis
    using table_inv_capacity [OF assms]
    by (simp add: tablahash_destroy_def destroy_chain_append fold_append_nth table_data_def)
qed

lemma unlink_None: "snd (unlink cm xs d) = None \<Longrightarrow> fst (unlink cm xs d) = xs"
  by (induction xs) (auto split: prod.splits if_splits)

lemma unlink_Some:
  "unlink cm xs d = (ys, Some x) \<Longrightarrow> x \<in> set xs \<and> cm x d = 0 \<and> mset xs = add_mset x (mset ys)"
  by (induction xs arbitrary: ys) (auto split: prod.splits if_splits)

lemma unlink_NoneD: "unlink cm xs d = (ys, None) \<Longrightarrow> x \<in> set xs \<Longrightarrow> cm x d \<noteq> 0"
  by (induction xs arbitrary: ys) (auto split: prod.splits if_splits)

lemma find_in_list_Some: "find_in_list cm xs d = Some i \<Longrightarrow> i < length xs \<and> cm (xs ! i) d = 0"
  by (induction xs arbitrary: i) (auto split: if_splits)

lemma find_in_list_None: "find_in_list cm xs d = None \<Longrightarrow> x \<in> set xs \<Longrightarrow> cm x d \<noteq> 0"
  by (induction xs) (auto split: if_splits)

section \<open>The table under the callback laws\<close>

locale hash_callbacks =
  fixes key :: "'a \<Rightarrow> 'k"
    and cp :: "'a \<Rightarrow> 'a"
    and cm :: "'a \<Rightarrow> 'a \<Rightarrow> cint"
    and h :: "'a \<Rightarrow> cuint"
  assumes cm_key: "cm a b = 0 \<longleftrightarrow> key a = key b"
    and h_key: "key a = key b \<Longrightarrow> h a = h b"
    and cp_key: "key (cp a) = key a"
begin

lemma ok_facts:
  assumes "table_ok key cp cm h t"
  shows "table_inv key t" "copy t = cp" "comp t = cm" "hash t = h" "capacity t = 256"
    "length (elems t) = 256" "distinct (map key (table_data t))"
    "bucket_index t d < 256" "d \<in> set (table_data t) \<Longrightarrow> d \<in> set (elems t ! bucket_index t d)"
    "x \<in> set (elems t ! bucket_index t d) \<Longrightarrow> x \<in> set (table_data t)"
  using assms table_invD [of key t] bucket_index_less [of t d] table_inv_bucket [of key t d]
    bucket_subset [of key t x d]
  by (simp_all add: table_ok_def)

lemma bucket_key:
  assumes "table_ok key cp cm h t" "key a = key b"
  shows "bucket_index t a = bucket_index t b"
  using assms h_key [OF assms(2)] by (simp add: bucket_index_def table_ok_def)

lemma key_in_bucket:
  assumes "table_ok key cp cm h t" "x \<in> set (table_data t)" "key x = key d"
  shows "x \<in> set (elems t ! bucket_index t d)"
  using bucket_key [OF assms(1,3)] ok_facts(9) [OF assms(1,2)] by simp

lemma find_map:
  assumes ok: "table_ok key cp cm h t"
  shows "tablahash_find t d = table_map key t (key d)"
proof (cases "find_in_list cm (elems t ! bucket_index t d) d")
  case None
  then have "x \<in> set (table_data t) \<Longrightarrow> key x \<noteq> key d" for x
    using key_in_bucket [OF ok] find_in_list_None cm_key by metis
  then show ?thesis
    using None ok_facts(3) [OF ok]
    by (simp add: tablahash_find_def Let_def table_map_def find_None_iff eq_commute [of None])
next
  case (Some i)
  let ?l = "elems t ! bucket_index t d"
  have "?l ! i \<in> set (table_data t)" "key (?l ! i) = key d"
    using find_in_list_Some [OF Some] ok_facts(10) [OF ok, of "?l ! i" d] cm_key by auto
  then show ?thesis
    using Some ok_facts [OF ok]
    by (simp add: tablahash_find_def Let_def table_map_eq_Some eq_commute [of "Some _"])
qed

lemma insert_mset_add:
  assumes ok: "table_ok key cp cm h t"
  shows "mset (table_data (tablahash_insert t d)) + mset_option (table_map key t (key d)) =
    mset (table_data t) + {# cp d #}"
proof -
  let ?i = "bucket_index t d" and ?l = "elems t ! bucket_index t d"
  have i: "?i < length (elems t)"
    using ok_facts [OF ok] by simp
  have f: "table_map key t (key d) = map_option (\<lambda>i. ?l ! i) (find_in_list cm ?l d)"
    using find_map [OF ok, of d] ok by (simp add: tablahash_find_def table_ok_def Let_def)
  show ?thesis
  proof (cases "find_in_list cm ?l d")
    case None
    then show ?thesis
      using f ok mset_replace [OF mset_concat_update [OF i, of "cp d # ?l"], of "{#}" "{# cp d #}"]
      by (simp add: tablahash_insert_def Let_def table_ok_def table_data_def)
  next
    case (Some j)
    then have j: "j < length ?l" using find_in_list_Some by metis
    show ?thesis
      using f Some ok
        mset_replace [OF mset_concat_update [OF i, of "?l[j := cp d]"] mset_list_update_swap [OF j]]
      by (simp add: tablahash_insert_def Let_def table_ok_def table_data_def)
  qed
qed

lemma insert_mset:
  assumes ok: "table_ok key cp cm h t"
  obtains (new) "table_map key t (key d) = None"
      "mset (table_data (tablahash_insert t d)) = mset (cp d # table_data t)"
  | (replace) e xs where "table_map key t (key d) = Some e" "mset (table_data t) = mset (e # xs)"
      "mset (table_data (tablahash_insert t d)) = mset (cp d # xs)"
proof (cases "table_map key t (key d)")
  case None
  then show ?thesis using insert_mset_add [OF ok, of d] new by simp
next
  case (Some e)
  obtain xs where "mset (table_data t) = mset (e # xs)"
    using mset_remove_member table_map_SomeD [OF Some] by metis
  then show ?thesis using insert_mset_add [OF ok, of d] Some replace by simp
qed

lemma insert_callbacks:
  "copy (tablahash_insert t d) = copy t" "comp (tablahash_insert t d) = comp t"
  "hash (tablahash_insert t d) = hash t" "capacity (tablahash_insert t d) = capacity t"
  "length (elems (tablahash_insert t d)) = length (elems t)"
  by (auto simp: tablahash_insert_def Let_def split: option.split)

lemma distinct_keys_insert:
  assumes ok: "table_ok key cp cm h t"
  shows "distinct (map key (table_data (tablahash_insert t d)))"
  using ok
proof (cases rule: insert_mset [of t d])
  case new
  have "\<forall>x \<in> set (table_data t). key x \<noteq> key d" using table_map_NoneD [OF new(1)] by blast
  then have "distinct (map key (cp d # table_data t))"
    using ok_facts(7) [OF ok] by (auto simp: cp_key)
  then show ?thesis using distinct_map_mset_cong [OF new(2)] by blast
next
  case (replace e xs)
  then have "distinct (map key (e # xs))"
    using ok_facts(7) [OF ok] distinct_map_mset_cong [OF replace(2)] by blast
  then show ?thesis
    using table_map_SomeD [OF replace(1)] distinct_map_mset_cong [OF replace(3), of key] by (simp add: cp_key)
qed

lemma numElems_insert:
  assumes ok: "table_ok key cp cm h t"
  shows "numElems (tablahash_insert t d) = of_nat (length (table_data (tablahash_insert t d)))"
proof -
  have n: "numElems (tablahash_insert t d) =
      (if table_map key t (key d) = None then numElems t + 1 else numElems t)"
    using find_map [OF ok, of d]
    by (auto simp: tablahash_insert_def tablahash_find_def Let_def dest: sym split: option.splits)
  show ?thesis
    using ok
  proof (cases rule: insert_mset [of t d])
    case new
    then show ?thesis
      using n table_inv_num [OF ok_facts(1) [OF ok]] length_mset_cong [OF new(2)] by simp
  next
    case (replace e xs)
    then show ?thesis
      using n table_inv_num [OF ok_facts(1) [OF ok]] length_mset_cong [OF replace(2)]
        length_mset_cong [OF replace(3)] by simp
  qed
qed

lemma bucket_insert:
  assumes ok: "table_ok key cp cm h t" and i: "i < 256" "x \<in> set (elems (tablahash_insert t d) ! i)"
  shows "bucket_index (tablahash_insert t d) x = i"
proof -
  have b: "bucket_index (tablahash_insert t d) x = bucket_index t x"
    by (simp add: bucket_index_def insert_callbacks)
  have "x \<in> set (elems t ! i) \<or> (i = bucket_index t d \<and> x = cp d)"
    using i ok_facts [OF ok]
    by (auto simp: tablahash_insert_def Let_def nth_list_update dest!: subsetD [OF set_update_subset_insert]
        split: option.splits if_splits)
  then show ?thesis
    using i ok bucket_key [OF ok cp_key] unfolding b
    by (auto simp: table_ok_def table_inv_def HASH_SIZE_def)
qed

lemma insert_ok:
  assumes ok: "table_ok key cp cm h t"
  shows "table_ok key cp cm h (tablahash_insert t d)"
  using distinct_keys_insert [OF ok] numElems_insert [OF ok] bucket_insert [OF ok] ok
  by (simp add: table_ok_def table_inv_def insert_callbacks HASH_SIZE_def)

lemma insert_set:
  assumes ok: "table_ok key cp cm h t"
  shows "set (table_data (tablahash_insert t d)) = insert (cp d) {x \<in> set (table_data t). key x \<noteq> key d}"
  using ok
proof (cases rule: insert_mset [of t d])
  case new
  then show ?thesis
    using set_mset_cong [OF new(2)] table_map_NoneD [OF new(1)] by auto
next
  case (replace e xs)
  then have "distinct (map key (e # xs))"
    using ok_facts(7) [OF ok] distinct_map_mset_cong [OF replace(2)] by blast
  then show ?thesis
    using set_mset_cong [OF replace(2)] set_mset_cong [OF replace(3)] table_map_SomeD [OF replace(1)]
    by (auto simp: rev_image_eqI)
qed

lemma insert_map:
  assumes ok: "table_ok key cp cm h t"
  shows "table_map key (tablahash_insert t d) = (table_map key t)(key d \<mapsto> cp d)"
proof
  fix k
  let ?t = "tablahash_insert t d"
  have "table_map key ?t k = Some x \<longleftrightarrow> ((table_map key t)(key d \<mapsto> cp d)) k = Some x" for x
    using insert_set [OF ok, of d]
    by (auto simp: table_map_eq_Some [OF distinct_keys_insert [OF ok, of d]]
        table_map_eq_Some [OF ok_facts(7) [OF ok]] cp_key)
  then show "table_map key ?t k = ((table_map key t)(key d \<mapsto> cp d)) k"
    by (metis not_Some_eq)
qed

lemma remove_callbacks:
  "copy (tablahash_remove t d) = copy t" "comp (tablahash_remove t d) = comp t"
  "hash (tablahash_remove t d) = hash t" "capacity (tablahash_remove t d) = capacity t"
  "length (elems (tablahash_remove t d)) = length (elems t)"
  by (auto simp: tablahash_remove_def Let_def split: option.split prod.split)

lemma unlink_map:
  assumes ok: "table_ok key cp cm h t"
  shows "table_map key t (key d) = snd (unlink cm (elems t ! bucket_index t d) d)"
proof -
  let ?l = "elems t ! bucket_index t d"
  obtain l' r where u: "unlink cm ?l d = (l', r)" by fastforce
  show ?thesis
  proof (cases r)
    case None
    have "x \<in> set (table_data t) \<Longrightarrow> key x \<noteq> key d" for x
      using key_in_bucket [OF ok] unlink_NoneD u None cm_key by metis
    then show ?thesis using u None by (simp add: table_map_def find_None_iff)
  next
    case (Some x)
    then have "x \<in> set ?l" "key x = key d" using u unlink_Some cm_key by metis+
    then have "x \<in> set (table_data t)" using ok_facts(10) [OF ok, of x d] by blast
    then show ?thesis
      using u Some \<open>key x = key d\<close> ok_facts(7) [OF ok] by (simp add: table_map_eq_Some)
  qed
qed

lemma remove_mset_add:
  assumes ok: "table_ok key cp cm h t"
  shows "mset (table_data (tablahash_remove t d)) + mset_option (table_map key t (key d)) =
    mset (table_data t)"
proof -
  let ?i = "bucket_index t d" and ?l = "elems t ! bucket_index t d"
  have i: "?i < length (elems t)" using ok_facts [OF ok] by simp
  obtain l' r where u: "unlink cm ?l d = (l', r)" by fastforce
  have m: "table_map key t (key d) = r" using unlink_map [OF ok, of d] u by simp
  show ?thesis
  proof (cases r)
    case None
    then show ?thesis using u m ok_facts [OF ok] by (simp add: tablahash_remove_def Let_def)
  next
    case (Some x)
    then have "mset l' + {# x #} = mset ?l + {#}" using u unlink_Some by fastforce
    from mset_replace [OF mset_concat_update [OF i] this] show ?thesis
      using u m Some ok_facts [OF ok] by (simp add: tablahash_remove_def Let_def table_data_def)
  qed
qed

lemma remove_mset:
  assumes ok: "table_ok key cp cm h t"
  obtains (absent) "table_map key t (key d) = None" "tablahash_remove t d = t"
  | (present) e where "table_map key t (key d) = Some e"
      "mset (table_data t) = mset (e # table_data (tablahash_remove t d))"
proof (cases "table_map key t (key d)")
  case None
  then have "tablahash_remove t d = t"
    using unlink_map [OF ok, of d] ok_facts [OF ok]
    by (auto simp: tablahash_remove_def Let_def split: prod.splits)
  then show ?thesis using None absent by blast
next
  case (Some e)
  then show ?thesis using remove_mset_add [OF ok, of d] present by simp
qed

lemma numElems_remove:
  assumes ok: "table_ok key cp cm h t"
  shows "numElems (tablahash_remove t d) = of_nat (length (table_data (tablahash_remove t d)))"
  using ok
proof (cases rule: remove_mset [of t d])
  case absent
  then show ?thesis using table_inv_num [OF ok_facts(1) [OF ok]] by simp
next
  case (present e)
  then have "numElems (tablahash_remove t d) = numElems t - 1"
    using unlink_map [OF ok, of d] ok_facts [OF ok]
    by (auto simp: tablahash_remove_def Let_def split: prod.splits option.splits)
  then show ?thesis
    using table_inv_num [OF ok_facts(1) [OF ok]] length_mset_cong [OF present(2)] by simp
qed

lemma bucket_remove:
  assumes ok: "table_ok key cp cm h t" and i: "i < 256" "x \<in> set (elems (tablahash_remove t d) ! i)"
  shows "bucket_index (tablahash_remove t d) x = i"
proof -
  have b: "bucket_index (tablahash_remove t d) x = bucket_index t x"
    by (simp add: bucket_index_def remove_callbacks)
  have "x \<in> set (elems t ! i)"
    using i ok_facts [OF ok] unlink_Some [THEN conjunct2, THEN conjunct2, THEN arg_cong [of _ _ set_mset]]
    by (fastforce simp: tablahash_remove_def Let_def nth_list_update split: option.splits prod.splits if_splits)
  then show ?thesis
    using i ok unfolding b by (auto simp: table_ok_def table_inv_def HASH_SIZE_def)
qed

lemma distinct_keys_remove:
  assumes ok: "table_ok key cp cm h t"
  shows "distinct (map key (table_data (tablahash_remove t d)))"
  using ok
proof (cases rule: remove_mset [of t d])
  case absent
  then show ?thesis using ok_facts(7) [OF ok] by simp
next
  case (present e)
  then show ?thesis using ok_facts(7) [OF ok] distinct_map_mset_cong [OF present(2), of key] by simp
qed

lemma remove_ok:
  assumes ok: "table_ok key cp cm h t"
  shows "table_ok key cp cm h (tablahash_remove t d)"
  using distinct_keys_remove [OF ok] numElems_remove [OF ok] bucket_remove [OF ok] ok
  by (simp add: table_ok_def table_inv_def remove_callbacks HASH_SIZE_def)

lemma remove_set:
  assumes ok: "table_ok key cp cm h t"
  shows "set (table_data (tablahash_remove t d)) = {x \<in> set (table_data t). key x \<noteq> key d}"
  using ok
proof (cases rule: remove_mset [of t d])
  case absent
  then show ?thesis using table_map_NoneD [OF absent(1)] by auto
next
  case (present e)
  then have "distinct (map key (e # table_data (tablahash_remove t d)))"
    using ok_facts(7) [OF ok] distinct_map_mset_cong [OF present(2)] by blast
  then show ?thesis
    using set_mset_cong [OF present(2)] table_map_SomeD [OF present(1)] by (auto simp: rev_image_eqI)
qed

lemma remove_map:
  assumes ok: "table_ok key cp cm h t"
  shows "table_map key (tablahash_remove t d) = (table_map key t)(key d := None)"
proof
  fix k
  have "table_map key (tablahash_remove t d) k = Some x \<longleftrightarrow> ((table_map key t)(key d := None)) k = Some x" for x
    using remove_set [OF ok, of d]
    by (auto simp: table_map_eq_Some [OF distinct_keys_remove [OF ok, of d]]
        table_map_eq_Some [OF ok_facts(7) [OF ok]])
  then show "table_map key (tablahash_remove t d) k = ((table_map key t)(key d := None)) k"
    by (metis not_Some_eq)
qed

lemma create_ok: "table_ok key cp cm h (tablahash_create cp cm h)"
  by (simp add: table_ok_def table_inv_def tablahash_create_def table_data_def HASH_SIZE_def)

text \<open>Every datum is in the table or destroyed once: nothing leaks, nothing is freed twice.\<close>

lemma insert_account:
  assumes ok: "table_ok key cp cm h t"
  shows "mset (table_data (tablahash_insert t d)) + mset (destroyed (tablahash_insert t d)) =
    mset (table_data t) + mset (destroyed t) + {# cp d #}"
proof -
  have "mset (destroyed (tablahash_insert t d)) =
      mset (destroyed t) + mset_option (table_map key t (key d))"
    using find_map [OF ok, of d, symmetric]
    by (simp add: tablahash_insert_def tablahash_find_def Let_def split: option.split)
  then show ?thesis
    using insert_mset_add [OF ok, of d] by (metis union_assoc union_commute)
qed

lemma remove_account:
  assumes ok: "table_ok key cp cm h t"
  shows "mset (table_data (tablahash_remove t d)) + mset (destroyed (tablahash_remove t d)) =
    mset (table_data t) + mset (destroyed t)"
proof -
  have "mset (destroyed (tablahash_remove t d)) =
      mset (destroyed t) + mset_option (table_map key t (key d))"
    using unlink_map [OF ok, of d] ok_facts [OF ok]
    by (auto simp: tablahash_remove_def Let_def split: prod.splits option.splits)
  then show ?thesis
    using remove_mset_add [OF ok, of d] by (metis union_assoc union_commute)
qed

lemma insert_sum:
  fixes f :: "'a \<Rightarrow> 'g :: ab_group_add"
  assumes ok: "table_ok key cp cm h t"
  shows "sum_list (map f (table_data (tablahash_insert t d))) =
    sum_list (map f (table_data t)) + f (cp d) -
      (case table_map key t (key d) of None \<Rightarrow> 0 | Some e \<Rightarrow> f e)"
  using ok
proof (cases rule: insert_mset [of t d])
  case new
  then show ?thesis using sum_list_mset_cong [OF new(2), of f] by simp
next
  case (replace e xs)
  then show ?thesis
    using sum_list_mset_cong [OF replace(2), of f] sum_list_mset_cong [OF replace(3), of f] by simp
qed

end

section \<open>Sweeps and writes through a pointer\<close>

lemma table_data_filter [simp]: "table_data (table_filter P t) = filter P (table_data t)"
  by (simp add: table_filter_def table_data_def filter_concat)

lemma table_data_modify [simp]: "table_data (table_modify f t) = map f (table_data t)"
  by (simp add: table_modify_def table_data_def map_concat)

lemma table_filter_simps [simp]:
  "elems (table_filter P t) = map (filter P) (elems t)" "capacity (table_filter P t) = capacity t"
  "copy (table_filter P t) = copy t" "comp (table_filter P t) = comp t" "hash (table_filter P t) = hash t"
  "bucket_index (table_filter P t) = bucket_index t"
  by (simp_all add: table_filter_def bucket_index_def fun_eq_iff)

lemma table_modify_simps [simp]:
  "elems (table_modify f t) = map (map f) (elems t)" "capacity (table_modify f t) = capacity t"
  "copy (table_modify f t) = copy t" "comp (table_modify f t) = comp t" "hash (table_modify f t) = hash t"
  "numElems (table_modify f t) = numElems t" "bucket_index (table_modify f t) = bucket_index t"
  "destroyed (table_modify f t) = destroyed t"
  by (simp_all add: table_modify_def bucket_index_def fun_eq_iff)

lemma table_filter_ok:
  assumes "table_ok key cp cm h t"
  shows "table_ok key cp cm h (table_filter P t)"
proof -
  have "length (filter P xs) + length (filter (Not \<circ> P) xs) = length xs" for xs :: "'a list"
    by (induction xs) auto
  then have "numElems (table_filter P t) = of_nat (length (filter P (table_data t)))"
    using assms unfolding table_ok_def table_inv_def table_filter_def
    by simp (metis add_diff_cancel_right' of_nat_add)
  then show ?thesis
    using assms by (auto simp: table_ok_def table_inv_def distinct_map_filter)
qed

lemma table_filter_all: "filter P (table_data t) = table_data t \<Longrightarrow> elems (table_filter P t) = elems t"
proof -
  assume a: "filter P (table_data t) = table_data t"
  then have "\<forall>xs \<in> set (elems t). filter P xs = xs"
    by (auto simp: table_data_def filter_id_conv)
  then show ?thesis by (simp add: map_idI)
qed

lemma table_modify_ok:
  assumes "table_ok key cp cm h t" "\<And>d. d \<in> set (table_data t) \<Longrightarrow> key (f d) = key d"
    and h: "\<And>a b. key a = key b \<Longrightarrow> h a = h b"
  shows "table_ok key cp cm h (table_modify f t)"
proof -
  have "map (key \<circ> f) (table_data t) = map key (table_data t)" using assms(2) by simp
  then have keys: "distinct (map (key \<circ> f) (table_data t))"
    using assms(1) unfolding table_ok_def table_inv_def by metis
  have "bucket_index t (f d) = i" if "i < 256" "d \<in> set (elems t ! i)" for d i
  proof -
    have "d \<in> set (table_data t)"
      using that assms(1)
      by (auto simp: table_ok_def table_inv_def HASH_SIZE_def table_data_def set_concat_nth simp del: set_concat)
    then have "h (f d) = h d" using assms(2) h by blast
    then have "bucket_index t (f d) = bucket_index t d"
      using assms(1) by (simp add: bucket_index_def table_ok_def)
    then show ?thesis using that assms(1) by (simp add: table_ok_def table_inv_def HASH_SIZE_def)
  qed
  then show ?thesis
    using assms(1) keys by (simp add: table_ok_def table_inv_def HASH_SIZE_def)
qed

end
