(* ===== verification/Entry_Pointers.thy ===== *)
theory Entry_Pointers
  imports Hashtable
begin

text \<open>
  \<open>tablahash_find\<close> returns a pointer to the stored copy and unlocks the table (\<open>hashtable.c\<close>); what a
  worker reads through that pointer afterwards may have been freed by another worker. Here the
  pointer is the datum it was found to point at together with its generation, the number of data
  with that key the table had freed until then. A stored datum is never written in place in
  the tables used this way, and every replacement, removal and sweep of a key frees the datum stored
  under it, so that the generation tells the allocations of one key apart: the pointer is good as
  long as the generation of its key has not changed, and reading through it later is \<open>None\<close>.
\<close>

section \<open>Finding and reading\<close>

definition freed_count :: "'a HashTable \<Rightarrow> 'a \<Rightarrow> nat" where
  "freed_count table d = length (filter (\<lambda>x. comp table x d = 0) (destroyed table))"

definition find_entry :: "'a HashTable \<Rightarrow> 'a \<Rightarrow> ('a \<times> nat) option" where
  "find_entry table d = map_option (\<lambda>x. (x, freed_count table x)) (tablahash_find table d)"

definition read_entry :: "'a HashTable \<Rightarrow> 'a \<times> nat \<Rightarrow> 'a option" where
  "read_entry table p = (if freed_count table (fst p) = snd p then tablahash_find table (fst p) else None)"

text \<open>A pointer some lookup returned: it is good, or its generation is over.\<close>

definition once_found :: "'a HashTable \<Rightarrow> 'a \<times> nat \<Rightarrow> bool" where
  "once_found table p \<longleftrightarrow>
     snd p \<le> freed_count table (fst p) \<and>
     (freed_count table (fst p) = snd p \<longrightarrow> tablahash_find table (fst p) = Some (fst p))"

lemma read_once_found:
  "once_found t p \<Longrightarrow> read_entry t p = (if freed_count t (fst p) = snd p then Some (fst p) else None)"
  by (simp add: once_found_def read_entry_def)

lemma read_dangling: "once_found t p \<Longrightarrow> read_entry t p = None \<longleftrightarrow> snd p < freed_count t (fst p)"
  by (auto simp: once_found_def read_entry_def)

lemma good_once_found: "read_entry t p = Some (fst p) \<Longrightarrow> once_found t p"
  by (auto simp: once_found_def read_entry_def split: if_splits)

section \<open>What the operations do to a pointer\<close>

context hash_callbacks
begin

lemma freed_count_key:
  "table_ok key cp cm h t \<Longrightarrow> freed_count t d = length (filter (\<lambda>x. key x = key d) (destroyed t))"
  by (simp add: freed_count_def ok_facts(3) cm_key)

lemma found_key: "table_ok key cp cm h t \<Longrightarrow> tablahash_find t d = Some x \<Longrightarrow> x \<in> set (table_data t) \<and> key x = key d"
  using find_map [of t d] table_map_SomeD [of key t "key d" x] by simp

lemma find_entry_good:
  assumes "table_ok key cp cm h t" "find_entry t d = Some p"
  shows "read_entry t p = Some (fst p)" "once_found t p" "key (fst p) = key d"
proof -
  obtain x where x: "tablahash_find t d = Some x" "p = (x, freed_count t x)"
    using assms(2) by (auto simp: find_entry_def)
  have k: "key x = key d" using found_key [OF assms(1) x(1)] by simp
  then have "tablahash_find t x = Some x"
    using x(1) find_map [OF assms(1), of x] find_map [OF assms(1), of d] by simp
  then show "read_entry t p = Some (fst p)" using x(2) by (simp add: read_entry_def)
  then show "once_found t p" by (rule good_once_found)
  show "key (fst p) = key d" using x(2) k by simp
qed

lemma find_entry_cases:
  assumes "table_ok key cp cm h t"
  obtains (absent) "find_entry t d = None" "tablahash_find t d = None"
  | (present) p where "find_entry t d = Some p" "tablahash_find t d = Some (fst p)" "read_entry t p = Some (fst p)"
      "key (fst p) = key d"
  using find_entry_good [OF assms, of d] by (cases "tablahash_find t d") (auto simp: find_entry_def)

lemma freed_more:
  assumes ok: "table_ok key cp cm h t" "table_ok key cp cm h t'"
    and freed: "destroyed t' = destroyed t @ (case tablahash_find t d of None \<Rightarrow> [] | Some x \<Rightarrow> [x])"
  shows "freed_count t' e = freed_count t e + (if key e = key d \<and> tablahash_find t d \<noteq> None then 1 else 0)"
proof (cases "tablahash_find t d")
  case None
  then show ?thesis by (simp add: freed_count_key [OF ok(1)] freed_count_key [OF ok(2)] freed)
next
  case (Some x)
  then have "key x = key d" using found_key [OF ok(1)] by blast
  then show ?thesis
    using Some by (cases "key e = key d") (simp_all add: freed_count_key [OF ok(1)] freed_count_key [OF ok(2)] freed)
qed

lemma insert_freed:
  assumes ok: "table_ok key cp cm h t"
  shows "freed_count (tablahash_insert t d) e =
    freed_count t e + (if key e = key d \<and> tablahash_find t d \<noteq> None then 1 else 0)"
proof -
  have "destroyed (tablahash_insert t d) = destroyed t @ (case tablahash_find t d of None \<Rightarrow> [] | Some x \<Rightarrow> [x])"
    by (simp add: tablahash_insert_def tablahash_find_def Let_def split: option.split)
  then show ?thesis by (rule freed_more [OF ok insert_ok [OF ok]])
qed

lemma remove_freed:
  assumes ok: "table_ok key cp cm h t"
  shows "freed_count (tablahash_remove t d) e =
    freed_count t e + (if key e = key d \<and> tablahash_find t d \<noteq> None then 1 else 0)"
proof -
  have "tablahash_find t d = snd (unlink cm (elems t ! bucket_index t d) d)"
    using find_map [OF ok] unlink_map [OF ok] by simp
  then have "destroyed (tablahash_remove t d) = destroyed t @ (case tablahash_find t d of None \<Rightarrow> [] | Some x \<Rightarrow> [x])"
    using ok_facts(3) [OF ok] by (auto simp: tablahash_remove_def Let_def split: prod.split option.split)
  then show ?thesis by (rule freed_more [OF ok remove_ok [OF ok]])
qed

lemma filter_freed:
  assumes ok: "table_ok key cp cm h t"
  shows "freed_count (table_filter P t) e =
    freed_count t e + length (filter (\<lambda>x. key x = key e \<and> \<not> P x) (table_data t))"
  by (simp add: freed_count_key [OF ok] freed_count_key [OF table_filter_ok [OF ok]])
    (simp add: table_filter_def conj_commute)

text \<open>Operations on other keys leave a good pointer good.\<close>

lemma insert_other:
  assumes ok: "table_ok key cp cm h t" and k: "key (fst p) \<noteq> key d"
  shows "read_entry (tablahash_insert t d) p = read_entry t p"
  using k by (simp add: read_entry_def insert_freed [OF ok] find_map [OF ok] find_map [OF insert_ok [OF ok]] insert_map [OF ok])

lemma remove_other:
  assumes ok: "table_ok key cp cm h t" and k: "key (fst p) \<noteq> key d"
  shows "read_entry (tablahash_remove t d) p = read_entry t p"
  using k by (simp add: read_entry_def remove_freed [OF ok] find_map [OF ok] find_map [OF remove_ok [OF ok]] remove_map [OF ok])

lemma once_found_insert:
  assumes ok: "table_ok key cp cm h t" and p: "once_found t p"
  shows "once_found (tablahash_insert t d) p"
proof (cases "key (fst p) = key d")
  case True
  then show ?thesis
    using p find_map [OF ok, of d] find_map [OF ok, of "fst p"]
    by (auto simp: once_found_def insert_freed [OF ok])
next
  case False
  then show ?thesis
    using p by (simp add: once_found_def insert_freed [OF ok] find_map [OF ok] find_map [OF insert_ok [OF ok]] insert_map [OF ok])
qed

lemma once_found_filter:
  assumes ok: "table_ok key cp cm h t" and p: "once_found t p"
  shows "once_found (table_filter P t) p"
proof -
  note ok' = table_filter_ok [OF ok, of P]
  let ?gone = "filter (\<lambda>x. key x = key (fst p) \<and> \<not> P x) (table_data t)"
  have "tablahash_find (table_filter P t) (fst p) = Some (fst p)"
    if "tablahash_find t (fst p) = Some (fst p)" "?gone = []"
  proof -
    have "fst p \<in> set (table_data t)" using found_key [OF ok that(1)] by simp
    then have "fst p \<in> set (table_data (table_filter P t))" using that(2) by (auto simp: filter_empty_conv)
    then show ?thesis
      using table_map_eq_Some [OF ok_facts(7) [OF ok']] by (simp add: find_map [OF ok'])
  qed
  moreover have "length ?gone = 0" "freed_count t (fst p) = snd p" if "freed_count t (fst p) + length ?gone = snd p"
    using that p unfolding once_found_def by linarith+
  ultimately show ?thesis using p by (simp add: once_found_def filter_freed [OF ok])
qed

end

end
