(* ===== verification/Resource_Hash.thy ===== *)
theory Resource_Hash
  imports Entry_Pointers
begin

text \<open>
  The domain structs and table callbacks of \<open>ResourceManager/hash.c\<close> and \<open>hash.h\<close>.

  A \<open>pending_resource\<close> list is a HOL list (its \<open>next\<close> link). A \<open>local_job_t\<close> is heap
  allocated and owned by \<open>table_localjobs\<close> (its copy callback returns the pointer it is
  given), while \<open>table_ourjobs\<close> stores a second pointer to the same struct. So a job carries
  its address \<open>lj_self\<close>, the identity of its allocation, and an \<open>fd_job_entry\<close> stores
  an address: the owner table is the heap of local jobs, and an address no job of the owner
  table has is a dangling pointer. The interpretations at the end discharge the laws of
  \<open>hash_callbacks\<close> for the four tables of the agent.
\<close>

section \<open>Structs\<close>

record pending_resource_t =
  pr_type :: string
  pr_amount :: cint
  pr_dest_ip :: string
  pr_dest_port :: cint
  pr_provider_fd :: fd

record received_node =
  node_ip :: cint
  node_port :: cint
  node_gpu :: cint
  node_mem :: cint
  node_cpu :: cint
  node_time :: time_t

record received_job =
  rj_id :: cint
  rj_ip :: cint
  rj_port :: cint
  cpu_granted :: cint
  mem_granted :: cint
  gpu_granted :: cint
  original_socket :: fd

type_synonym address = nat

record local_job_t =
  lj_self :: address
  lj_job_id :: cint
  lj_erlang_socket :: fd
  lj_origin_socket :: fd
  lj_next_req :: "pending_resource_t list"
  lj_granted_reqs :: "pending_resource_t list"
  lj_timer :: time_t

record fd_job_entry =
  entry_fd :: fd
  entry_job :: address

section \<open>Callbacks\<close>

definition func_hash_node :: "received_node \<Rightarrow> cuint" where
  "func_hash_node node = node_ip node"

definition comp_node :: "received_node \<Rightarrow> received_node \<Rightarrow> cint" where
  "comp_node node1 node2 = (if \<not> (node_ip node1 = node_ip node2) then 1 else 0)"

definition copy_node :: "received_node \<Rightarrow> received_node" where
  "copy_node node = node"

definition func_hash_job :: "received_job \<Rightarrow> cuint" where
  "func_hash_job job = rj_id job + rj_ip job + rj_port job"

definition comp_job :: "received_job \<Rightarrow> received_job \<Rightarrow> cint" where
  "comp_job job1 job2 =
     (if \<not> (rj_id job1 = rj_id job2 \<and> rj_ip job1 = rj_ip job2 \<and> rj_port job1 = rj_port job2)
      then 1 else 0)"

definition copy_job :: "received_job \<Rightarrow> received_job" where
  "copy_job job = job"

definition create_table_nodes :: "received_node HashTable" where
  "create_table_nodes = tablahash_create copy_node comp_node func_hash_node"

definition create_table_jobs :: "received_job HashTable" where
  "create_table_jobs = tablahash_create copy_job comp_job func_hash_job"

definition func_hash_fd :: "fd_job_entry \<Rightarrow> cuint" where
  "func_hash_fd e = entry_fd e"

definition comp_fd :: "fd_job_entry \<Rightarrow> fd_job_entry \<Rightarrow> cint" where
  "comp_fd a b = (if \<not> (entry_fd a = entry_fd b) then 1 else 0)"

definition copy_fd :: "fd_job_entry \<Rightarrow> fd_job_entry" where
  "copy_fd orig = orig"

definition create_table_fd_jobs :: "fd_job_entry HashTable" where
  "create_table_fd_jobs = tablahash_create copy_fd comp_fd func_hash_fd"

definition func_hash_localjob :: "local_job_t \<Rightarrow> cuint" where
  "func_hash_localjob job = lj_job_id job"

definition comp_localjob :: "local_job_t \<Rightarrow> local_job_t \<Rightarrow> cint" where
  "comp_localjob a b = (if \<not> (lj_job_id a = lj_job_id b) then 1 else 0)"

definition copy_localjob :: "local_job_t \<Rightarrow> local_job_t" where
  "copy_localjob job = job"

text \<open>
  The destructor of the owner table: it walks both request lists and frees each node, then the
  job. Its value is what it passes to \<open>free\<close>, in order. The destructors of the other tables
  free their datum only.
\<close>

fun free_requests :: "pending_resource_t list \<Rightarrow> pending_resource_t list \<Rightarrow> pending_resource_t list" where
  "free_requests [] freed = freed"
| "free_requests (r # rs) freed = free_requests rs (freed @ [r])"

definition destr_localjob :: "local_job_t \<Rightarrow> pending_resource_t list \<times> address" where
  "destr_localjob job =
     (free_requests (lj_granted_reqs job) (free_requests (lj_next_req job) []), lj_self job)"

definition create_table_local_jobs :: "local_job_t HashTable" where
  "create_table_local_jobs = tablahash_create copy_localjob comp_localjob func_hash_localjob"

text \<open>Stack keys: a struct of which only the compared fields are set.\<close>

definition node_key :: "cint \<Rightarrow> received_node" where
  "node_key ip = \<lparr>node_ip = ip, node_port = 0, node_gpu = 0, node_mem = 0, node_cpu = 0, node_time = 0\<rparr>"

definition received_job_key :: "cint \<Rightarrow> cint \<Rightarrow> cint \<Rightarrow> received_job" where
  "received_job_key job_id ip port =
     \<lparr>rj_id = job_id, rj_ip = ip, rj_port = port, cpu_granted = 0, mem_granted = 0,
      gpu_granted = 0, original_socket = 0\<rparr>"

definition fd_key :: "fd \<Rightarrow> fd_job_entry" where
  "fd_key x = \<lparr>entry_fd = x, entry_job = 0\<rparr>"

definition localjob_key :: "cint \<Rightarrow> local_job_t" where
  "localjob_key job_id =
     \<lparr>lj_self = 0, lj_job_id = job_id, lj_erlang_socket = 0, lj_origin_socket = 0,
      lj_next_req = [], lj_granted_reqs = [], lj_timer = 0\<rparr>"

lemma stack_keys [simp]:
  "node_ip (node_key ip) = ip"
  "rj_id (received_job_key i ip port) = i" "rj_ip (received_job_key i ip port) = ip"
  "rj_port (received_job_key i ip port) = port"
  "entry_fd (fd_key x) = x" "lj_job_id (localjob_key i) = i"
  by (simp_all add: node_key_def received_job_key_def fd_key_def localjob_key_def)

section \<open>The callbacks satisfy the table's laws\<close>

definition rj_key :: "received_job \<Rightarrow> cint \<times> cint \<times> cint" where
  "rj_key job = (rj_id job, rj_ip job, rj_port job)"

lemma rj_key_of_key [simp]: "rj_key (received_job_key i ip port) = (i, ip, port)"
  by (simp add: rj_key_def)

abbreviation nodes_ok :: "received_node HashTable \<Rightarrow> bool" where
  "nodes_ok \<equiv> table_ok node_ip copy_node comp_node func_hash_node"

abbreviation nodejobs_ok :: "received_job HashTable \<Rightarrow> bool" where
  "nodejobs_ok \<equiv> table_ok rj_key copy_job comp_job func_hash_job"

abbreviation ourjobs_ok :: "fd_job_entry HashTable \<Rightarrow> bool" where
  "ourjobs_ok \<equiv> table_ok entry_fd copy_fd comp_fd func_hash_fd"

abbreviation localjobs_ok :: "local_job_t HashTable \<Rightarrow> bool" where
  "localjobs_ok \<equiv> table_ok lj_job_id copy_localjob comp_localjob func_hash_localjob"

interpretation nodes: hash_callbacks node_ip copy_node comp_node func_hash_node
  by unfold_locales (simp_all add: copy_node_def comp_node_def func_hash_node_def)

interpretation nodejobs: hash_callbacks rj_key copy_job comp_job func_hash_job
  by unfold_locales (simp_all add: copy_job_def comp_job_def func_hash_job_def rj_key_def)

interpretation ourjobs: hash_callbacks entry_fd copy_fd comp_fd func_hash_fd
  by unfold_locales (simp_all add: copy_fd_def comp_fd_def func_hash_fd_def)

interpretation localjobs: hash_callbacks lj_job_id copy_localjob comp_localjob func_hash_localjob
  by unfold_locales (simp_all add: copy_localjob_def comp_localjob_def func_hash_localjob_def)

lemma create_tables_ok:
  "nodes_ok create_table_nodes" "nodejobs_ok create_table_jobs"
  "ourjobs_ok create_table_fd_jobs" "localjobs_ok create_table_local_jobs"
  by (simp_all add: create_table_nodes_def create_table_jobs_def create_table_fd_jobs_def
      create_table_local_jobs_def nodes.create_ok nodejobs.create_ok ourjobs.create_ok
      localjobs.create_ok)

lemma created_empty:
  "table_data create_table_nodes = []" "table_data create_table_jobs = []"
  "table_data create_table_fd_jobs = []" "table_data create_table_local_jobs = []"
  by (simp_all add: create_table_nodes_def create_table_jobs_def create_table_fd_jobs_def
      create_table_local_jobs_def tablahash_create_def table_data_def)

section \<open>Histories of a table\<close>

datatype 'a table_op = Ins 'a | Rem 'a

fun run_ops :: "'a table_op list \<Rightarrow> 'a HashTable \<Rightarrow> 'a HashTable" where
  "run_ops [] t = t"
| "run_ops (Ins d # ops) t = run_ops ops (tablahash_insert t d)"
| "run_ops (Rem d # ops) t = run_ops ops (tablahash_remove t d)"

text \<open>The same history on a finite map, and the data it inserts.\<close>

fun map_ops :: "('a \<Rightarrow> 'k) \<Rightarrow> 'a table_op list \<Rightarrow> ('k \<rightharpoonup> 'a) \<Rightarrow> ('k \<rightharpoonup> 'a)" where
  "map_ops key [] m = m"
| "map_ops key (Ins d # ops) m = map_ops key ops (m(key d \<mapsto> d))"
| "map_ops key (Rem d # ops) m = map_ops key ops (m(key d := None))"

fun inserted :: "'a table_op list \<Rightarrow> 'a list" where
  "inserted [] = []"
| "inserted (Ins d # ops) = d # inserted ops"
| "inserted (Rem d # ops) = inserted ops"

lemma insert_localjob:
  assumes "localjobs_ok t"
  shows "table_map lj_job_id (tablahash_insert t d) = (table_map lj_job_id t)(lj_job_id d \<mapsto> d)"
    "mset (table_data (tablahash_insert t d)) + mset (destroyed (tablahash_insert t d)) =
      mset (table_data t) + mset (destroyed t) + {# d #}"
  using localjobs.insert_map [OF assms, of d] localjobs.insert_account [OF assms, of d]
  by (simp_all add: copy_localjob_def)

lemma run_localjobs:
  assumes "localjobs_ok t"
  shows "localjobs_ok (run_ops ops t) \<and>
    table_map lj_job_id (run_ops ops t) = map_ops lj_job_id ops (table_map lj_job_id t) \<and>
    mset (table_data (run_ops ops t)) + mset (destroyed (run_ops ops t)) =
      mset (table_data t) + mset (destroyed t) + mset (inserted ops)"
  using assms
proof (induction ops t rule: run_ops.induct)
  case (2 d ops t)
  from 2(1) [OF localjobs.insert_ok [OF 2(2)]]
  show ?case unfolding insert_localjob [OF 2(2), of d] run_ops.simps map_ops.simps inserted.simps by (simp add: fun_upd_def)
next
  case (3 d ops t)
  from 3(1) [OF localjobs.remove_ok [OF 3(2)]]
  show ?case
    unfolding localjobs.remove_map [OF 3(2), of d] localjobs.remove_account [OF 3(2), of d]
      run_ops.simps map_ops.simps inserted.simps .
qed simp

lemma create_localjobs_empty: "table_map lj_job_id create_table_local_jobs = Map.empty" "destroyed create_table_local_jobs = []"
  by (simp_all add: table_map_def created_empty fun_eq_iff) (simp add: create_table_local_jobs_def tablahash_create_def)

section \<open>Properties\<close>

text \<open>
  C37. The owner table implements a finite map: after any sequence of insertions and removals,
  looking a job id up gives what the same sequence on a map from ids to jobs gives.
\<close>

theorem table_refines_map:
  "tablahash_find (run_ops ops create_table_local_jobs) (localjob_key i) = map_ops lj_job_id ops Map.empty i"
  using run_localjobs [OF create_tables_ok(4), of ops]
    localjobs.find_map [of "run_ops ops create_table_local_jobs" "localjob_key i"]
  by (simp add: create_localjobs_empty)

text \<open>
  The table stays well formed under any sequence of operations: 256 chains, every datum in
  the chain its hash selects, no two data with the same key, and the counter that
  \<open>tablahash_nelems\<close> reads equal to the number of data.
\<close>

theorem table_keeps_invariant:
  "table_inv lj_job_id (run_ops ops create_table_local_jobs) \<and>
   tablahash_nelems (run_ops ops create_table_local_jobs) =
     of_nat (length (table_data (run_ops ops create_table_local_jobs)))"
  using run_localjobs [OF create_tables_ok(4), of ops]
  by (simp add: table_ok_def table_inv_def tablahash_nelems_def)

text \<open>
  C38. Memory accounting of the owner table: \<open>tablahash_destroy\<close> ends a history in which every
  job that was ever inserted has been passed to the destructor exactly once, whether it was
  replaced, removed or still stored.
\<close>

theorem table_frees_each_job_once:
  "mset (tablahash_destroy (run_ops ops create_table_local_jobs)) = mset (inserted ops)"
proof -
  have "table_inv lj_job_id (run_ops ops create_table_local_jobs)"
    using run_localjobs [OF create_tables_ok(4), of ops] by (simp add: table_ok_def)
  from tablahash_destroy_all [OF this] show ?thesis
    using run_localjobs [OF create_tables_ok(4), of ops] created_empty(4) create_localjobs_empty(2)
    by (simp add: union_commute)
qed

text \<open>
  A peer's announcement replaces what was known of that address and nothing else:
  \<open>table_nodes\<close> is keyed by the IP address only.
\<close>

theorem node_lookup_after_insert:
  assumes "nodes_ok t"
  shows "tablahash_find (tablahash_insert t node) (node_key ip) =
    (if ip = node_ip node then Some node else tablahash_find t (node_key ip))"
  using nodes.find_map [OF assms, of "node_key ip"] nodes.find_map [OF nodes.insert_ok [OF assms, of node], of "node_key ip"]
    nodes.insert_map [OF assms, of node]
  by (simp add: copy_node_def)

theorem node_lookup_after_insert_witness:
  "tablahash_find (tablahash_insert create_table_nodes
     \<lparr>node_ip = 5, node_port = 4200, node_gpu = 1, node_mem = 8192, node_cpu = 4, node_time = 77\<rparr>) (node_key 5) =
   Some \<lparr>node_ip = 5, node_port = 4200, node_gpu = 1, node_mem = 8192, node_cpu = 4, node_time = 77\<rparr>"
  by (simp add: node_lookup_after_insert [OF create_tables_ok(1)])

end
