(* ===== verification/Read_Instructions.thy ===== *)
theory Read_Instructions
  imports C_Strings Resource_Hash
begin

unbundle bit_operations_syntax

text \<open>
  \<open>agent/read_instructions.c\<close>: the per-descriptor line buffer, the tokenizer, and the
  \<open>NODES\<close> reply.

  A \<open>Connection\<close> has its byte array of \<open>BUFFER_LEN\<close> bytes and the number of bytes in
  use. What the kernel has for a descriptor is a list of receive events; \<open>recv\<close> hands out
  the next segment, cut to the space asked for, and says \<open>again\<close> when there is none left.
  \<open>read_until_newline\<close> returns 1, 0 or -1 in C: here \<open>Line l\<close> (with the line it copied
  out), \<open>NeedMore\<close> and \<open>Gone\<close>. The array is indexed as in C: \<open>strchr\<close> stops at the
  first NUL byte.
\<close>

section \<open>The line buffer\<close>

definition BUFFER_LEN :: nat where
  "BUFFER_LEN = 1024"

definition MAX_FDS :: nat where
  "MAX_FDS = 1024"

record Connection =
  conn_buffer :: "char list"
  accumulated_bytes :: nat

definition initialize_connection_buffers :: "fd \<Rightarrow> Connection" where
  "initialize_connection_buffers =
     (\<lambda>i. \<lparr>conn_buffer = replicate BUFFER_LEN NUL, accumulated_bytes = 0\<rparr>)"

definition valid_fd :: "fd \<Rightarrow> bool" where
  "valid_fd x \<longleftrightarrow> \<not> (sint x < 0 \<or> int MAX_FDS \<le> sint x)"

definition clear_connection_buffer :: "fd \<Rightarrow> (fd \<Rightarrow> Connection) \<Rightarrow> (fd \<Rightarrow> Connection)" where
  "clear_connection_buffer x conns =
     (if valid_fd x then conns(x := (conns x)\<lparr>accumulated_bytes := 0\<rparr>) else conns)"

datatype rx_event = Segment string | Closed | Failed

datatype recv_result = Recv_data string | Recv_closed | Recv_again | Recv_error

fun recv :: "rx_event list \<Rightarrow> nat \<Rightarrow> recv_result \<times> rx_event list" where
  "recv [] n = (Recv_again, [])"
| "recv (Segment [] # es) n = recv es n"
| "recv (Segment (c # cs) # es) n =
     (if length (c # cs) \<le> n then (Recv_data (c # cs), es)
      else (Recv_data (take n (c # cs)), Segment (drop n (c # cs)) # es))"
| "recv (Closed # es) n = (Recv_closed, Closed # es)"
| "recv (Failed # es) n = (Recv_error, es)"

fun strchr :: "char list \<Rightarrow> char \<Rightarrow> nat option" where
  "strchr [] c = None"
| "strchr (x # xs) c =
     (if x = c then Some 0 else if x = NUL then None else map_option Suc (strchr xs c))"

datatype read_result = Line string | NeedMore | Gone

text \<open>The part of \<open>read_until_newline\<close> after a newline was found at index \<open>nl\<close>.\<close>

definition take_line :: "Connection \<Rightarrow> nat \<Rightarrow> string \<times> Connection" where
  "take_line conn nl =
     (let storage = conn_buffer conn; line_len = nl + 1;
          remaining = accumulated_bytes conn - line_len
      in (take line_len storage,
          conn\<lparr>conn_buffer := take remaining (drop line_len storage) @ replicate (BUFFER_LEN - remaining) NUL,
               accumulated_bytes := remaining\<rparr>))"

text \<open>\<open>memcpy\<close> of the received bytes at the end of the pending ones, and their NUL.\<close>

definition store_bytes :: "Connection \<Rightarrow> string \<Rightarrow> Connection" where
  "store_bytes conn temp =
     (let storage = conn_buffer conn; acc = accumulated_bytes conn; n = length temp
      in conn\<lparr>conn_buffer := (take acc storage @ temp @ drop (acc + n) storage)[acc + n := NUL],
              accumulated_bytes := acc + n\<rparr>)"

definition read_connection :: "Connection \<Rightarrow> rx_event list \<Rightarrow> read_result \<times> Connection \<times> rx_event list" where
  "read_connection conn rx =
     (case (if 0 < accumulated_bytes conn then strchr (conn_buffer conn) NEWLINE else None) of
        Some nl \<Rightarrow> (let (line, conn') = take_line conn nl in (Line line, conn', rx))
      | None \<Rightarrow>
          (let conn1 = (if BUFFER_LEN - accumulated_bytes conn - 1 \<le> 0
                        then conn\<lparr>accumulated_bytes := 0, conn_buffer := (conn_buffer conn)[0 := NUL]\<rparr>
                        else conn);
               space = (if BUFFER_LEN - accumulated_bytes conn - 1 \<le> 0
                        then BUFFER_LEN - 1 else BUFFER_LEN - accumulated_bytes conn - 1)
           in case recv rx space of
                (Recv_closed, rx') \<Rightarrow> (Gone, conn1, rx')
              | (Recv_again, rx') \<Rightarrow> (NeedMore, conn1, rx')
              | (Recv_error, rx') \<Rightarrow> (Gone, conn1, rx')
              | (Recv_data temp, rx') \<Rightarrow>
                  (let conn2 = store_bytes conn1 temp in
                   case strchr (conn_buffer conn2) NEWLINE of
                     Some nl \<Rightarrow> (let (line, conn') = take_line conn2 nl in (Line line, conn', rx'))
                   | None \<Rightarrow> (NeedMore, conn2, rx'))))"

definition read_until_newline ::
  "fd \<Rightarrow> (fd \<Rightarrow> Connection) \<Rightarrow> rx_event list \<Rightarrow> read_result \<times> (fd \<Rightarrow> Connection) \<times> rx_event list" where
  "read_until_newline x conns rx =
     (if \<not> valid_fd x then (Gone, conns, rx)
      else let (r, conn', rx') = read_connection (conns x) rx in (r, conns(x := conn'), rx'))"

section \<open>Tokens and quantities\<close>

definition token_delims :: string where
  "token_delims = [CHR 0x20, CHR 0x0A, CHR 0x0D]"

fun token_loop :: "nat \<Rightarrow> string option \<times> string \<Rightarrow> string list" where
  "token_loop 0 t = []"
| "token_loop (Suc n) (None, rest) = []"
| "token_loop (Suc n) (Some t, rest) = t # token_loop n (strtok_r token_delims rest)"

definition get_token :: "string \<Rightarrow> nat \<Rightarrow> string list" where
  "get_token instruction max_tokens = token_loop max_tokens (strtok_r token_delims instruction)"

definition get_quantity :: "string \<Rightarrow> cint" where
  "get_quantity line =
     (let (_, rest) = strtok_r '':'' line; (q, _) = strtok_r '' '' rest in
      case q of Some s \<Rightarrow> atoi s | None \<Rightarrow> 0)"

section \<open>The NODES reply\<close>

text \<open>\<open>s_addr\<close> holds the address in network order, read here on a little-endian machine.\<close>

definition inet_ntop :: "cint \<Rightarrow> string" where
  "inet_ntop ip =
     nat_digits (unat (ip AND 255)) @ ''.'' @ nat_digits (unat (drop_bit 8 ip AND 255)) @ ''.'' @
     nat_digits (unat (drop_bit 16 ip AND 255)) @ ''.'' @ nat_digits (unat (drop_bit 24 ip AND 255))"

definition node_text :: "received_node \<Rightarrow> string" where
  "node_text node =
     inet_ntop (node_ip node) @ '':'' @ fmt_d (node_port node) @ '':cpu:'' @ fmt_d (node_cpu node) @
     '':mem:'' @ fmt_d (node_mem node) @ '':gpu:'' @ fmt_d (node_gpu node)"

definition NODES_BUFFER :: nat where
  "NODES_BUFFER = 8192"

text \<open>
  The reply under construction: the buffer's text, the offset (which counts what would have
  been printed, also past the end), and the flag \<open>first\<close>.
\<close>

type_synonym nodes_buf = "string \<times> nat \<times> bool"

definition append_at :: "string \<times> nat \<Rightarrow> string \<Rightarrow> string \<times> nat" where
  "append_at b s =
     (let (text, offset) = b in
      (take offset text @ snprintf (NODES_BUFFER - offset) s, offset + length s))"

definition nodes_step :: "received_node \<Rightarrow> nodes_buf \<Rightarrow> nodes_buf" where
  "nodes_step node b =
     (let (text, offset, first) = b;
          (text1, offset1) =
            (if \<not> first \<and> offset < NODES_BUFFER then append_at (text, offset) '';'' else (text, offset));
          (text2, offset2) =
            (if offset1 < NODES_BUFFER then append_at (text1, offset1) (node_text node) else (text1, offset1))
      in (text2, offset2, False))"

definition get_nodes_instance :: "received_node HashTable \<Rightarrow> string" where
  "get_nodes_instance table_nodes =
     (let (text, offset, _) =
            fold (\<lambda>i b. fold nodes_step (elems table_nodes ! i) b) [0..<unat (capacity table_nodes)]
              (snprintf NODES_BUFFER ''NODES '', 6, True)
      in if offset < NODES_BUFFER - 1 then fst (append_at (text, offset) [NEWLINE]) else text)"

section \<open>What a handler loop reads\<close>

text \<open>
  The loop \<open>while ((result = read_until_newline(fd, line)) == 1)\<close> of the two message
  handlers, over one connection: the lines in the order they are returned and the result
  that ends it. It ends because every line takes bytes from the buffer or the socket.
\<close>

fun event_bytes :: "rx_event \<Rightarrow> string" where
  "event_bytes (Segment s) = s"
| "event_bytes Closed = []"
| "event_bytes Failed = []"

definition rx_bytes :: "rx_event list \<Rightarrow> string" where
  "rx_bytes rx = concat (map event_bytes rx)"

lemma rx_bytes_simps [simp]: "rx_bytes [] = []" "rx_bytes (e # es) = event_bytes e @ rx_bytes es"
  by (simp_all add: rx_bytes_def)

lemma recv_bytes:
  "recv rx n = (r, rx') \<Longrightarrow> 0 < n \<Longrightarrow>
     rx_bytes rx = (case r of Recv_data s \<Rightarrow> s @ rx_bytes rx' | _ \<Rightarrow> rx_bytes rx') \<and>
     (case r of Recv_data s \<Rightarrow> s \<noteq> [] \<and> length s \<le> n | _ \<Rightarrow> True)"
  by (induction rx n rule: recv.induct) (auto split: if_splits)

lemma read_connection_measure:
  assumes "read_connection conn rx = (Line l, conn', rx')"
  shows "accumulated_bytes conn' + length (rx_bytes rx') < accumulated_bytes conn + length (rx_bytes rx)"
proof (cases "if 0 < accumulated_bytes conn then strchr (conn_buffer conn) NEWLINE else None")
  case (Some nl)
  then show ?thesis
    using assms by (auto simp: read_connection_def take_line_def Let_def split: if_splits)
next
  case None
  let ?full = "BUFFER_LEN - accumulated_bytes conn - 1 \<le> 0"
  let ?space = "if ?full then BUFFER_LEN - 1 else BUFFER_LEN - accumulated_bytes conn - 1"
  obtain r rx1 where r: "recv rx ?space = (r, rx1)" by fastforce
  have "0 < ?space" by (auto simp: BUFFER_LEN_def)
  note rb = recv_bytes [OF r this]
  then show ?thesis
    using assms None r
    by (auto simp: read_connection_def take_line_def store_bytes_def Let_def
        split: recv_result.splits option.splits if_splits)
qed

function read_lines :: "Connection \<Rightarrow> rx_event list \<Rightarrow> string list \<times> read_result \<times> Connection \<times> rx_event list" where
  "read_lines conn rx =
     (case read_connection conn rx of
        (Line l, conn', rx') \<Rightarrow> (let (ls, res) = read_lines conn' rx' in (l # ls, res))
      | (res, conn', rx') \<Rightarrow> ([], res, conn', rx'))"
  by pat_completeness auto
termination
  by (relation "measure (\<lambda>(conn, rx). accumulated_bytes conn + length (rx_bytes rx))")
    (auto dest: read_connection_measure [OF sym])

declare read_lines.simps [simp del]

section \<open>Framing is lossless\<close>

definition conn_inv :: "Connection \<Rightarrow> bool" where
  "conn_inv conn \<longleftrightarrow>
     length (conn_buffer conn) = BUFFER_LEN \<and> accumulated_bytes conn < BUFFER_LEN \<and>
     (0 < accumulated_bytes conn \<longrightarrow> conn_buffer conn ! accumulated_bytes conn = NUL)"

definition pending :: "Connection \<Rightarrow> string" where
  "pending conn = take (accumulated_bytes conn) (conn_buffer conn)"

definition first_line :: "string \<Rightarrow> string" where
  "first_line s = takeWhile (\<lambda>c. c \<noteq> NEWLINE) s @ [NEWLINE]"

definition rest_line :: "string \<Rightarrow> string" where
  "rest_line s = tl (dropWhile (\<lambda>c. c \<noteq> NEWLINE) s)"

lemma first_rest_line: "NEWLINE \<in> set s \<Longrightarrow> first_line s @ rest_line s = s"
  by (induction s) (auto simp: first_line_def rest_line_def)

lemma strchr_newline:
  "NUL \<notin> set p \<Longrightarrow> strchr (p @ NUL # r) NEWLINE =
     (if NEWLINE \<in> set p then Some (length (takeWhile (\<lambda>c. c \<noteq> NEWLINE) p)) else None)"
  by (induction p) auto

lemma pending_length: "conn_inv conn \<Longrightarrow> length (pending conn) = accumulated_bytes conn"
  by (simp add: conn_inv_def pending_def)

lemma buffer_split:
  assumes "conn_inv conn" "0 < accumulated_bytes conn"
  shows "conn_buffer conn = pending conn @ NUL # drop (Suc (accumulated_bytes conn)) (conn_buffer conn)"
  using assms id_take_nth_drop [of "accumulated_bytes conn" "conn_buffer conn"]
  by (simp add: conn_inv_def pending_def)

lemma find_newline:
  assumes "conn_inv conn" "NUL \<notin> set (pending conn)"
  shows "(if 0 < accumulated_bytes conn then strchr (conn_buffer conn) NEWLINE else None) =
    (if NEWLINE \<in> set (pending conn) then Some (length (takeWhile (\<lambda>c. c \<noteq> NEWLINE) (pending conn))) else None)"
proof (cases "0 < accumulated_bytes conn")
  case True
  then show ?thesis
    using buffer_split [OF assms(1)] strchr_newline [OF assms(2)] by metis
next
  case False
  then show ?thesis by (simp add: pending_def)
qed

lemma take_line_spec:
  assumes inv: "conn_inv conn" and nl: "NEWLINE \<in> set (pending conn)"
  shows "fst (take_line conn (length (takeWhile (\<lambda>c. c \<noteq> NEWLINE) (pending conn)))) = first_line (pending conn)"
    "conn_inv (snd (take_line conn (length (takeWhile (\<lambda>c. c \<noteq> NEWLINE) (pending conn)))))"
    "pending (snd (take_line conn (length (takeWhile (\<lambda>c. c \<noteq> NEWLINE) (pending conn))))) = rest_line (pending conn)"
proof -
  let ?p = "pending conn" and ?b = "conn_buffer conn" and ?a = "accumulated_bytes conn"
  let ?n = "length (takeWhile (\<lambda>c. c \<noteq> NEWLINE) ?p)"
  have p: "?p = first_line ?p @ rest_line ?p" using first_rest_line [OF nl] by simp
  have n: "length (first_line ?p) = ?n + 1" by (simp add: first_line_def)
  have a: "?a = ?n + 1 + length (rest_line ?p)"
    using pending_length [OF inv] p n by (metis length_append)
  have b: "?b = first_line ?p @ rest_line ?p @ drop ?a ?b"
    using p by (metis append.assoc append_take_drop_id pending_def)
  have l: "take (?n + 1) ?b = first_line ?p" using b n by (metis append_eq_conv_conj)
  have r: "take (?a - (?n + 1)) (drop (?n + 1) ?b) = rest_line ?p"
    using b n a by (metis add_diff_cancel_left' append_eq_conv_conj)
  have rem: "?a - (?n + 1) = length (rest_line ?p)" using a by simp
  have t: "take_line conn ?n = (first_line ?p, conn\<lparr>conn_buffer := rest_line ?p @
      replicate (BUFFER_LEN - length (rest_line ?p)) NUL, accumulated_bytes := length (rest_line ?p)\<rparr>)"
    unfolding take_line_def Let_def l rem r [unfolded rem] by (rule refl)
  show "fst (take_line conn ?n) = first_line ?p"
    "pending (snd (take_line conn ?n)) = rest_line ?p"
    unfolding t by (simp_all add: pending_def)
  have "length (rest_line ?p) < BUFFER_LEN" using a inv unfolding conn_inv_def by linarith
  then show "conn_inv (snd (take_line conn ?n))"
    unfolding t by (simp add: conn_inv_def nth_append)
qed

lemma store_bytes_spec:
  assumes inv: "conn_inv conn" and fits: "accumulated_bytes conn + length temp < BUFFER_LEN" and "temp \<noteq> []"
  shows "conn_inv (store_bytes conn temp)" "pending (store_bytes conn temp) = pending conn @ temp"
    "accumulated_bytes (store_bytes conn temp) = accumulated_bytes conn + length temp"
  using assms by (auto simp: store_bytes_def Let_def conn_inv_def pending_def)

text \<open>
  No run of \<open>BUFFER_LEN - 1\<close> bytes lacks a newline: what the buffer needs for the
  \<open>buffer full\<close> reset never to drop data.
\<close>

definition short_lines :: "string \<Rightarrow> bool" where
  "short_lines s \<longleftrightarrow>
     (\<forall>p q r. s = p @ q @ r \<longrightarrow> length q = BUFFER_LEN - 1 \<longrightarrow> NEWLINE \<in> set q)"

definition complete_line :: "string \<Rightarrow> bool" where
  "complete_line l \<longleftrightarrow> (\<exists>b. l = b @ [NEWLINE] \<and> NEWLINE \<notin> set b)"

lemma complete_first_line: "complete_line (first_line s)"
proof -
  have "NEWLINE \<notin> set (takeWhile (\<lambda>c. c \<noteq> NEWLINE) s)" by (auto dest: set_takeWhileD)
  then show ?thesis by (auto simp: complete_line_def first_line_def)
qed

lemma short_lines_suffix: "short_lines (p @ s) \<Longrightarrow> short_lines s"
  unfolding short_lines_def by (metis append.assoc)

text \<open>
  One call: a returned line and what stays buffered are the bytes that were buffered or read,
  in order, and a call that returns no line leaves no newline behind.
\<close>

lemma read_connection_spec:
  assumes inv: "conn_inv conn" and nul: "NUL \<notin> set (pending conn @ rx_bytes rx)"
    and short: "short_lines (pending conn @ rx_bytes rx)"
    and rd: "read_connection conn rx = (res, conn', rx')"
  shows "conn_inv conn'" "(case res of Line l \<Rightarrow> l | _ \<Rightarrow> []) @ pending conn' @ rx_bytes rx' = pending conn @ rx_bytes rx"
    "case res of Line l \<Rightarrow> complete_line l | _ \<Rightarrow> NEWLINE \<notin> set (pending conn')"
proof -
  have nulp: "NUL \<notin> set (pending conn)" using nul by simp
  note found = find_newline [OF inv nulp]
  have all: "conn_inv conn' \<and> (case res of Line l \<Rightarrow> l | _ \<Rightarrow> []) @ pending conn' @ rx_bytes rx' = pending conn @ rx_bytes rx
    \<and> (case res of Line l \<Rightarrow> complete_line l | _ \<Rightarrow> NEWLINE \<notin> set (pending conn'))"
  proof (cases "NEWLINE \<in> set (pending conn)")
    case True
    then show ?thesis
      using rd take_line_spec [OF inv True] first_rest_line [OF True] complete_first_line found
      by (auto simp: read_connection_def Let_def append_assoc [symmetric] simp del: append_assoc split: prod.splits)
  next
    case False
    let ?space = "BUFFER_LEN - accumulated_bytes conn - 1"
    have "length (pending conn) \<noteq> BUFFER_LEN - 1"
      using False short unfolding short_lines_def by (metis append_Nil)
    then have full: "\<not> ?space \<le> 0" "0 < ?space"
      using inv pending_length [OF inv] by (auto simp: conn_inv_def)
    obtain r rx1 where r: "recv rx ?space = (r, rx1)" by fastforce
    note rb = recv_bytes [OF r full(2)]
    have rd': "(case r of Recv_data temp \<Rightarrow>
        (let conn2 = store_bytes conn temp in
          case strchr (conn_buffer conn2) NEWLINE of
            Some nl \<Rightarrow> (let (line, c) = take_line conn2 nl in (Line line, c, rx1))
          | None \<Rightarrow> (NeedMore, conn2, rx1))
        | Recv_again \<Rightarrow> (NeedMore, conn, rx1) | _ \<Rightarrow> (Gone, conn, rx1)) = (res, conn', rx')"
      using rd found False full(1) r by (simp add: read_connection_def Let_def split: recv_result.splits)
    show ?thesis
    proof (cases r)
      case (Recv_data temp)
      let ?c = "store_bytes conn temp"
      have "accumulated_bytes conn + length temp < BUFFER_LEN" "temp \<noteq> []"
        using rb Recv_data full(2) by auto
      note st = store_bytes_spec [OF inv this]
      have bytes: "pending ?c @ rx_bytes rx1 = pending conn @ rx_bytes rx"
        using st(2) rb Recv_data by simp
      then have nul2: "NUL \<notin> set (pending ?c)" using nul by (metis UnI1 set_append)
      have "0 < accumulated_bytes ?c" using st(3) \<open>temp \<noteq> []\<close> by simp
      with find_newline [OF st(1) nul2] have found2: "strchr (conn_buffer ?c) NEWLINE =
        (if NEWLINE \<in> set (pending ?c) then Some (length (takeWhile (\<lambda>c. c \<noteq> NEWLINE) (pending ?c))) else None)"
        by simp
      show ?thesis
      proof (cases "NEWLINE \<in> set (pending ?c)")
        case True
        then show ?thesis
          using rd' Recv_data take_line_spec [OF st(1) True] first_rest_line [OF True] complete_first_line
            found2 bytes
          by (auto simp: Let_def append_assoc [symmetric] simp del: append_assoc split: prod.splits)
      next
        case False
        then show ?thesis using rd' Recv_data st bytes found2 by auto
      qed
    qed (use rd' rb inv False in auto)
  qed
  then show "conn_inv conn'" "(case res of Line l \<Rightarrow> l | _ \<Rightarrow> []) @ pending conn' @ rx_bytes rx' = pending conn @ rx_bytes rx"
    "case res of Line l \<Rightarrow> complete_line l | _ \<Rightarrow> NEWLINE \<notin> set (pending conn')" by blast+
qed

lemma read_lines_spec:
  assumes "conn_inv conn" "NUL \<notin> set (pending conn @ rx_bytes rx)" "short_lines (pending conn @ rx_bytes rx)"
    "read_lines conn rx = (ls, res, conn', rx')"
  shows "conn_inv conn' \<and> concat ls @ pending conn' @ rx_bytes rx' = pending conn @ rx_bytes rx \<and>
    (\<forall>l \<in> set ls. complete_line l) \<and> NEWLINE \<notin> set (pending conn') \<and> (\<forall>l. res \<noteq> Line l)"
  using assms
proof (induction conn rx arbitrary: ls res rule: read_lines.induct)
  case (1 conn rx)
  obtain r c1 rx1 where rd: "read_connection conn rx = (r, c1, rx1)" by (metis prod_cases3)
  note one = read_connection_spec [OF 1(2-4) rd]
  show ?case
  proof (cases r)
    case (Line l)
    obtain ls1 res1 where rest: "read_lines c1 rx1 = (ls1, res1)" by (cases "read_lines c1 rx1")
    have stream: "l @ pending c1 @ rx_bytes rx1 = pending conn @ rx_bytes rx" using one(2) Line by simp
    have "NUL \<notin> set (pending c1 @ rx_bytes rx1)" "short_lines (pending c1 @ rx_bytes rx1)"
      using 1(3,4) short_lines_suffix [of l] by (metis UnI2 set_append stream, metis stream)
    moreover have split: "ls = l # ls1" "res1 = (res, conn', rx')"
      using 1(5) rd Line rest by (subst (asm) read_lines.simps, simp)+
    ultimately show ?thesis
      using 1(1) [OF rd [symmetric] _ _ one(1)] Line rest stream one(3) by (auto simp: append_assoc)
  next
    case NeedMore
    then show ?thesis using 1(5) rd one by (subst (asm) read_lines.simps) auto
  next
    case Gone
    then show ?thesis using 1(5) rd one by (subst (asm) read_lines.simps) auto
  qed
qed

section \<open>The buffer is never overrun\<close>

lemma strchr_before_NUL: "strchr (p @ NUL # r) NEWLINE = Some n \<Longrightarrow> n < length p"
  by (induction p arbitrary: n) (auto split: if_splits)

lemma strchr_pending:
  assumes "conn_inv conn" "0 < accumulated_bytes conn" "strchr (conn_buffer conn) NEWLINE = Some nl"
  shows "nl < accumulated_bytes conn"
  using strchr_before_NUL [of "pending conn"] buffer_split [OF assms(1,2)] assms(3) pending_length [OF assms(1)]
  by metis

lemma take_line_bounds:
  assumes "conn_inv conn" "nl < accumulated_bytes conn"
  shows "conn_inv (snd (take_line conn nl))" "length (fst (take_line conn nl)) = Suc nl" "Suc nl < BUFFER_LEN"
  using assms by (auto simp: take_line_def conn_inv_def Let_def nth_append)

lemma read_connection_bounds:
  assumes inv: "conn_inv conn" and rd: "read_connection conn rx = (res, conn', rx')"
  shows "conn_inv conn'" "res = Line l \<Longrightarrow> length l < BUFFER_LEN"
proof -
  let ?full = "BUFFER_LEN - accumulated_bytes conn - 1 \<le> 0"
  define conn1 where "conn1 = (if ?full then conn\<lparr>accumulated_bytes := 0, conn_buffer := (conn_buffer conn)[0 := NUL]\<rparr> else conn)"
  define space where "space = (if ?full then BUFFER_LEN - 1 else BUFFER_LEN - accumulated_bytes conn - 1)"
  have inv1: "conn_inv conn1" using inv by (simp add: conn1_def conn_inv_def)
  have sp: "0 < space" "accumulated_bytes conn1 + space < BUFFER_LEN"
    using inv by (auto simp: space_def conn1_def conn_inv_def BUFFER_LEN_def)
  obtain r rx1 where r: "recv rx space = (r, rx1)" by fastforce
  have stored: "conn_inv (store_bytes conn1 temp) \<and> 0 < accumulated_bytes (store_bytes conn1 temp)" if "r = Recv_data temp" for temp
    using that recv_bytes [OF r sp(1)] sp(2) store_bytes_spec [OF inv1, of temp] by simp
  have "conn_inv conn' \<and> (\<forall>l. res = Line l \<longrightarrow> length l < BUFFER_LEN)"
  proof (cases "if 0 < accumulated_bytes conn then strchr (conn_buffer conn) NEWLINE else None")
    case (Some nl)
    then have "nl < accumulated_bytes conn" using strchr_pending [OF inv] by (simp split: if_splits)
    then show ?thesis
      using rd Some take_line_bounds [OF inv, of nl] by (auto simp: read_connection_def split: prod.splits)
  next
    case None
    have rd': "(case r of Recv_data temp \<Rightarrow>
        (case strchr (conn_buffer (store_bytes conn1 temp)) NEWLINE of
            Some nl \<Rightarrow> (let (line, c) = take_line (store_bytes conn1 temp) nl in (Line line, c, rx1))
          | None \<Rightarrow> (NeedMore, store_bytes conn1 temp, rx1))
        | Recv_again \<Rightarrow> (NeedMore, conn1, rx1) | _ \<Rightarrow> (Gone, conn1, rx1)) = (res, conn', rx')"
      using rd None r unfolding read_connection_def Let_def conn1_def [symmetric] space_def [symmetric]
      by (simp add: Let_def split: recv_result.splits)
    show ?thesis
    proof (cases r)
      case (Recv_data temp)
      note st = stored [OF Recv_data]
      show ?thesis
      proof (cases "strchr (conn_buffer (store_bytes conn1 temp)) NEWLINE")
        case None
        then show ?thesis using rd' Recv_data st by auto
      next
        case (Some nl)
        then have "nl < accumulated_bytes (store_bytes conn1 temp)" using strchr_pending st by blast
        then show ?thesis
          using rd' Recv_data Some take_line_bounds [of "store_bytes conn1 temp" nl] st by (auto split: prod.splits)
      qed
    qed (use rd' inv1 in auto)
  qed
  then show "conn_inv conn'" "res = Line l \<Longrightarrow> length l < BUFFER_LEN" by blast+
qed

section \<open>Properties\<close>

lemma short_lines_short: "length s < BUFFER_LEN - 1 \<Longrightarrow> short_lines s"
  by (auto simp: short_lines_def)

lemma conn_inv_initial: "conn_inv (initialize_connection_buffers x)" "pending (initialize_connection_buffers x) = []"
  by (simp_all add: conn_inv_def pending_def initialize_connection_buffers_def BUFFER_LEN_def)

text \<open>
  C35. Framing is lossless for bytes without NUL and without a line longer than the buffer,
  in whatever segments they arrive: the lines a handler loop gets, followed
  by what stays buffered and what stays in the socket, are exactly the bytes that were
  buffered or received; every line ends with its only newline, and no complete line stays
  buffered.
\<close>

theorem framing_is_lossless:
  assumes "conn_inv conn" "NUL \<notin> set (pending conn @ rx_bytes rx)" "short_lines (pending conn @ rx_bytes rx)"
    and "read_lines conn rx = (ls, res, conn', rx')"
  shows "concat ls @ pending conn' @ rx_bytes rx' = pending conn @ rx_bytes rx \<and>
    (\<forall>l \<in> set ls. complete_line l) \<and> NEWLINE \<notin> set (pending conn')"
  using read_lines_spec [OF assms] by blast

theorem framing_is_lossless_witness:
  "\<exists>ls res conn rx. read_lines (initialize_connection_buffers 10)
       [Segment ''RESERVE 7'', Segment ('' cpu 3'' @ NEWLINE # ''REL'')] = (ls, res, conn, rx) \<and>
     concat ls @ pending conn @ rx_bytes rx = ''RESERVE 7 cpu 3'' @ NEWLINE # ''REL'' \<and>
     (\<forall>l \<in> set ls. complete_line l)"
proof -
  let ?c = "initialize_connection_buffers 10" and ?rx = "[Segment ''RESERVE 7'', Segment ('' cpu 3'' @ NEWLINE # ''REL'')]"
  obtain ls res conn rx where r: "read_lines ?c ?rx = (ls, res, conn, rx)" by (metis prod_cases4)
  have "NUL \<notin> set (pending ?c @ rx_bytes ?rx)" by (simp add: conn_inv_initial)
  moreover have "short_lines (pending ?c @ rx_bytes ?rx)"
    by (rule short_lines_short) (simp add: conn_inv_initial BUFFER_LEN_def)
  ultimately show ?thesis
    using framing_is_lossless [OF conn_inv_initial(1) _ _ r] r by (auto simp: conn_inv_initial)
qed

text \<open>
  C36. The line buffer is never overrun, whatever arrives (NUL bytes and endless lines
  included): one call keeps the buffer's invariant, so that the terminating NUL has room and
  the number of remaining bytes is not negative, and a returned line with its NUL fits the
  caller's buffer of the same size.
\<close>

theorem line_buffer_never_overrun:
  assumes "conn_inv conn" "read_connection conn rx = (res, conn', rx')"
  shows "conn_inv conn' \<and> (\<forall>l. res = Line l \<longrightarrow> length l + 1 \<le> BUFFER_LEN)"
  using read_connection_bounds [OF assms] by (auto simp: Suc_le_eq)

theorem line_buffer_never_overrun_witness:
  "conn_inv (fst (snd (read_connection (initialize_connection_buffers 10) [Segment (replicate 3000 (CHR ''x''))])))"
  using line_buffer_never_overrun [OF conn_inv_initial(1), of 10 "[Segment (replicate 3000 (CHR ''x''))]"
      "fst (read_connection (initialize_connection_buffers 10) [Segment (replicate 3000 (CHR ''x''))])"
      "fst (snd (read_connection (initialize_connection_buffers 10) [Segment (replicate 3000 (CHR ''x''))]))"
      "snd (snd (read_connection (initialize_connection_buffers 10) [Segment (replicate 3000 (CHR ''x''))]))"]
  by simp

text \<open>
  A NUL byte hides the lines behind it: \<open>strchr\<close> stops there, so a connection that
  received a NUL delivers no line although complete lines are in its buffer.
\<close>

theorem nul_byte_hides_lines:
  "fst (read_lines (initialize_connection_buffers 10)
     [Segment (NUL # ''GET_NODES'' @ [NEWLINE]), Segment (''GET_NODES'' @ [NEWLINE])]) = []"
  by code_simp

end
