(* ===== verification/Resource_Queue.thy ===== *)
theory Resource_Queue
  imports Resource_Hash
begin

text \<open>
  The per-resource FIFO of \<open>ResourceManager/resource_queue.c\<close>, at the level of its
  pointers: a queue has a first and a last pointer into the memory of the request nodes it
  owns, and a node has its \<open>next_req\<close> link. NULL is \<open>None\<close>. The node that
  \<open>make_request\<close> allocated enters the queue's memory at a fresh address when
  \<open>enqueue_request\<close> links it, and leaves it when \<open>dequeue_request_locked\<close> hands it
  back. A read through a NULL or dangling pointer is undefined: the operation is \<open>None\<close>.

  The locale \<open>fifo_queue\<close> is what \<open>utils.c\<close> relies on of a queue; the pointer queue
  is an instance of it, with \<open>queue_list\<close> (the requests in link order) as its contents.
\<close>

section \<open>Requests and queues\<close>

record request =
  rq_job_id :: cint
  rq_origin_socket :: fd
  rq_amount_requested :: cint
  rq_asked_resource :: string
  rq_next_req :: "address option"

record request_queue =
  resources_left :: cint
  q_first :: "address option"
  q_last :: "address option"
  q_cells :: "address \<Rightarrow> request option"
  q_fresh :: address

definition make_request :: "cint \<Rightarrow> fd \<Rightarrow> cint \<Rightarrow> request" where
  "make_request jid socketfd amount =
     \<lparr>rq_job_id = jid, rq_origin_socket = socketfd, rq_amount_requested = amount,
      rq_asked_resource = [], rq_next_req = None\<rparr>"

definition make_queue :: "cint \<Rightarrow> request_queue" where
  "make_queue resources =
     \<lparr>resources_left = resources, q_first = None, q_last = None, q_cells = Map.empty, q_fresh = 0\<rparr>"

definition enqueue_request :: "request_queue \<Rightarrow> request \<Rightarrow> request_queue option" where
  "enqueue_request queue req =
     (let p = q_fresh queue; node = req\<lparr>rq_next_req := None\<rparr> in
      case q_first queue of
        None \<Rightarrow>
          Some (queue\<lparr>q_first := Some p, q_last := Some p,
                      q_cells := (q_cells queue)(p \<mapsto> node), q_fresh := Suc p\<rparr>)
      | Some _ \<Rightarrow>
          (case q_last queue of
             None \<Rightarrow> None
           | Some l \<Rightarrow>
               (case q_cells queue l of
                  None \<Rightarrow> None
                | Some tail \<Rightarrow>
                    Some (queue\<lparr>q_last := Some p,
                       q_cells := (q_cells queue)(l \<mapsto> tail\<lparr>rq_next_req := Some p\<rparr>, p \<mapsto> node),
                       q_fresh := Suc p\<rparr>))))"

definition dequeue_request_locked :: "request_queue \<Rightarrow> (request_queue \<times> request option) option" where
  "dequeue_request_locked queue =
     (case q_first queue of
        None \<Rightarrow> Some (queue, None)
      | Some a \<Rightarrow>
          (case q_cells queue a of
             None \<Rightarrow> None
           | Some req \<Rightarrow>
               Some (queue\<lparr>q_first := rq_next_req req,
                           q_last := (if rq_next_req req = None then None else q_last queue),
                           q_cells := (q_cells queue)(a := None)\<rparr>,
                     Some (req\<lparr>rq_next_req := None\<rparr>))))"

section \<open>Contents and invariant\<close>

fun linked :: "(address \<Rightarrow> request option) \<Rightarrow> address option \<Rightarrow> address list \<Rightarrow> bool" where
  "linked m p [] \<longleftrightarrow> p = None"
| "linked m p (a # as) \<longleftrightarrow> p = Some a \<and> (\<exists>r. m a = Some r \<and> linked m (rq_next_req r) as)"

definition queue_path :: "request_queue \<Rightarrow> address list \<Rightarrow> bool" where
  "queue_path q as \<longleftrightarrow>
     linked (q_cells q) (q_first q) as \<and> distinct as \<and>
     q_last q = (if as = [] then None else Some (last as)) \<and>
     dom (q_cells q) = set as \<and> (\<forall>a \<in> set as. a < q_fresh q)"

definition queue_inv :: "request_queue \<Rightarrow> bool" where
  "queue_inv q \<longleftrightarrow> (\<exists>as. queue_path q as)"

definition unlinked :: "request \<Rightarrow> request" where
  "unlinked r = r\<lparr>rq_next_req := None\<rparr>"

fun chain :: "nat \<Rightarrow> (address \<Rightarrow> request option) \<Rightarrow> address option \<Rightarrow> request list" where
  "chain 0 m p = []"
| "chain (Suc n) m None = []"
| "chain (Suc n) m (Some a) =
     (case m a of None \<Rightarrow> [] | Some r \<Rightarrow> unlinked r # chain n m (rq_next_req r))"

definition queue_list :: "request_queue \<Rightarrow> request list" where
  "queue_list q = chain (q_fresh q) (q_cells q) (q_first q)"

section \<open>The FIFO contract\<close>

locale fifo_queue =
  fixes inv :: "'q \<Rightarrow> bool"
    and items :: "'q \<Rightarrow> 'a list"
    and norm :: "'a \<Rightarrow> 'a"
    and enq :: "'q \<Rightarrow> 'a \<Rightarrow> 'q option"
    and deq :: "'q \<Rightarrow> ('q \<times> 'a option) option"
  assumes enq_spec: "inv q \<Longrightarrow> \<exists>q'. enq q x = Some q' \<and> inv q' \<and> items q' = items q @ [norm x]"
    and deq_empty: "inv q \<Longrightarrow> items q = [] \<Longrightarrow> deq q = Some (q, None)"
    and deq_head: "inv q \<Longrightarrow> items q = x # xs \<Longrightarrow> \<exists>q'. deq q = Some (q', Some x) \<and> inv q' \<and> items q' = xs"
begin

lemma enq_inv: "inv q \<Longrightarrow> enq q x = Some q' \<Longrightarrow> inv q'"
  using enq_spec [of q x] by auto

lemma enq_items: "inv q \<Longrightarrow> enq q x = Some q' \<Longrightarrow> items q' = items q @ [norm x]"
  using enq_spec [of q x] by auto

lemma deq_inv: "inv q \<Longrightarrow> deq q = Some (q', r) \<Longrightarrow> inv q'"
  using deq_empty deq_head by (cases "items q") fastforce+

lemma deq_items:
  "inv q \<Longrightarrow> deq q = Some (q', r) \<Longrightarrow>
     (case r of None \<Rightarrow> items q = [] \<and> items q' = [] | Some x \<Rightarrow> items q = x # items q')"
  using deq_empty [of q] deq_head [of q] by (cases "items q") fastforce+

lemma deq_total: "inv q \<Longrightarrow> deq q \<noteq> None"
  using deq_empty deq_head by (cases "items q") fastforce+

text \<open>An item leaves after everything that was there when it arrived, and before what came later.\<close>

lemma deq_after_enq:
  assumes "inv q" "enq q x = Some q1" "deq q1 = Some (q2, r)"
  shows "r = Some (hd (items q @ [norm x])) \<and> items q2 = tl (items q @ [norm x])"
proof -
  have "r \<noteq> None \<and> items q @ [norm x] = the r # items q2"
    using deq_items [OF enq_inv [OF assms(1,2)] assms(3)] enq_items [OF assms(1,2)]
    by (auto split: option.splits)
  then show ?thesis by auto
qed

end

section \<open>The pointer queue meets the contract\<close>

lemma linked_cong: "\<forall>a \<in> set as. m a = m' a \<Longrightarrow> linked m p as = linked m' p as"
  by (induction as arbitrary: p) auto

lemma linked_snoc:
  assumes "linked m p as" "as \<noteq> []" "distinct as" "n \<notin> set as" "m (last as) = Some t"
    "rq_next_req node = None"
  shows "linked (m(last as \<mapsto> t\<lparr>rq_next_req := Some n\<rparr>, n \<mapsto> node)) p (as @ [n])"
  using assms
proof (induction as arbitrary: p)
  case (Cons a as)
  show ?case
  proof (cases "as = []")
    case True
    then show ?thesis using Cons.prems by auto
  next
    case False
    then have "a \<noteq> last as" using Cons.prems(3) by auto
    then show ?thesis using Cons False by auto
  qed
qed simp

lemma linked_chain:
  "linked m p as \<Longrightarrow> length as \<le> n \<Longrightarrow> chain n m p = map (\<lambda>a. unlinked (the (m a))) as"
proof (induction as arbitrary: p n)
  case Nil
  then show ?case by (cases n) auto
next
  case (Cons a as)
  then show ?case by (cases n) auto
qed

lemma queue_path_length: "queue_path q as \<Longrightarrow> length as \<le> q_fresh q"
proof -
  assume a: "queue_path q as"
  then have "set as \<subseteq> {..<q_fresh q}" by (auto simp: queue_path_def)
  then have "card (set as) \<le> q_fresh q" using card_mono [of "{..<q_fresh q}"] by simp
  then show ?thesis using a distinct_card [of as] by (simp add: queue_path_def)
qed

lemma queue_path_list: "queue_path q as \<Longrightarrow> queue_list q = map (\<lambda>a. unlinked (the (q_cells q a))) as"
  using queue_path_length [of q as] linked_chain by (auto simp: queue_list_def queue_path_def)

lemma enqueue_path:
  assumes "queue_path q as"
  shows "\<exists>q'. enqueue_request q r = Some q' \<and> queue_path q' (as @ [q_fresh q]) \<and>
    map (\<lambda>a. unlinked (the (q_cells q' a))) as = map (\<lambda>a. unlinked (the (q_cells q a))) as \<and>
    q_cells q' (q_fresh q) = Some (unlinked r)"
proof (cases "as = []")
  case True
  then show ?thesis
    using assms by (auto simp: enqueue_request_def queue_path_def Let_def unlinked_def)
next
  case False
  then obtain t where t: "q_cells q (last as) = Some t"
    using assms unfolding queue_path_def by (metis domD last_in_set)
  have fresh: "q_fresh q \<notin> set as" using assms by (auto simp: queue_path_def)
  have bound: "a < Suc (q_fresh q)" if "a \<in> set as" for a
    using assms that unfolding queue_path_def by (meson less_SucI)
  have first: "q_first q \<noteq> None" using assms False by (cases as) (auto simp: queue_path_def)
  have "linked (q_cells q) (q_first q) as" "distinct as" using assms by (auto simp: queue_path_def)
  from linked_snoc [OF this(1) False this(2) fresh t, of "unlinked r"]
  show ?thesis
    using assms False t fresh first last_in_set [OF False] bound
    by (auto simp: enqueue_request_def queue_path_def Let_def unlinked_def)
qed

lemma dequeue_path:
  assumes "queue_path q (a # as)"
  shows "\<exists>q'. dequeue_request_locked q = Some (q', Some (unlinked (the (q_cells q a)))) \<and>
    queue_path q' as \<and> map (\<lambda>a. unlinked (the (q_cells q' a))) as = map (\<lambda>a. unlinked (the (q_cells q a))) as"
proof -
  obtain r where r: "q_first q = Some a" "q_cells q a = Some r" "linked (q_cells q) (rq_next_req r) as"
    using assms by (auto simp: queue_path_def)
  have a: "a \<notin> set as" using assms by (simp add: queue_path_def)
  have "linked ((q_cells q)(a := None)) (rq_next_req r) as"
    using r(3) a linked_cong [of as "q_cells q" "(q_cells q)(a := None)"] by auto
  moreover have "rq_next_req r = None \<longleftrightarrow> as = []" using r(3) by (cases as) auto
  ultimately show ?thesis
    using assms r(1,2) a by (auto simp: dequeue_request_locked_def queue_path_def unlinked_def)
qed

interpretation rq: fifo_queue queue_inv queue_list unlinked enqueue_request dequeue_request_locked
proof
  fix q x
  assume "queue_inv q"
  then obtain as where as: "queue_path q as" by (auto simp: queue_inv_def)
  from enqueue_path [OF as, of x] obtain q' where q': "enqueue_request q x = Some q'"
    "queue_path q' (as @ [q_fresh q])"
    "map (\<lambda>a. unlinked (the (q_cells q' a))) as = map (\<lambda>a. unlinked (the (q_cells q a))) as"
    "q_cells q' (q_fresh q) = Some (unlinked x)" by blast
  then show "\<exists>q'. enqueue_request q x = Some q' \<and> queue_inv q' \<and> queue_list q' = queue_list q @ [unlinked x]"
    using queue_path_list [OF as] queue_path_list [OF q'(2)]
    by (auto simp: queue_inv_def unlinked_def)
next
  fix q
  assume "queue_inv q" "queue_list q = []"
  then obtain as where "queue_path q as" "as = []" using queue_path_list by (fastforce simp: queue_inv_def)
  then show "dequeue_request_locked q = Some (q, None)"
    by (auto simp: queue_path_def dequeue_request_locked_def)
next
  fix q x xs
  assume "queue_inv q" "queue_list q = x # xs"
  then obtain a as where as: "queue_path q (a # as)" "queue_list q = x # xs"
    using queue_path_list by (fastforce simp: queue_inv_def)
  from dequeue_path [OF as(1)] obtain q' where q':
    "dequeue_request_locked q = Some (q', Some (unlinked (the (q_cells q a))))" "queue_path q' as"
    "map (\<lambda>a. unlinked (the (q_cells q' a))) as = map (\<lambda>a. unlinked (the (q_cells q a))) as" by blast
  then show "\<exists>q'. dequeue_request_locked q = Some (q', Some x) \<and> queue_inv q' \<and> queue_list q' = xs"
    using as queue_path_list [OF as(1)] queue_path_list [OF q'(2)] by (auto simp: queue_inv_def)
qed

lemma make_queue_inv: "queue_inv (make_queue n)" "queue_list (make_queue n) = []"
  "resources_left (make_queue n) = n"
proof -
  have p: "queue_path (make_queue n) []" by (simp add: queue_path_def make_queue_def)
  then show "queue_inv (make_queue n)" "queue_list (make_queue n) = []"
    using queue_path_list [OF p] by (auto simp: queue_inv_def)
qed (simp add: make_queue_def)

lemma queue_left_frame [frame_simps]:
  "queue_inv (q\<lparr>resources_left := n\<rparr>) = queue_inv q"
  "queue_list (q\<lparr>resources_left := n\<rparr>) = queue_list q"
  by (simp_all add: queue_inv_def queue_path_def queue_list_def)

lemma enqueue_left [frame_simps]: "enqueue_request q r = Some q' \<Longrightarrow> resources_left q' = resources_left q"
  by (auto simp: enqueue_request_def Let_def split: option.splits)

lemma dequeue_left [frame_simps]:
  "dequeue_request_locked q = Some (q', r) \<Longrightarrow> resources_left q' = resources_left q"
  by (auto simp: dequeue_request_locked_def split: option.splits)

text \<open>The first pointer is NULL exactly on the empty queue, and else leads to the head's node.\<close>

lemma queue_first_None: "queue_inv q \<Longrightarrow> q_first q = None \<longleftrightarrow> queue_list q = []"
proof -
  assume "queue_inv q"
  then obtain as where as: "queue_path q as" by (auto simp: queue_inv_def)
  then show ?thesis using queue_path_list [OF as] by (cases as) (auto simp: queue_path_def)
qed

lemma queue_first_Some:
  assumes "queue_inv q" "queue_list q = x # xs"
  obtains a r where "q_first q = Some a" "q_cells q a = Some r" "x = unlinked r"
proof -
  from assms obtain a as where as: "queue_path q (a # as)"
    using queue_path_list by (fastforce simp: queue_inv_def)
  then show ?thesis
    using that assms(2) queue_path_list [OF as] by (auto simp: queue_path_def)
qed

lemma unlinked_simps [simp]:
  "rq_job_id (unlinked r) = rq_job_id r" "rq_origin_socket (unlinked r) = rq_origin_socket r"
  "rq_amount_requested (unlinked r) = rq_amount_requested r" "rq_next_req (unlinked r) = None"
  "rq_asked_resource (unlinked r) = rq_asked_resource r"
  by (simp_all add: unlinked_def)

section \<open>Histories of a queue\<close>

datatype queue_op = Enq cint fd cint | Deq

fun run_queue :: "queue_op list \<Rightarrow> request_queue \<Rightarrow> (request_queue \<times> request option list) option" where
  "run_queue [] q = Some (q, [])"
| "run_queue (Enq i x n # ops) q =
     (case enqueue_request q (make_request i x n) of None \<Rightarrow> None | Some q' \<Rightarrow> run_queue ops q')"
| "run_queue (Deq # ops) q =
     (case dequeue_request_locked q of
        None \<Rightarrow> None
      | Some (q', r) \<Rightarrow> map_option (\<lambda>(q'', rs). (q'', r # rs)) (run_queue ops q'))"

text \<open>The same history on a list: append at the end, take from the front.\<close>

fun list_queue :: "queue_op list \<Rightarrow> request list \<Rightarrow> request list \<times> request option list" where
  "list_queue [] xs = (xs, [])"
| "list_queue (Enq i x n # ops) xs = list_queue ops (xs @ [make_request i x n])"
| "list_queue (Deq # ops) [] = (let (ys, rs) = list_queue ops [] in (ys, None # rs))"
| "list_queue (Deq # ops) (x # xs) = (let (ys, rs) = list_queue ops xs in (ys, Some x # rs))"

lemma unlinked_make [simp]: "unlinked (make_request i x n) = make_request i x n"
  by (simp add: unlinked_def make_request_def)

lemma run_queue_refines:
  "queue_inv q \<Longrightarrow> list_queue ops (queue_list q) = (ys, rs) \<Longrightarrow>
     \<exists>q'. run_queue ops q = Some (q', rs) \<and> queue_inv q' \<and> queue_list q' = ys \<and> resources_left q' = resources_left q"
proof (induction ops "queue_list q" arbitrary: q ys rs rule: list_queue.induct)
  case (2 i x n ops)
  obtain q1 where q1: "enqueue_request q (make_request i x n) = Some q1" "queue_inv q1"
    "queue_list q1 = queue_list q @ [make_request i x n]"
    using rq.enq_spec [OF 2(2), of "make_request i x n"] by auto
  then show ?case using 2(1) [OF q1(3) [symmetric] q1(2)] 2(3) enqueue_left [OF q1(1)] by simp
next
  case (3 ops)
  then have e: "queue_list q = []" "dequeue_request_locked q = Some (q, None)" using rq.deq_empty by simp_all
  obtain ys' rs' where l: "list_queue ops [] = (ys', rs')" by fastforce
  from 3(1) [of q] 3(3,4) e l obtain q' where "run_queue ops q = Some (q', rs')" "queue_inv q'" "queue_list q' = ys'"
    "resources_left q' = resources_left q" by auto
  then show ?case using 3(4) e l by auto
next
  case (4 ops x xs)
  obtain q1 where q1: "dequeue_request_locked q = Some (q1, Some x)" "queue_inv q1" "queue_list q1 = xs"
    using rq.deq_head [OF 4(3), of x xs] 4(2) by metis
  obtain ys' rs' where l: "list_queue ops xs = (ys', rs')" by fastforce
  have "list_queue (Deq # ops) (x # xs) = (ys, rs)" using 4(2,4) by simp
  then have yr: "ys = ys'" "rs = Some x # rs'" using l by simp_all
  from 4(1) [OF q1(3) [symmetric] q1(2)] l q1(3) obtain q' where "run_queue ops q1 = Some (q', rs')" "queue_inv q'"
    "queue_list q' = ys'" "resources_left q' = resources_left q1" by auto
  then show ?case using yr q1(1) dequeue_left [OF q1(1)] by simp
qed simp

section \<open>Properties\<close>

text \<open>
  C39. The pointer queue refines a list: any sequence of \<open>enqueue_request\<close> and
  \<open>dequeue_request_locked\<close> on a new queue runs without touching a bad pointer, returns the
  requests in first-in first-out order (NULL on the empty queue), and leaves the free amount
  alone.
\<close>

theorem queue_refines_list:
  "\<exists>q. run_queue ops (make_queue n) = Some (q, snd (list_queue ops [])) \<and> queue_inv q \<and>
     queue_list q = fst (list_queue ops []) \<and> resources_left q = n"
  using run_queue_refines [OF make_queue_inv(1), of ops n] make_queue_inv(2,3) [of n]
  by (cases "list_queue ops []") simp

end
