(* ===== verification/Agent_State.thy ===== *)
theory Agent_State
  imports Read_Instructions Resource_Queue
begin

text \<open>
  The state the handlers of the agent share (\<open>agent/globals.h\<close>, \<open>main.c\<close>) and the
  operating system as they see it.

  \<open>agent\<close> holds the four tables, the three queues and \<open>erlangfd\<close>; then the kernel side:
  the epoll interest list, the open descriptors, \<open>sent\<close>, the log of what was handed to
  \<open>send\<close> on an open descriptor, \<open>connects\<close>, the log of the addresses given to
  \<open>connect\<close>, \<open>bound\<close>, the addresses of the listening sockets, and \<open>timer_specs\<close>, the first expiration and the period of each timer, in
  seconds. \<open>fresh_job\<close> is the next allocation of a
  \<open>local_job_t\<close>. The last three fields are the environment: the outcomes of the coming outbound
  connection attempts (\<open>socket\<close>, \<open>connect\<close>, \<open>epoll_ctl ADD\<close>), the peer address of a descriptor
  (\<open>getpeername\<close>), which every \<open>accept4\<close> and \<open>connect\<close> that uses the descriptor again sets anew, and
  the address a dotted text stands for (\<open>inet_addr\<close>). Log output is left out. The line
  buffers are private to \<open>read_instructions.c\<close> and are kept apart (\<open>Loopfunc\<close>).

  A step that would read through a dangling or NULL pointer is \<open>None\<close> throughout.
\<close>

section \<open>State\<close>

record epoll_reg =
  reg_out :: bool
  reg_et :: bool
  reg_oneshot :: bool
  reg_exclusive :: bool
  reg_armed :: bool

datatype bind_address = INADDR_ANY | INADDR_LOOPBACK

record outbound =
  ob_fd :: fd
  ob_connect_ok :: bool
  ob_epoll_ok :: bool

record agent =
  table_localjobs :: "local_job_t HashTable"
  table_ourjobs :: "fd_job_entry HashTable"
  table_nodejobs :: "received_job HashTable"
  table_nodes :: "received_node HashTable"
  cpu_queue :: request_queue
  mem_queue :: request_queue
  gpu_queue :: request_queue
  erlangfd :: fd
  epoll_set :: "fd \<Rightarrow> epoll_reg option"
  open_fds :: "fd set"
  sent :: "(fd \<times> string) list"
  connects :: "(fd \<times> string \<times> cint) list"
  bound :: "(fd \<times> bind_address \<times> cint) list"
  timer_specs :: "fd \<Rightarrow> (int \<times> int) option"
  fresh_job :: address
  os_outbound :: "outbound list"
  os_peername :: "fd \<Rightarrow> (cint \<times> cint) option"
  os_inet_addr :: "string \<Rightarrow> cint"

definition LOCAL_CPU :: cint where "LOCAL_CPU = 4"
definition LOCAL_MEM :: cint where "LOCAL_MEM = 8192"
definition LOCAL_GPU :: cint where "LOCAL_GPU = 1"

definition main_port :: "string list \<Rightarrow> cint" where
  "main_port argv = (if length argv < 2 then 4200 else atoi (argv ! 1))"

definition main_init ::
  "outbound list \<Rightarrow> (fd \<Rightarrow> (cint \<times> cint) option) \<Rightarrow> (string \<Rightarrow> cint) \<Rightarrow> agent" where
  "main_init outs peers inet =
     \<lparr>table_localjobs = create_table_local_jobs, table_ourjobs = create_table_fd_jobs,
      table_nodejobs = create_table_jobs, table_nodes = create_table_nodes,
      cpu_queue = make_queue LOCAL_CPU, mem_queue = make_queue LOCAL_MEM,
      gpu_queue = make_queue LOCAL_GPU, erlangfd = -1,
      epoll_set = Map.empty, open_fds = {}, sent = [], connects = [], bound = [], timer_specs = Map.empty, fresh_job = 0,
      os_outbound = outs, os_peername = peers, os_inet_addr = inet\<rparr>"

text \<open>A new agent in an environment that offers nothing, for the examples.\<close>

definition new_agent :: agent where
  "new_agent = main_init [] Map.empty (\<lambda>_. 0)"

section \<open>System calls\<close>

definition sys_send :: "agent \<Rightarrow> fd \<Rightarrow> string \<Rightarrow> agent" where
  "sys_send st x msg = (if x \<in> open_fds st then st\<lparr>sent := sent st @ [(x, msg)]\<rparr> else st)"

definition sys_close :: "agent \<Rightarrow> fd \<Rightarrow> agent" where
  "sys_close st x =
     st\<lparr>open_fds := open_fds st - {x}, epoll_set := (epoll_set st)(x := None)\<rparr>"

definition epoll_ctl_del :: "agent \<Rightarrow> fd \<Rightarrow> agent" where
  "epoll_ctl_del st x = st\<lparr>epoll_set := (epoll_set st)(x := None)\<rparr>"

definition epoll_ctl_add :: "agent \<Rightarrow> fd \<Rightarrow> epoll_reg \<Rightarrow> agent" where
  "epoll_ctl_add st x reg = st\<lparr>epoll_set := (epoll_set st)(x \<mapsto> reg)\<rparr>"

text \<open>\<open>EPOLL_CTL_MOD\<close> on a descriptor that is not registered fails with \<open>ENOENT\<close>.\<close>

definition epoll_ctl_mod :: "agent \<Rightarrow> fd \<Rightarrow> epoll_reg \<Rightarrow> agent" where
  "epoll_ctl_mod st x reg = (if epoll_set st x = None then st else epoll_ctl_add st x reg)"

definition getpeername :: "agent \<Rightarrow> fd \<Rightarrow> (cint \<times> cint) option" where
  "getpeername st x = (if x \<in> open_fds st then os_peername st x else None)"

definition reg_in_oneshot :: epoll_reg where
  "reg_in_oneshot = \<lparr>reg_out = False, reg_et = False, reg_oneshot = True, reg_exclusive = False, reg_armed = True\<rparr>"

definition restart_epolloneshot :: "agent \<Rightarrow> fd \<Rightarrow> agent" where
  "restart_epolloneshot st x = epoll_ctl_mod st x reg_in_oneshot"

section \<open>Pointers to local jobs\<close>

definition deref_job :: "agent \<Rightarrow> address \<Rightarrow> local_job_t option" where
  "deref_job st a = find (\<lambda>j. lj_self j = a) (table_data (table_localjobs st))"

definition write_job :: "agent \<Rightarrow> address \<Rightarrow> (local_job_t \<Rightarrow> local_job_t) \<Rightarrow> agent" where
  "write_job st a f =
     st\<lparr>table_localjobs := table_modify (\<lambda>j. if lj_self j = a then f j else j) (table_localjobs st)\<rparr>"

section \<open>Messages to the scheduler\<close>

definition erlang_text :: "string \<Rightarrow> string \<Rightarrow> string" where
  "erlang_text instruction job_id =
     (if instruction = ''granted'' then ''JOB_GRANTED '' @ job_id @ [NEWLINE]
      else if instruction = ''rejected'' then ''JOB_DENIED '' @ job_id @ [NEWLINE]
      else if instruction = ''waiting'' then ''WAITING '' @ job_id @ [NEWLINE]
      else ''JOB_TIMEOUT '' @ job_id @ [NEWLINE])"

definition C_to_erlang :: "agent \<Rightarrow> string \<Rightarrow> string \<Rightarrow> agent" where
  "C_to_erlang st instruction job_id =
     (let msg = erlang_text instruction job_id in
      if BUFFER_LEN \<le> length msg then st else sys_send st (erlangfd st) msg)"

text \<open>The id as the handlers print it into their 16-byte buffer.\<close>

definition id_str :: "cint \<Rightarrow> string" where
  "id_str job_id = snprintf 16 (fmt_d job_id)"

lemma id_str_fits: "id_str i = fmt_d i"
  using fmt_d_length [of i] by (simp add: id_str_def snprintf_fits)

section \<open>Queues by name\<close>

datatype queue_id = CPU_Q | MEM_Q | GPU_Q

text \<open>The three queues can be enumerated, so that a statement about all of them can be evaluated.\<close>

instantiation queue_id :: enum
begin

definition enum_queue_id :: "queue_id list" where
  "enum_queue_id = [CPU_Q, MEM_Q, GPU_Q]"

definition enum_all_queue_id :: "(queue_id \<Rightarrow> bool) \<Rightarrow> bool" where
  "enum_all_queue_id P \<longleftrightarrow> P CPU_Q \<and> P MEM_Q \<and> P GPU_Q"

definition enum_ex_queue_id :: "(queue_id \<Rightarrow> bool) \<Rightarrow> bool" where
  "enum_ex_queue_id P \<longleftrightarrow> P CPU_Q \<or> P MEM_Q \<or> P GPU_Q"

instance
proof
  show all: "(UNIV :: queue_id set) = set enum_class.enum" using queue_id.nchotomy by (auto simp: enum_queue_id_def)
  show "distinct (enum_class.enum :: queue_id list)" by (simp add: enum_queue_id_def)
  show "enum_class.enum_all P = Ball UNIV P" "enum_class.enum_ex P = Bex UNIV P" for P :: "queue_id \<Rightarrow> bool"
    unfolding all by (simp_all add: enum_queue_id_def enum_all_queue_id_def enum_ex_queue_id_def)
qed

end

fun get_queue :: "queue_id \<Rightarrow> agent \<Rightarrow> request_queue" where
  "get_queue CPU_Q st = cpu_queue st"
| "get_queue MEM_Q st = mem_queue st"
| "get_queue GPU_Q st = gpu_queue st"

fun set_queue :: "queue_id \<Rightarrow> request_queue \<Rightarrow> agent \<Rightarrow> agent" where
  "set_queue CPU_Q q st = st\<lparr>cpu_queue := q\<rparr>"
| "set_queue MEM_Q q st = st\<lparr>mem_queue := q\<rparr>"
| "set_queue GPU_Q q st = st\<lparr>gpu_queue := q\<rparr>"

fun queue_type :: "queue_id \<Rightarrow> string" where
  "queue_type CPU_Q = ''cpu''"
| "queue_type MEM_Q = ''mem''"
| "queue_type GPU_Q = ''gpu''"

section \<open>What the system calls leave unchanged\<close>

lemma sys_send_frame [simp]:
  "table_localjobs (sys_send st x m) = table_localjobs st"
  "table_ourjobs (sys_send st x m) = table_ourjobs st"
  "table_nodejobs (sys_send st x m) = table_nodejobs st"
  "table_nodes (sys_send st x m) = table_nodes st"
  "cpu_queue (sys_send st x m) = cpu_queue st"
  "mem_queue (sys_send st x m) = mem_queue st"
  "gpu_queue (sys_send st x m) = gpu_queue st"
  "erlangfd (sys_send st x m) = erlangfd st"
  "fresh_job (sys_send st x m) = fresh_job st"
  "os_outbound (sys_send st x m) = os_outbound st"
  "os_peername (sys_send st x m) = os_peername st"
  "os_inet_addr (sys_send st x m) = os_inet_addr st"
  "open_fds (sys_send st x m) = open_fds st"
  "epoll_set (sys_send st x m) = epoll_set st"
  "get_queue r (sys_send st x m) = get_queue r st"
  by (cases r; simp add: sys_send_def)+

lemma sys_close_frame [simp]:
  "table_localjobs (sys_close st x) = table_localjobs st"
  "table_ourjobs (sys_close st x) = table_ourjobs st"
  "table_nodejobs (sys_close st x) = table_nodejobs st"
  "table_nodes (sys_close st x) = table_nodes st"
  "cpu_queue (sys_close st x) = cpu_queue st"
  "mem_queue (sys_close st x) = mem_queue st"
  "gpu_queue (sys_close st x) = gpu_queue st"
  "erlangfd (sys_close st x) = erlangfd st"
  "fresh_job (sys_close st x) = fresh_job st"
  "os_outbound (sys_close st x) = os_outbound st"
  "os_peername (sys_close st x) = os_peername st"
  "os_inet_addr (sys_close st x) = os_inet_addr st"
  "sent (sys_close st x) = sent st"
  "get_queue r (sys_close st x) = get_queue r st"
  by (cases r; simp add: sys_close_def)+

lemma epoll_ctl_del_frame [simp]:
  "table_localjobs (epoll_ctl_del st x) = table_localjobs st"
  "table_ourjobs (epoll_ctl_del st x) = table_ourjobs st"
  "table_nodejobs (epoll_ctl_del st x) = table_nodejobs st"
  "table_nodes (epoll_ctl_del st x) = table_nodes st"
  "cpu_queue (epoll_ctl_del st x) = cpu_queue st"
  "mem_queue (epoll_ctl_del st x) = mem_queue st"
  "gpu_queue (epoll_ctl_del st x) = gpu_queue st"
  "erlangfd (epoll_ctl_del st x) = erlangfd st"
  "fresh_job (epoll_ctl_del st x) = fresh_job st"
  "os_outbound (epoll_ctl_del st x) = os_outbound st"
  "os_peername (epoll_ctl_del st x) = os_peername st"
  "os_inet_addr (epoll_ctl_del st x) = os_inet_addr st"
  "open_fds (epoll_ctl_del st x) = open_fds st"
  "sent (epoll_ctl_del st x) = sent st"
  "get_queue r (epoll_ctl_del st x) = get_queue r st"
  by (cases r; simp add: epoll_ctl_del_def)+

lemma epoll_ctl_add_frame [simp]:
  "table_localjobs (epoll_ctl_add st x reg) = table_localjobs st"
  "table_ourjobs (epoll_ctl_add st x reg) = table_ourjobs st"
  "table_nodejobs (epoll_ctl_add st x reg) = table_nodejobs st"
  "table_nodes (epoll_ctl_add st x reg) = table_nodes st"
  "cpu_queue (epoll_ctl_add st x reg) = cpu_queue st"
  "mem_queue (epoll_ctl_add st x reg) = mem_queue st"
  "gpu_queue (epoll_ctl_add st x reg) = gpu_queue st"
  "erlangfd (epoll_ctl_add st x reg) = erlangfd st"
  "fresh_job (epoll_ctl_add st x reg) = fresh_job st"
  "os_outbound (epoll_ctl_add st x reg) = os_outbound st"
  "os_peername (epoll_ctl_add st x reg) = os_peername st"
  "os_inet_addr (epoll_ctl_add st x reg) = os_inet_addr st"
  "open_fds (epoll_ctl_add st x reg) = open_fds st"
  "sent (epoll_ctl_add st x reg) = sent st"
  "get_queue r (epoll_ctl_add st x reg) = get_queue r st"
  by (cases r; simp add: epoll_ctl_add_def)+

lemma epoll_ctl_mod_frame [simp]:
  "table_localjobs (epoll_ctl_mod st x reg) = table_localjobs st"
  "table_ourjobs (epoll_ctl_mod st x reg) = table_ourjobs st"
  "table_nodejobs (epoll_ctl_mod st x reg) = table_nodejobs st"
  "table_nodes (epoll_ctl_mod st x reg) = table_nodes st"
  "cpu_queue (epoll_ctl_mod st x reg) = cpu_queue st"
  "mem_queue (epoll_ctl_mod st x reg) = mem_queue st"
  "gpu_queue (epoll_ctl_mod st x reg) = gpu_queue st"
  "erlangfd (epoll_ctl_mod st x reg) = erlangfd st"
  "fresh_job (epoll_ctl_mod st x reg) = fresh_job st"
  "os_outbound (epoll_ctl_mod st x reg) = os_outbound st"
  "os_peername (epoll_ctl_mod st x reg) = os_peername st"
  "os_inet_addr (epoll_ctl_mod st x reg) = os_inet_addr st"
  "open_fds (epoll_ctl_mod st x reg) = open_fds st"
  "sent (epoll_ctl_mod st x reg) = sent st"
  "get_queue r (epoll_ctl_mod st x reg) = get_queue r st"
  by (cases r; simp add: epoll_ctl_mod_def)+

lemma restart_epolloneshot_frame [simp]:
  "table_localjobs (restart_epolloneshot st x) = table_localjobs st"
  "table_ourjobs (restart_epolloneshot st x) = table_ourjobs st"
  "table_nodejobs (restart_epolloneshot st x) = table_nodejobs st"
  "table_nodes (restart_epolloneshot st x) = table_nodes st"
  "cpu_queue (restart_epolloneshot st x) = cpu_queue st"
  "mem_queue (restart_epolloneshot st x) = mem_queue st"
  "gpu_queue (restart_epolloneshot st x) = gpu_queue st"
  "erlangfd (restart_epolloneshot st x) = erlangfd st"
  "fresh_job (restart_epolloneshot st x) = fresh_job st"
  "os_outbound (restart_epolloneshot st x) = os_outbound st"
  "os_peername (restart_epolloneshot st x) = os_peername st"
  "os_inet_addr (restart_epolloneshot st x) = os_inet_addr st"
  "open_fds (restart_epolloneshot st x) = open_fds st"
  "sent (restart_epolloneshot st x) = sent st"
  "get_queue r (restart_epolloneshot st x) = get_queue r st"
  by (cases r; simp add: restart_epolloneshot_def)+

lemma C_to_erlang_frame [simp]:
  "table_localjobs (C_to_erlang st i s) = table_localjobs st"
  "table_ourjobs (C_to_erlang st i s) = table_ourjobs st"
  "table_nodejobs (C_to_erlang st i s) = table_nodejobs st"
  "table_nodes (C_to_erlang st i s) = table_nodes st"
  "cpu_queue (C_to_erlang st i s) = cpu_queue st"
  "mem_queue (C_to_erlang st i s) = mem_queue st"
  "gpu_queue (C_to_erlang st i s) = gpu_queue st"
  "erlangfd (C_to_erlang st i s) = erlangfd st"
  "fresh_job (C_to_erlang st i s) = fresh_job st"
  "os_outbound (C_to_erlang st i s) = os_outbound st"
  "os_peername (C_to_erlang st i s) = os_peername st"
  "os_inet_addr (C_to_erlang st i s) = os_inet_addr st"
  "open_fds (C_to_erlang st i s) = open_fds st"
  "epoll_set (C_to_erlang st i s) = epoll_set st"
  "get_queue r (C_to_erlang st i s) = get_queue r st"
  by (cases r; simp add: C_to_erlang_def Let_def)+

lemma write_job_frame [simp]:
  "table_ourjobs (write_job st a f) = table_ourjobs st"
  "table_nodejobs (write_job st a f) = table_nodejobs st"
  "table_nodes (write_job st a f) = table_nodes st"
  "cpu_queue (write_job st a f) = cpu_queue st"
  "mem_queue (write_job st a f) = mem_queue st"
  "gpu_queue (write_job st a f) = gpu_queue st"
  "erlangfd (write_job st a f) = erlangfd st"
  "fresh_job (write_job st a f) = fresh_job st"
  "os_outbound (write_job st a f) = os_outbound st"
  "os_peername (write_job st a f) = os_peername st"
  "os_inet_addr (write_job st a f) = os_inet_addr st"
  "open_fds (write_job st a f) = open_fds st"
  "epoll_set (write_job st a f) = epoll_set st"
  "sent (write_job st a f) = sent st"
  "get_queue r (write_job st a f) = get_queue r st"
  by (cases r; simp add: write_job_def)+

end
