(* ===== verification/Utils.thy ===== *)
theory Utils
  imports Agent_State
begin

text \<open>
  \<open>agent/utils.c\<close>: the server side of a reservation (queueing a \<open>RESERVE\<close>, granting
  from the pool, reclaiming on \<open>RELEASE\<close> or disconnect) and the client side's release.

  The two loops of \<open>drain_queue\<close> are \<open>drain_loop\<close>, the section under the queue's
  mutex, and \<open>grant_ready\<close>, the section after it. \<open>drain_loop\<close> follows the queue's
  pointers and has the value \<open>None\<close> if it reads through a bad pointer or does not end.
\<close>

section \<open>Client side: release\<close>

definition release_text :: "cint \<Rightarrow> pending_resource_t \<Rightarrow> string" where
  "release_text job_id g =
     snprintf 128 (''RELEASE '' @ fmt_d job_id @ '' '' @ pr_type g @ '' '' @ fmt_d (pr_amount g) @ [NEWLINE])"

fun release_loop :: "cint \<Rightarrow> pending_resource_t list \<Rightarrow> agent \<Rightarrow> agent \<times> pending_resource_t list" where
  "release_loop job_id [] st = (st, [])"
| "release_loop job_id (g # gs) st =
     (if 0 \<le>s pr_provider_fd g then
        (let st1 = sys_send st (pr_provider_fd g) (release_text job_id g);
             st2 = sys_close (epoll_ctl_del st1 (pr_provider_fd g)) (pr_provider_fd g);
             (st3, gs') = release_loop job_id gs st2
         in (st3, g\<lparr>pr_provider_fd := -1\<rparr> # gs'))
      else (let (st3, gs') = release_loop job_id gs st in (st3, g # gs')))"

definition release_resources :: "agent \<Rightarrow> address \<Rightarrow> agent option" where
  "release_resources st a =
     (case deref_job st a of
        None \<Rightarrow> None
      | Some job \<Rightarrow>
          (let (st', gs) = release_loop (lj_job_id job) (lj_granted_reqs job) st in
           Some (write_job st' a (\<lambda>j. j\<lparr>lj_granted_reqs := gs\<rparr>))))"

section \<open>Server side: grant\<close>

definition record_granted :: "agent \<Rightarrow> cint \<Rightarrow> fd \<Rightarrow> string \<Rightarrow> cint \<Rightarrow> agent" where
  "record_granted st job_id origin_socket type amount =
     (let (ip, port) = (case getpeername st origin_socket of Some a \<Rightarrow> a | None \<Rightarrow> (0, 0));
          key = received_job_key job_id ip port;
          rj = (case tablahash_find (table_nodejobs st) key of Some existing \<Rightarrow> existing | None \<Rightarrow> key);
          rj1 = rj\<lparr>original_socket := origin_socket\<rparr>;
          rj2 = (if type = ''cpu'' then rj1\<lparr>cpu_granted := cpu_granted rj1 + amount\<rparr>
                 else if type = ''mem'' then rj1\<lparr>mem_granted := mem_granted rj1 + amount\<rparr>
                 else rj1\<lparr>gpu_granted := gpu_granted rj1 + amount\<rparr>)
      in st\<lparr>table_nodejobs := tablahash_insert (table_nodejobs st) rj2\<rparr>)"

partial_function (option) drain_loop ::
  "request_queue \<Rightarrow> request list \<Rightarrow> (request_queue \<times> request list) option" where
  "drain_loop q ready =
     (case q_first q of
        None \<Rightarrow> Some (q, ready)
      | Some a \<Rightarrow>
          (case q_cells q a of
             None \<Rightarrow> None
           | Some head \<Rightarrow>
               if rq_amount_requested head \<le>s resources_left q then
                 (case dequeue_request_locked q of
                    None \<Rightarrow> None
                  | Some (q', r) \<Rightarrow>
                      (case r of
                         None \<Rightarrow> None
                       | Some req \<Rightarrow>
                           drain_loop (q'\<lparr>resources_left := resources_left q' - rq_amount_requested req\<rparr>)
                             (req # ready)))
               else Some (q, ready)))"

declare drain_loop.simps [code]

definition granted_text :: "request \<Rightarrow> string" where
  "granted_text req = snprintf 64 (''GRANTED '' @ fmt_d (rq_job_id req) @ [NEWLINE])"

definition grant_one :: "string \<Rightarrow> request \<Rightarrow> agent \<Rightarrow> agent" where
  "grant_one type req st =
     sys_send (record_granted st (rq_job_id req) (rq_origin_socket req) type (rq_amount_requested req))
       (rq_origin_socket req) (granted_text req)"

fun grant_ready :: "string \<Rightarrow> request list \<Rightarrow> agent \<Rightarrow> agent" where
  "grant_ready type [] st = st"
| "grant_ready type (req # ready) st = grant_ready type ready (grant_one type req st)"

definition drain_queue :: "agent \<Rightarrow> queue_id \<Rightarrow> string \<Rightarrow> agent option" where
  "drain_queue st q type =
     (case drain_loop (get_queue q st) [] of
        None \<Rightarrow> None
      | Some (q', ready) \<Rightarrow> Some (grant_ready type ready (set_queue q q' st)))"

definition reserve_elements :: "agent \<Rightarrow> agent option" where
  "reserve_elements st =
     Option.bind (drain_queue st CPU_Q ''cpu'')
       (\<lambda>st1. Option.bind (drain_queue st1 MEM_Q ''mem'')
         (\<lambda>st2. drain_queue st2 GPU_Q ''gpu''))"

definition resource_queue_of :: "string \<Rightarrow> queue_id" where
  "resource_queue_of resource =
     (if resource = ''cpu'' then CPU_Q else if resource = ''mem'' then MEM_Q else GPU_Q)"

definition enqueue_jobs :: "agent \<Rightarrow> string \<Rightarrow> cint \<Rightarrow> cint \<Rightarrow> fd \<Rightarrow> agent option" where
  "enqueue_jobs st resource job_id amount current_fd =
     (let rq = make_request job_id current_fd amount; q = resource_queue_of resource in
      case enqueue_request (get_queue q st) rq of
        None \<Rightarrow> None
      | Some q' \<Rightarrow> reserve_elements (set_queue q q' st))"

section \<open>Server side: reclaim\<close>

record sweep =
  add_cpu :: cint
  add_mem :: cint
  add_gpu :: cint
  found_any :: bool
  swept :: "received_job list"

fun sweep_chain :: "fd \<Rightarrow> received_job list \<Rightarrow> sweep \<Rightarrow> received_job list \<times> sweep" where
  "sweep_chain x [] acc = ([], acc)"
| "sweep_chain x (job # jobs) acc =
     (if original_socket job = x then
        sweep_chain x jobs
          (acc\<lparr>found_any := True, add_cpu := add_cpu acc + cpu_granted job,
               add_mem := add_mem acc + mem_granted job, add_gpu := add_gpu acc + gpu_granted job,
               swept := swept acc @ [job]\<rparr>)
      else (let (kept, acc') = sweep_chain x jobs acc in (job # kept, acc')))"

fun sweep_buckets :: "fd \<Rightarrow> received_job list list \<Rightarrow> sweep \<Rightarrow> received_job list list \<times> sweep" where
  "sweep_buckets x [] acc = ([], acc)"
| "sweep_buckets x (b # bs) acc =
     (let (b', acc1) = sweep_chain x b acc; (bs', acc2) = sweep_buckets x bs acc1 in (b' # bs', acc2))"

definition sweep_start :: sweep where
  "sweep_start = \<lparr>add_cpu = 0, add_mem = 0, add_gpu = 0, found_any = False, swept = []\<rparr>"

definition give_back :: "cint \<Rightarrow> request_queue \<Rightarrow> request_queue" where
  "give_back n q = q\<lparr>resources_left := resources_left q + n\<rparr>"

definition release_client_by_fd :: "agent \<Rightarrow> fd \<Rightarrow> agent option" where
  "release_client_by_fd st x =
     (let t = table_nodejobs st;
          (buckets, acc) = sweep_buckets x (elems t) sweep_start;
          st1 = st\<lparr>table_nodejobs := t\<lparr>elems := buckets,
                     numElems := numElems t - of_nat (length (swept acc)),
                     destroyed := destroyed t @ swept acc\<rparr>\<rparr>
      in if \<not> found_any acc then Some st1
         else reserve_elements
                (st1\<lparr>cpu_queue := give_back (add_cpu acc) (cpu_queue st1),
                     mem_queue := give_back (add_mem acc) (mem_queue st1),
                     gpu_queue := give_back (add_gpu acc) (gpu_queue st1)\<rparr>))"

section \<open>Client side: the provider went away\<close>

definition handle_outbound_disconnect :: "agent \<Rightarrow> fd \<Rightarrow> agent option" where
  "handle_outbound_disconnect st x =
     (case tablahash_find (table_ourjobs st) (fd_key x) of
        None \<Rightarrow> Some st
      | Some entry \<Rightarrow>
          (case deref_job st (entry_job entry) of
             None \<Rightarrow> None
           | Some job \<Rightarrow>
               (let st1 = st\<lparr>table_ourjobs := tablahash_remove_lock (table_ourjobs st) (fd_key x)\<rparr> in
                Option.bind (release_resources st1 (entry_job entry))
                  (\<lambda>st2. let st3 = C_to_erlang st2 ''rejected'' (id_str (lj_job_id job)) in
                     Some (st3\<lparr>table_localjobs := tablahash_remove_lock (table_localjobs st3) job\<rparr>)))))"

end
