(* ===== verification/Communications.thy ===== *)
theory Communications
  imports Utils
begin

text \<open>
  \<open>agent/communications.c\<close>: the client-side state machine of a local job
  (\<open>ask_for_next_resource\<close>), the dispatch of a line from a remote node
  (\<open>client_to_myserver\<close>) and of a command of the Erlang scheduler (\<open>erlang_to_C\<close>).
  \<open>C_to_erlang\<close> is in \<open>Agent_State\<close>, since \<open>utils.c\<close> calls it too. The value of the
  monotonic clock is the argument \<open>now\<close>. A C string argument is the text before its NUL.
\<close>

section \<open>Asking for the next resource\<close>

definition reg_out_oneshot :: epoll_reg where
  "reg_out_oneshot = \<lparr>reg_out = True, reg_et = True, reg_oneshot = True, reg_exclusive = False, reg_armed = True\<rparr>"

text \<open>The address given to \<open>connect\<close>, which \<open>getpeername\<close> then reports; \<open>htons\<close> keeps 16 bits of the port.\<close>

definition dest_addr :: "agent \<Rightarrow> pending_resource_t \<Rightarrow> cint \<times> cint" where
  "dest_addr st req = (os_inet_addr st (pr_dest_ip req), take_bit 16 (pr_dest_port req))"

definition ask_for_next_resource :: "agent \<Rightarrow> address \<Rightarrow> agent option" where
  "ask_for_next_resource st a =
     (case deref_job st a of
        None \<Rightarrow> None
      | Some job \<Rightarrow>
          (case lj_next_req job of
             [] \<Rightarrow> Some (C_to_erlang st ''granted'' (id_str (lj_job_id job)))
           | req # _ \<Rightarrow>
               (case os_outbound st of
                  [] \<Rightarrow> Some st
                | ob # obs \<Rightarrow>
                    (let remote_fd = ob_fd ob; st0 = st\<lparr>os_outbound := obs\<rparr> in
                     if remote_fd <s 0 then Some st0
                     else
                       (let st1 = st0\<lparr>open_fds := insert remote_fd (open_fds st0),
                                    os_peername := (os_peername st0)(remote_fd \<mapsto> dest_addr st0 req),
                                    connects := connects st0 @ [(remote_fd, pr_dest_ip req, pr_dest_port req)]\<rparr> in
                        if \<not> ob_connect_ok ob then Some (sys_close st1 remote_fd)
                        else
                          (let st2 = write_job st1 a (\<lambda>j. j\<lparr>lj_origin_socket := remote_fd\<rparr>);
                               entry = \<lparr>entry_fd = remote_fd, entry_job = a\<rparr>;
                               st3 = st2\<lparr>table_ourjobs := tablahash_insert (table_ourjobs st2) entry\<rparr>
                           in if ob_epoll_ok ob then Some (epoll_ctl_add st3 remote_fd reg_out_oneshot)
                              else Some (sys_close
                                (st3\<lparr>table_ourjobs := tablahash_remove_lock (table_ourjobs st3) entry\<rparr>)
                                remote_fd)))))))"

section \<open>A line from a remote node\<close>

definition handle_granted :: "agent \<Rightarrow> fd \<Rightarrow> cint \<Rightarrow> time_t \<Rightarrow> agent option" where
  "handle_granted st current_fd received_job_id now =
     (case tablahash_find (table_ourjobs st) (fd_key current_fd) of
        None \<Rightarrow> Some st
      | Some found \<Rightarrow>
          (case deref_job st (entry_job found) of
             None \<Rightarrow> None
           | Some job \<Rightarrow>
               if lj_job_id job \<noteq> received_job_id then Some st
               else
                 (let st1 = write_job st (entry_job found)
                        (\<lambda>j. (case lj_next_req j of
                                [] \<Rightarrow> j
                              | req # rest \<Rightarrow>
                                  j\<lparr>lj_next_req := rest,
                                    lj_granted_reqs := req\<lparr>pr_provider_fd := current_fd\<rparr> # lj_granted_reqs j\<rparr>)
                             \<lparr>lj_timer := now\<rparr>);
                      st2 = st1\<lparr>table_ourjobs := tablahash_remove_lock (table_ourjobs st1) (fd_key current_fd)\<rparr>
                  in ask_for_next_resource (epoll_ctl_del st2 current_fd) (entry_job found))))"

definition handle_denied :: "agent \<Rightarrow> fd \<Rightarrow> agent option" where
  "handle_denied st current_fd =
     (case tablahash_find (table_ourjobs st) (fd_key current_fd) of
        None \<Rightarrow> Some st
      | Some found \<Rightarrow>
          (case deref_job st (entry_job found) of
             None \<Rightarrow> None
           | Some job \<Rightarrow>
               (let st1 = st\<lparr>table_ourjobs := tablahash_remove_lock (table_ourjobs st) (fd_key current_fd)\<rparr> in
                Option.bind (release_resources st1 (entry_job found))
                  (\<lambda>st2. let st3 = C_to_erlang st2 ''rejected'' (id_str (lj_job_id job)) in
                     Some (st3\<lparr>table_localjobs := tablahash_remove_lock (table_localjobs st3) job\<rparr>)))))"

definition client_to_myserver :: "agent \<Rightarrow> fd \<Rightarrow> string \<Rightarrow> time_t \<Rightarrow> agent option" where
  "client_to_myserver st current_fd instruction now =
     (let tokens = get_token (strncpy_z BUFFER_LEN instruction) 10; num = length tokens in
      if num < 1 then Some st
      else if tokens ! 0 = ''RESERVE'' then
        (if num < 4 then Some st
         else enqueue_jobs st (tokens ! 2) (atoi (tokens ! 1)) (atoi (tokens ! 3)) current_fd)
      else if tokens ! 0 = ''RELEASE'' then release_client_by_fd st current_fd
      else if tokens ! 0 = ''GRANTED'' then
        (if num < 2 then Some st else handle_granted st current_fd (atoi (tokens ! 1)) now)
      else (if num < 2 then Some st else handle_denied st current_fd))"

section \<open>A command of the scheduler\<close>

definition resolve_port :: "agent \<Rightarrow> string \<Rightarrow> cint" where
  "resolve_port st dest_ip =
     (case tablahash_find (table_nodes st) (node_key (os_inet_addr st dest_ip)) of
        Some remote_node \<Rightarrow> node_port remote_node
      | None \<Rightarrow> 4200)"

definition parse_dest :: "agent \<Rightarrow> string \<Rightarrow> pending_resource_t option" where
  "parse_dest st token =
     (let dest_copy = strncpy_z 256 token;
          p = (case dest_copy of c # cs \<Rightarrow> if c = CHR ''@'' then cs else dest_copy | [] \<Rightarrow> []);
          (dest_ip, r1) = strtok_r '':'' p;
          (dest_res, r2) = strtok_r '':'' r1;
          (dest_amt, _) = strtok_r '' '' r2
      in case (dest_ip, dest_res, dest_amt) of
           (Some ip, Some res, Some amt) \<Rightarrow>
             Some \<lparr>pr_type = strncpy_z 8 res, pr_amount = atoi amt, pr_dest_ip = strncpy_z 16 ip,
                   pr_dest_port = resolve_port st ip, pr_provider_fd = -1\<rparr>
         | _ \<Rightarrow> None)"

fun parse_dests :: "agent \<Rightarrow> string list \<Rightarrow> pending_resource_t list" where
  "parse_dests st [] = []"
| "parse_dests st (tok # toks) =
     (case parse_dest st tok of
        None \<Rightarrow> parse_dests st toks
      | Some req \<Rightarrow> req # parse_dests st toks)"

definition job_request :: "agent \<Rightarrow> string list \<Rightarrow> time_t \<Rightarrow> agent option" where
  "job_request st tokens now =
     (if length tokens < 2 then Some st
      else if length tokens < 3 then Some (C_to_erlang st ''rejected'' (tokens ! 1))
      else
        (let a = fresh_job st;
             newjob = \<lparr>lj_self = a, lj_job_id = atoi (tokens ! 1), lj_erlang_socket = erlangfd st,
                       lj_origin_socket = -1, lj_next_req = parse_dests st (drop 2 tokens),
                       lj_granted_reqs = [], lj_timer = now\<rparr>;
             st1 = st\<lparr>table_localjobs := tablahash_insert (table_localjobs st) newjob, fresh_job := Suc a\<rparr>
         in ask_for_next_resource st1 a))"

text \<open>
  Tearing down the socket of a request in flight, as \<open>JOB_RELEASE\<close> and the timeout sweep do.
\<close>

definition teardown_outbound :: "agent \<Rightarrow> local_job_t \<Rightarrow> agent" where
  "teardown_outbound st job =
     (if 0 \<le>s lj_origin_socket job \<and> tablahash_find (table_ourjobs st) (fd_key (lj_origin_socket job)) \<noteq> None
      then sys_close (epoll_ctl_del
             (st\<lparr>table_ourjobs := tablahash_remove_lock (table_ourjobs st) (fd_key (lj_origin_socket job))\<rparr>)
             (lj_origin_socket job)) (lj_origin_socket job)
      else st)"

definition job_release :: "agent \<Rightarrow> string list \<Rightarrow> agent option" where
  "job_release st tokens =
     (if length tokens < 2 then Some st
      else
        (case tablahash_find (table_localjobs st) (localjob_key (atoi (tokens ! 1))) of
           None \<Rightarrow> Some st
         | Some job \<Rightarrow>
             Option.bind (release_resources (teardown_outbound st job) (lj_self job))
               (\<lambda>st2. Some (st2\<lparr>table_localjobs := tablahash_remove_lock (table_localjobs st2) job\<rparr>))))"

definition job_status :: "agent \<Rightarrow> string list \<Rightarrow> agent" where
  "job_status st tokens =
     (if length tokens < 2 then st
      else
        (case tablahash_find (table_localjobs st) (localjob_key (atoi (tokens ! 1))) of
           None \<Rightarrow> C_to_erlang st ''timeout'' (tokens ! 1)
         | Some job \<Rightarrow>
             if lj_next_req job = [] then C_to_erlang st ''granted'' (tokens ! 1)
             else C_to_erlang st ''waiting'' (tokens ! 1)))"

definition get_nodes :: "agent \<Rightarrow> agent" where
  "get_nodes st = sys_send st (erlangfd st) (get_nodes_instance (table_nodes st))"

definition erlang_to_C :: "agent \<Rightarrow> string \<Rightarrow> time_t \<Rightarrow> agent option" where
  "erlang_to_C st instruction now =
     (let tokens = get_token (strncpy_z BUFFER_LEN instruction) 32 in
      if length tokens < 1 then Some st
      else if tokens ! 0 = ''JOB_REQUEST'' then job_request st tokens now
      else if tokens ! 0 = ''JOB_RELEASE'' then job_release st tokens
      else if tokens ! 0 = ''JOB_STATUS'' then Some (job_status st tokens)
      else if tokens ! 0 = ''GET_NODES'' then Some (get_nodes st)
      else Some st)"

end
