(* ===== verification/Timer.thy ===== *)
theory Timer
  imports Communications
begin

text \<open>
  \<open>agent/timer.c\<close>: the periodic sweeps. \<open>check_nodes_timeouts\<close> evicts peers that have
  not announced themselves; \<open>check_ourjob_timeouts\<close> breaks a presumed deadlock by
  releasing what a stuck local job holds. The clock is the argument \<open>now\<close>.
\<close>

definition JOB_TIMEOUT_SEC :: int where "JOB_TIMEOUT_SEC = 30"
definition NODE_TIMEOUT_SEC :: int where "NODE_TIMEOUT_SEC = 15"
definition MAX_TIMEOUTS_PER_TICK :: nat where "MAX_TIMEOUTS_PER_TICK = 256"

section \<open>Peers\<close>

fun evict_chain :: "time_t \<Rightarrow> received_node list \<Rightarrow> received_node list \<Rightarrow> received_node list \<times> received_node list" where
  "evict_chain now [] gone = ([], gone)"
| "evict_chain now (node # nodes) gone =
     (if NODE_TIMEOUT_SEC \<le> now - node_time node then evict_chain now nodes (gone @ [node])
      else (let (kept, gone') = evict_chain now nodes gone in (node # kept, gone')))"

fun evict_buckets ::
  "time_t \<Rightarrow> received_node list list \<Rightarrow> received_node list \<Rightarrow> received_node list list \<times> received_node list" where
  "evict_buckets now [] gone = ([], gone)"
| "evict_buckets now (b # bs) gone =
     (let (b', gone1) = evict_chain now b gone; (bs', gone2) = evict_buckets now bs gone1 in (b' # bs', gone2))"

definition check_nodes_timeouts :: "agent \<Rightarrow> time_t \<Rightarrow> agent" where
  "check_nodes_timeouts st now =
     (let t = table_nodes st; (buckets, gone) = evict_buckets now (elems t) [] in
      st\<lparr>table_nodes := t\<lparr>elems := buckets, numElems := numElems t - of_nat (length gone),
                          destroyed := destroyed t @ gone\<rparr>\<rparr>)"

section \<open>Local jobs\<close>

definition job_expired :: "time_t \<Rightarrow> local_job_t \<Rightarrow> bool" where
  "job_expired now job \<longleftrightarrow> lj_next_req job \<noteq> [] \<and> JOB_TIMEOUT_SEC \<le> now - lj_timer job"

text \<open>The collecting loops: they stop when \<open>MAX_TIMEOUTS_PER_TICK\<close> ids are stored.\<close>

fun expired_chain :: "time_t \<Rightarrow> local_job_t list \<Rightarrow> cint list \<Rightarrow> cint list" where
  "expired_chain now [] expired = expired"
| "expired_chain now (job # jobs) expired =
     (if length expired < MAX_TIMEOUTS_PER_TICK
      then expired_chain now jobs (if job_expired now job then expired @ [lj_job_id job] else expired)
      else expired)"

fun expired_buckets :: "time_t \<Rightarrow> local_job_t list list \<Rightarrow> cint list \<Rightarrow> cint list" where
  "expired_buckets now [] expired = expired"
| "expired_buckets now (b # bs) expired =
     (if length expired < MAX_TIMEOUTS_PER_TICK
      then expired_buckets now bs (expired_chain now b expired) else expired)"

definition timeout_job :: "agent \<Rightarrow> cint \<Rightarrow> agent option" where
  "timeout_job st job_id =
     (case tablahash_find (table_localjobs st) (localjob_key job_id) of
        None \<Rightarrow> Some st
      | Some job \<Rightarrow>
          Option.bind (release_resources (teardown_outbound st job) (lj_self job))
            (\<lambda>st2. let st3 = C_to_erlang st2 ''timeout'' (id_str (lj_job_id job)) in
               Some (st3\<lparr>table_localjobs := tablahash_remove_lock (table_localjobs st3) job\<rparr>)))"

fun timeout_jobs :: "agent \<Rightarrow> cint list \<Rightarrow> agent option" where
  "timeout_jobs st [] = Some st"
| "timeout_jobs st (k # ks) = Option.bind (timeout_job st k) (\<lambda>st'. timeout_jobs st' ks)"

definition check_ourjob_timeouts :: "agent \<Rightarrow> time_t \<Rightarrow> agent option" where
  "check_ourjob_timeouts st now =
     timeout_jobs st (expired_buckets now (elems (table_localjobs st)) [])"

section \<open>What the sweeps compute\<close>

definition node_fresh :: "time_t \<Rightarrow> received_node \<Rightarrow> bool" where
  "node_fresh now node \<longleftrightarrow> now - node_time node < NODE_TIMEOUT_SEC"

lemma evict_chain_spec:
  "evict_chain now nodes gone = (filter (node_fresh now) nodes, gone @ filter (Not \<circ> node_fresh now) nodes)"
  by (induction nodes arbitrary: gone) (auto simp: node_fresh_def)

lemma evict_buckets_spec:
  "evict_buckets now bs gone =
     (map (filter (node_fresh now)) bs, gone @ filter (Not \<circ> node_fresh now) (concat bs))"
  by (induction bs arbitrary: gone) (auto simp: evict_chain_spec)

lemma check_nodes_timeouts_filter:
  "check_nodes_timeouts st now = st\<lparr>table_nodes := table_filter (node_fresh now) (table_nodes st)\<rparr>"
  by (simp add: check_nodes_timeouts_def evict_buckets_spec table_filter_def table_data_def Let_def)

lemma expired_chain_spec:
  "length acc \<le> MAX_TIMEOUTS_PER_TICK \<Longrightarrow>
   expired_chain now jobs acc =
     take MAX_TIMEOUTS_PER_TICK (acc @ map lj_job_id (filter (job_expired now) jobs))"
  by (induction jobs arbitrary: acc) (auto simp: take_Cons')

lemma take_take_append: "take n (take n xs @ ys) = take n (xs @ ys)"
  by (cases "n \<le> length xs") simp_all

lemma expired_buckets_spec:
  "length acc \<le> MAX_TIMEOUTS_PER_TICK \<Longrightarrow>
   expired_buckets now bs acc =
     take MAX_TIMEOUTS_PER_TICK (acc @ map lj_job_id (filter (job_expired now) (concat bs)))"
proof (induction bs arbitrary: acc)
  case (Cons b bs)
  let ?ids = "\<lambda>js. map lj_job_id (filter (job_expired now) js)"
  have "expired_buckets now bs (take MAX_TIMEOUTS_PER_TICK (acc @ ?ids b)) =
      take MAX_TIMEOUTS_PER_TICK (take MAX_TIMEOUTS_PER_TICK (acc @ ?ids b) @ ?ids (concat bs))"
    by (rule Cons.IH) simp
  then show ?case using Cons.prems by (simp only: take_take_append) (simp add: expired_chain_spec)
qed simp

lemma check_ourjob_timeouts_expired:
  "check_ourjob_timeouts st now = timeout_jobs st
     (take MAX_TIMEOUTS_PER_TICK (map lj_job_id (filter (job_expired now) (table_data (table_localjobs st)))))"
  by (simp add: check_ourjob_timeouts_def expired_buckets_spec table_data_def)

section \<open>Properties\<close>

text \<open>
  C9. The peer sweep keeps exactly the peers heard of in the last 15 seconds, frees the others
  once each, and changes nothing else; the table stays well formed.
\<close>

theorem silent_peers_are_evicted:
  assumes "nodes_ok (table_nodes st)"
  shows "nodes_ok (table_nodes (check_nodes_timeouts st now)) \<and>
    table_data (table_nodes (check_nodes_timeouts st now)) =
      filter (\<lambda>node. now - node_time node < 15) (table_data (table_nodes st)) \<and>
    destroyed (table_nodes (check_nodes_timeouts st now)) =
      destroyed (table_nodes st) @ filter (\<lambda>node. 15 \<le> now - node_time node) (table_data (table_nodes st)) \<and>
    check_nodes_timeouts st now = st\<lparr>table_nodes := table_nodes (check_nodes_timeouts st now)\<rparr>"
  unfolding check_nodes_timeouts_filter
  using table_filter_ok [OF assms, of "node_fresh now"]
  by (simp add: table_filter_def node_fresh_def [abs_def] NODE_TIMEOUT_SEC_def o_def not_less)
    (simp add: table_data_def filter_concat)

theorem silent_peers_are_evicted_witness:
  "table_data (table_nodes (check_nodes_timeouts
     (new_agent\<lparr>table_nodes := tablahash_insert create_table_nodes
        \<lparr>node_ip = 5, node_port = 4200, node_gpu = 1, node_mem = 8192, node_cpu = 4, node_time = 77\<rparr>\<rparr>) 92)) = []"
proof -
  let ?n = "\<lparr>node_ip = 5, node_port = 4200, node_gpu = 1, node_mem = 8192, node_cpu = 4, node_time = 77\<rparr>"
  let ?st = "new_agent\<lparr>table_nodes := tablahash_insert create_table_nodes ?n\<rparr>"
  have "set (table_data (table_nodes ?st)) = {?n}"
    using nodes.insert_set [OF create_tables_ok(1), of ?n] by (simp add: created_empty copy_node_def)
  moreover have "nodes_ok (table_nodes ?st)" using nodes.insert_ok [OF create_tables_ok(1), of ?n] by simp
  ultimately show ?thesis
    using silent_peers_are_evicted [of ?st 92] by (simp add: filter_empty_conv)
qed

end
