(* ===== verification/Loopfunc.thy ===== *)
theory Loopfunc
  imports Timer
begin

text \<open>
  \<open>agent/loopfunc.c\<close>: the handlers of the epoll events. What the kernel answers is an
  argument: the descriptor \<open>accept4\<close> returned (negative on failure) and the address of its peer, whether the
  \<open>epoll_ctl ADD\<close> succeeded, the receive events of a socket, a datagram and its sender,
  the clock. \<open>line_loop\<close> is the loop both message handlers run: read a line, dispatch it,
  until no complete line is left. The dispatched functions neither read nor write the line
  buffers, which are a state component of their own.
\<close>

type_synonym buffers = "fd \<Rightarrow> Connection"

definition connect_erlang :: "agent \<Rightarrow> fd \<Rightarrow> (cint \<times> cint) option \<Rightarrow> bool \<Rightarrow> agent \<times> fd" where
  "connect_erlang st new_fd peer epoll_ok =
     (if new_fd <s 0 then (st, -1)
      else
        (let st1 = st\<lparr>open_fds := insert new_fd (open_fds st), os_peername := (os_peername st)(new_fd := peer)\<rparr> in
         if \<not> epoll_ok then (sys_close st1 new_fd, -1)
         else (epoll_ctl_add st1 new_fd reg_in_oneshot, new_fd)))"

definition connect_client :: "agent \<Rightarrow> fd \<Rightarrow> (cint \<times> cint) option \<Rightarrow> bool \<Rightarrow> agent" where
  "connect_client st client_fd peer epoll_ok =
     (if client_fd <s 0 then st
      else
        (let st1 = st\<lparr>open_fds := insert client_fd (open_fds st), os_peername := (os_peername st)(client_fd := peer)\<rparr> in
         if \<not> epoll_ok then sys_close st1 client_fd
         else epoll_ctl_add st1 client_fd reg_in_oneshot))"

definition announce_text :: "agent \<Rightarrow> cint \<Rightarrow> string" where
  "announce_text st port =
     snprintf 126 (''ANNOUNCE '' @ fmt_d port @ '' cpu:'' @ fmt_d (resources_left (cpu_queue st)) @
       '' mem:'' @ fmt_d (resources_left (mem_queue st)) @ '' gpu:'' @ fmt_d (resources_left (gpu_queue st)) @
       [NEWLINE])"

definition udp_broadcast :: "agent \<Rightarrow> fd \<Rightarrow> cint \<Rightarrow> agent" where
  "udp_broadcast st socket_UDP port = sys_send st socket_UDP (announce_text st port)"

text \<open>The bytes of a datagram, cut to the buffer, as the C string they form.\<close>

definition datagram_string :: "string \<Rightarrow> string" where
  "datagram_string bytes = takeWhile (\<lambda>c. c \<noteq> NUL) (take (BUFFER_LEN - 1) bytes)"

definition udp_datagram_from_remote :: "agent \<Rightarrow> string \<Rightarrow> cint \<Rightarrow> time_t \<Rightarrow> agent" where
  "udp_datagram_from_remote st bytes sender now =
     (if bytes = [] then st
      else
        (let tokens = get_token (strncpy_z BUFFER_LEN (datagram_string bytes)) 10 in
         if length tokens < 5 then st
         else
           st\<lparr>table_nodes := tablahash_insert (table_nodes st)
                \<lparr>node_ip = sender, node_port = atoi (tokens ! 1), node_gpu = get_quantity (tokens ! 4),
                 node_mem = get_quantity (tokens ! 3), node_cpu = get_quantity (tokens ! 2),
                 node_time = now\<rparr>\<rparr>))"

function line_loop ::
  "(string \<Rightarrow> agent \<Rightarrow> agent option) \<Rightarrow> Connection \<Rightarrow> rx_event list \<Rightarrow> agent \<Rightarrow>
     (read_result \<times> Connection \<times> rx_event list \<times> agent) option" where
  "line_loop handle conn rx st =
     (case read_connection conn rx of
        (Line l, conn', rx') \<Rightarrow>
          (case handle l st of None \<Rightarrow> None | Some st' \<Rightarrow> line_loop handle conn' rx' st')
      | (res, conn', rx') \<Rightarrow> Some (res, conn', rx', st))"
  by pat_completeness auto
termination
  by (relation "measure (\<lambda>(handle, conn, rx, st). accumulated_bytes conn + length (rx_bytes rx))")
    (auto dest: read_connection_measure [OF sym])

declare line_loop.simps [simp del]

text \<open>The loop over \<open>read_until_newline\<close>, which refuses a descriptor out of range.\<close>

definition drain_lines ::
  "(string \<Rightarrow> agent \<Rightarrow> agent option) \<Rightarrow> fd \<Rightarrow> buffers \<Rightarrow> rx_event list \<Rightarrow> agent \<Rightarrow>
     (read_result \<times> buffers \<times> agent) option" where
  "drain_lines handle x conns rx st =
     (if \<not> valid_fd x then Some (Gone, conns, st)
      else (case line_loop handle (conns x) rx st of
              None \<Rightarrow> None
            | Some (res, conn', rx', st') \<Rightarrow> Some (res, conns(x := conn'), st')))"

definition message_from_erlang ::
  "agent \<Rightarrow> buffers \<Rightarrow> fd \<Rightarrow> rx_event list \<Rightarrow> time_t \<Rightarrow> (agent \<times> buffers) option" where
  "message_from_erlang st conns x rx now =
     (case drain_lines (\<lambda>l s. erlang_to_C s l now) x conns rx st of
        None \<Rightarrow> None
      | Some (res, conns', st') \<Rightarrow>
          if res = Gone then
            (let st1 = sys_close (epoll_ctl_del st' (erlangfd st')) (erlangfd st') in
             Some (st1\<lparr>erlangfd := -1\<rparr>, clear_connection_buffer (erlangfd st1) conns'))
          else Some (restart_epolloneshot st' x, conns'))"

definition reserve_text :: "local_job_t \<Rightarrow> pending_resource_t \<Rightarrow> string" where
  "reserve_text job req =
     snprintf 256 (''RESERVE '' @ fmt_d (lj_job_id job) @ '' '' @ pr_type req @ '' '' @ fmt_d (pr_amount req) @ [NEWLINE])"

definition reg_in_et_oneshot :: epoll_reg where
  "reg_in_et_oneshot = \<lparr>reg_out = False, reg_et = True, reg_oneshot = True, reg_exclusive = False, reg_armed = True\<rparr>"

definition send_request :: "agent \<Rightarrow> fd \<Rightarrow> agent option" where
  "send_request st x =
     (case tablahash_find (table_ourjobs st) (fd_key x) of
        None \<Rightarrow> Some st
      | Some found \<Rightarrow>
          (case deref_job st (entry_job found) of
             None \<Rightarrow> None
           | Some job \<Rightarrow>
               (case lj_next_req job of
                  [] \<Rightarrow> Some st
                | req # _ \<Rightarrow>
                    Some (epoll_ctl_mod (sys_send st x (reserve_text job req)) x reg_in_et_oneshot))))"

definition recive_message_from_remote ::
  "agent \<Rightarrow> buffers \<Rightarrow> fd \<Rightarrow> rx_event list \<Rightarrow> time_t \<Rightarrow> (agent \<times> buffers) option" where
  "recive_message_from_remote st conns x rx now =
     (case drain_lines (\<lambda>l s. client_to_myserver s x l now) x conns rx st of
        None \<Rightarrow> None
      | Some (res, conns', st') \<Rightarrow>
          if res = Gone then
            Option.bind (release_client_by_fd st' x)
              (\<lambda>st1. Option.bind (handle_outbound_disconnect st1 x)
                (\<lambda>st2. Some (sys_close (epoll_ctl_del st2 x) x, clear_connection_buffer x conns')))
          else Some (restart_epolloneshot st' x, conns'))"

end
