(* ===== verification/Agent_Loop.thy ===== *)
theory Agent_Loop
  imports Loopfunc
begin

text \<open>
  \<open>agent/agent.c\<close>: the set-up of the sockets and of epoll, and the dispatch of an event by a
  worker thread. An \<open>event\<close> carries the descriptor epoll reported, whether \<open>EPOLLOUT\<close> is
  set, and what the kernel will answer to the calls of the handler. A one-shot registration
  is disarmed when its event is delivered.
\<close>

section \<open>Set-up\<close>

record worker_args =
  socket_server :: fd
  socket_erlang :: fd
  socket_UDP :: fd
  broadcast_timer_fd :: fd
  timeout_timer_fd :: fd
  w_port :: cint

text \<open>The outcomes of the calls of \<open>initialize_listen_sockets\<close>, in the order they are made.\<close>

record listen_results =
  lr_sockets :: "fd \<times> fd \<times> fd"
  lr_reuse_ok :: bool
  lr_broadcast_ok :: bool
  lr_bind_ok :: bool
  lr_listen_ok :: bool

definition initialize_listen_sockets :: "listen_results \<Rightarrow> string + (fd \<times> fd \<times> fd)" where
  "initialize_listen_sockets r =
     (let (s, e, u) = lr_sockets r in
      if s <s 0 \<or> e <s 0 \<or> u <s 0 then Inl ''socket() failed''
      else if \<not> lr_reuse_ok r then Inl ''setsockopt REUSEADDR/REUSEPORT failed''
      else if \<not> lr_broadcast_ok r then Inl ''setsockopt SO_BROADCAST failed''
      else if \<not> lr_bind_ok r then Inl ''bind() failed''
      else if \<not> lr_listen_ok r then Inl ''listen() failed''
      else Inr (s, e, u))"

text \<open>The addresses the three sockets are bound to, with the port in host order; \<open>htons\<close> keeps its low 16 bits.\<close>

definition BROADCAST_PORT :: cint where "BROADCAST_PORT = 12529"

definition listen_addresses :: "cint \<Rightarrow> fd \<times> fd \<times> fd \<Rightarrow> (fd \<times> bind_address \<times> cint) list" where
  "listen_addresses port socks =
     (let (s, e, u) = socks in
      [(s, INADDR_ANY, take_bit 16 port), (e, INADDR_LOOPBACK, take_bit 16 port), (u, INADDR_ANY, BROADCAST_PORT)])"

definition reg_listen :: epoll_reg where
  "reg_listen = \<lparr>reg_out = False, reg_et = False, reg_oneshot = False, reg_exclusive = True, reg_armed = True\<rparr>"

definition make_timer :: "agent \<Rightarrow> int \<Rightarrow> int \<Rightarrow> fd \<Rightarrow> bool \<Rightarrow> bool \<Rightarrow> string + agent" where
  "make_timer st initial_sec interval_sec tfd settime_ok epoll_ok =
     (if tfd <s 0 then Inl ''timerfd_create failed''
      else if \<not> settime_ok then Inl ''timerfd_settime failed''
      else if \<not> epoll_ok then Inl ''epoll_ctl ADD timer failed''
      else Inr (epoll_ctl_add
             (st\<lparr>open_fds := insert tfd (open_fds st),
                timer_specs := (timer_specs st)(tfd \<mapsto> (initial_sec, interval_sec))\<rparr>) tfd reg_in_oneshot))"

record setup_results =
  sr_epollfd :: fd
  sr_listen :: listen_results
  sr_add_ok :: bool
  sr_broadcast_timer :: "fd \<times> bool \<times> bool"
  sr_timeout_timer :: "fd \<times> bool \<times> bool"
  sr_threads_ok :: bool

definition setup_epoll :: "agent \<Rightarrow> cint \<Rightarrow> setup_results \<Rightarrow> string + (worker_args \<times> agent)" where
  "setup_epoll st port r =
     (if sr_epollfd r <s 0 then Inl ''epoll_create1 failed''
      else
        (case initialize_listen_sockets (sr_listen r) of
           Inl e \<Rightarrow> Inl e
         | Inr (s, e, u) \<Rightarrow>
             if \<not> sr_add_ok r then Inl ''epoll_ctl ADD listening sockets failed''
             else
               (let st1 = st\<lparr>open_fds := open_fds st \<union> {sr_epollfd r, s, e, u},
                              bound := listen_addresses port (s, e, u)\<rparr>;
                    st2 = epoll_ctl_add (epoll_ctl_add (epoll_ctl_add st1 s reg_listen) e reg_listen) u reg_listen;
                    (b, b_set, b_add) = sr_broadcast_timer r;
                    (t, t_set, t_add) = sr_timeout_timer r
                in case make_timer st2 1 5 b b_set b_add of
                     Inl err \<Rightarrow> Inl err
                   | Inr st3 \<Rightarrow>
                       (case make_timer st3 5 5 t t_set t_add of
                          Inl err \<Rightarrow> Inl err
                        | Inr st4 \<Rightarrow>
                            if \<not> sr_threads_ok r then Inl ''pthread_create failed''
                            else Inr (\<lparr>socket_server = s, socket_erlang = e, socket_UDP = u,
                                  broadcast_timer_fd = b, timeout_timer_fd = t, w_port = port\<rparr>, st4)))))"

text \<open>\<open>main\<close>: \<open>argv\<close> with the name of the program, what the kernel answers, and the line buffers.\<close>

definition agent_main ::
  "string list \<Rightarrow> outbound list \<Rightarrow> (fd \<Rightarrow> (cint \<times> cint) option) \<Rightarrow> (string \<Rightarrow> cint) \<Rightarrow> setup_results \<Rightarrow>
     string + (worker_args \<times> agent \<times> buffers)" where
  "agent_main argv outs peers inet r =
     (case setup_epoll (main_init outs peers inet) (main_port argv) r of
        Inl msg \<Rightarrow> Inl msg
      | Inr (args, st) \<Rightarrow> Inr (args, st, initialize_connection_buffers))"

section \<open>Dispatch\<close>

record event =
  ev_fd :: fd
  ev_out :: bool
  ev_accept :: fd
  ev_peer :: "(cint \<times> cint) option"
  ev_epoll_ok :: bool
  ev_timer_ok :: bool
  ev_rx :: "rx_event list"
  ev_datagram :: string
  ev_sender :: cint
  ev_now :: time_t

definition deliver :: "agent \<Rightarrow> fd \<Rightarrow> agent" where
  "deliver st x =
     (case epoll_set st x of
        Some reg \<Rightarrow> if reg_oneshot reg then epoll_ctl_add st x (reg\<lparr>reg_armed := False\<rparr>) else st
      | None \<Rightarrow> st)"

definition dispatch :: "worker_args \<Rightarrow> event \<Rightarrow> agent \<times> buffers \<Rightarrow> (agent \<times> buffers) option" where
  "dispatch args ev s =
     (let x = ev_fd ev; st = deliver (fst s) x; conns = snd s in
      if x = socket_erlang args then
        (let (st1, new_fd) = connect_erlang st (ev_accept ev) (ev_peer ev) (ev_epoll_ok ev) in
         Some (st1\<lparr>erlangfd := new_fd\<rparr>, conns))
      else if x = socket_server args then
        Some (connect_client st (ev_accept ev) (ev_peer ev) (ev_epoll_ok ev), conns)
      else if x = broadcast_timer_fd args then
        (if \<not> ev_timer_ok ev then Some (st, conns)
         else Some (restart_epolloneshot (udp_broadcast st (socket_UDP args) (w_port args)) x, conns))
      else if x = timeout_timer_fd args then
        (if \<not> ev_timer_ok ev then Some (st, conns)
         else Option.bind (check_ourjob_timeouts (check_nodes_timeouts st (ev_now ev)) (ev_now ev))
                (\<lambda>st1. Some (restart_epolloneshot st1 x, conns)))
      else if x = socket_UDP args then
        Some (udp_datagram_from_remote st (ev_datagram ev) (ev_sender ev) (ev_now ev), conns)
      else if x = erlangfd st then message_from_erlang st conns x (ev_rx ev) (ev_now ev)
      else if ev_out ev then map_option (\<lambda>st1. (st1, conns)) (send_request st x)
      else recive_message_from_remote st conns x (ev_rx ev) (ev_now ev))"

text \<open>The \<open>for\<close> loop of \<open>event_loop\<close> over the events of a batch, and of any longer sequence.\<close>

fun event_loop :: "worker_args \<Rightarrow> event list \<Rightarrow> agent \<times> buffers \<Rightarrow> (agent \<times> buffers) option" where
  "event_loop args [] s = Some s"
| "event_loop args (ev # evs) s = Option.bind (dispatch args ev s) (event_loop args evs)"

text \<open>
  A worker as it is written: \<open>epoll_wait\<close> fails (by a signal or otherwise), and the loop goes on, or
  it returns a batch of events (at most \<open>MAX_EVENTS\<close> of them; here any number).
\<close>

datatype wait_result = Wait_failed bool | Ready "event list"

fun worker_loop :: "worker_args \<Rightarrow> wait_result list \<Rightarrow> agent \<times> buffers \<Rightarrow> (agent \<times> buffers) option" where
  "worker_loop args [] s = Some s"
| "worker_loop args (Wait_failed eintr # ws) s = worker_loop args ws s"
| "worker_loop args (Ready evs # ws) s = Option.bind (event_loop args evs s) (worker_loop args ws)"

fun wait_events :: "wait_result \<Rightarrow> event list" where
  "wait_events (Wait_failed eintr) = []"
| "wait_events (Ready evs) = evs"

lemma event_loop_append: "event_loop args (evs @ evs') s = Option.bind (event_loop args evs s) (event_loop args evs')"
proof (induction evs arbitrary: s)
  case (Cons ev evs)
  then show ?case by (cases "dispatch args ev s") simp_all
qed simp

lemma worker_loop_events: "worker_loop args ws s = event_loop args (concat (map wait_events ws)) s"
proof (induction args ws s rule: worker_loop.induct)
  case (3 args evs ws s)
  then show ?case by (cases "event_loop args evs s") (simp_all add: event_loop_append)
qed simp_all

end
