(* ===== verification/Server_Pool.thy ===== *)
theory Server_Pool
  imports Utils
begin

text \<open>
  Correctness of the server side of \<open>utils.c\<close>: the loop that grants from a FIFO is the
  greedy prefix of the queue, and the pool is conserved. For every resource, what is left in
  its queue plus what \<open>table_nodejobs\<close> records as granted is the node's capacity, as 32-bit
  words, in every state the server operations reach; and when no request asks for a negative
  amount the same holds of the signed readings, so nothing is ever granted twice or beyond the
  capacity.
\<close>

section \<open>Specification\<close>

fun granted_of :: "queue_id \<Rightarrow> received_job \<Rightarrow> cint" where
  "granted_of CPU_Q j = cpu_granted j"
| "granted_of MEM_Q j = mem_granted j"
| "granted_of GPU_Q j = gpu_granted j"

lemma granted_of_eta: "granted_of CPU_Q = cpu_granted" "granted_of MEM_Q = mem_granted" "granted_of GPU_Q = gpu_granted"
  by (simp_all add: fun_eq_iff)

definition granted_total :: "queue_id \<Rightarrow> agent \<Rightarrow> cint" where
  "granted_total r st = sum_list (map (granted_of r) (table_data (table_nodejobs st)))"

definition granted_sum :: "queue_id \<Rightarrow> agent \<Rightarrow> int" where
  "granted_sum r st = sum_list (map (\<lambda>j. sint (granted_of r j)) (table_data (table_nodejobs st)))"

definition server_inv :: "agent \<Rightarrow> bool" where
  "server_inv st \<longleftrightarrow> nodejobs_ok (table_nodejobs st) \<and> (\<forall>r. queue_inv (get_queue r st))"

definition pool_conserved :: "(queue_id \<Rightarrow> cint) \<Rightarrow> agent \<Rightarrow> bool" where
  "pool_conserved cap st \<longleftrightarrow> (\<forall>r. resources_left (get_queue r st) + granted_total r st = cap r)"

text \<open>The abstract grant: the longest prefix of the waiting requests the free amount pays for.\<close>

fun greedy :: "cint \<Rightarrow> request list \<Rightarrow> request list \<times> request list \<times> cint" where
  "greedy left [] = ([], [], left)"
| "greedy left (r # rs) =
     (if rq_amount_requested r \<le>s left
      then (let (g, w, l) = greedy (left - rq_amount_requested r) rs in (r # g, w, l))
      else ([], r # rs, left))"

section \<open>The grant loop\<close>

lemma greedy_split: "greedy left rs = (g, w, l) \<Longrightarrow> rs = g @ w"
  by (induction left rs arbitrary: g w l rule: greedy.induct) (auto split: if_splits prod.splits)

lemma greedy_left: "greedy left rs = (g, w, l) \<Longrightarrow> l = left - sum_list (map rq_amount_requested g)"
  by (induction left rs arbitrary: g w l rule: greedy.induct) (auto split: if_splits prod.splits)

lemma greedy_blocked: "greedy left rs = (g, r # w, l) \<Longrightarrow> \<not> rq_amount_requested r \<le>s l"
  by (induction left rs arbitrary: g l rule: greedy.induct) (auto split: if_splits prod.splits)

lemma drain_loop_greedy:
  assumes "queue_inv q" "greedy (resources_left q) (queue_list q) = (g, w, l)"
  shows "\<exists>q'. drain_loop q ready = Some (q', rev g @ ready) \<and> queue_inv q' \<and> queue_list q' = w \<and>
    resources_left q' = l"
  using assms
proof (induction "queue_list q" arbitrary: q ready g)
  case Nil
  then show ?case using queue_first_None [of q] by (auto simp: drain_loop.simps)
next
  case (Cons x xs)
  obtain a r where head: "q_first q = Some a" "q_cells q a = Some r" "x = unlinked r"
    using queue_first_Some [OF Cons.prems(1) Cons.hyps(2) [symmetric]] by metis
  show ?case
  proof (cases "rq_amount_requested x \<le>s resources_left q")
    case True
    obtain q1 where q1: "dequeue_request_locked q = Some (q1, Some x)" "queue_inv q1" "queue_list q1 = xs"
      using rq.deq_head [OF Cons.prems(1) Cons.hyps(2) [symmetric]] by blast
    let ?q = "q1\<lparr>resources_left := resources_left q1 - rq_amount_requested x\<rparr>"
    obtain g1 where g1: "greedy (resources_left q - rq_amount_requested x) xs = (g1, w, l)" "g = x # g1"
      using Cons.prems(2) True by (auto simp: Cons.hyps(2) [symmetric] split: prod.splits)
    have "\<exists>q'. drain_loop ?q (x # ready) = Some (q', rev g1 @ x # ready) \<and> queue_inv q' \<and>
        queue_list q' = w \<and> resources_left q' = l"
      using Cons.hyps(1) [of ?q] q1 g1 dequeue_left [OF q1(1)] by (simp add: frame_simps)
    then show ?thesis
      using head True q1 g1(2) by (simp add: drain_loop.simps [of q])
  next
    case False
    then show ?thesis
      using head Cons.prems by (auto simp: Cons.hyps(2) [symmetric] drain_loop.simps [of q])
  qed
qed

section \<open>Frames\<close>

lemma get_set_queue [simp]: "get_queue r (set_queue q x st) = (if r = q then x else get_queue r st)"
  by (cases r; cases q) simp_all

lemma set_queue_frame [simp]:
  "table_nodejobs (set_queue q x st) = table_nodejobs st" "table_localjobs (set_queue q x st) = table_localjobs st"
  "table_ourjobs (set_queue q x st) = table_ourjobs st" "table_nodes (set_queue q x st) = table_nodes st"
  "erlangfd (set_queue q x st) = erlangfd st" "epoll_set (set_queue q x st) = epoll_set st"
  "open_fds (set_queue q x st) = open_fds st" "sent (set_queue q x st) = sent st"
  "fresh_job (set_queue q x st) = fresh_job st" "os_peername (set_queue q x st) = os_peername st"
  by (cases q; simp)+

lemma get_queue_frame [simp]:
  "get_queue r (st\<lparr>table_nodejobs := t\<rparr>) = get_queue r st" "get_queue r (st\<lparr>sent := m\<rparr>) = get_queue r st"
  by (cases r; simp)+

lemma grant_one_shape:
  "grant_one type req st =
     st\<lparr>table_nodejobs := table_nodejobs (grant_one type req st), sent := sent (grant_one type req st)\<rparr>"
  by (simp add: grant_one_def record_granted_def sys_send_def Let_def split: prod.split)

lemma grant_ready_shape:
  "\<exists>t m. grant_ready type ready st = st\<lparr>table_nodejobs := t, sent := m\<rparr>"
proof (induction ready arbitrary: st)
  case Nil
  show ?case by (rule exI [of _ "table_nodejobs st"], rule exI [of _ "sent st"]) simp
next
  case (Cons req ready)
  obtain t m where "grant_one type req st = st\<lparr>table_nodejobs := t, sent := m\<rparr>"
    using grant_one_shape by blast
  then show ?case using Cons.IH [of "grant_one type req st"] by auto
qed

lemma grant_one_frame [simp]:
  "get_queue r (grant_one type req st) = get_queue r st" "table_localjobs (grant_one type req st) = table_localjobs st"
  "table_ourjobs (grant_one type req st) = table_ourjobs st" "open_fds (grant_one type req st) = open_fds st"
  by (subst grant_one_shape, simp)+

lemma grant_ready_frame [simp]:
  "get_queue r (grant_ready type ready st) = get_queue r st"
  "table_localjobs (grant_ready type ready st) = table_localjobs st"
  "table_ourjobs (grant_ready type ready st) = table_ourjobs st" "table_nodes (grant_ready type ready st) = table_nodes st"
  "open_fds (grant_ready type ready st) = open_fds st" "epoll_set (grant_ready type ready st) = epoll_set st"
  "erlangfd (grant_ready type ready st) = erlangfd st" "fresh_job (grant_ready type ready st) = fresh_job st"
  using grant_ready_shape [of type ready st] by auto

section \<open>Recording a grant\<close>

definition peer_of :: "agent \<Rightarrow> fd \<Rightarrow> cint \<times> cint" where
  "peer_of st x = (case getpeername st x of Some a \<Rightarrow> a | None \<Rightarrow> (0, 0))"

definition add_grant :: "string \<Rightarrow> cint \<Rightarrow> fd \<Rightarrow> received_job \<Rightarrow> received_job" where
  "add_grant type amount x rj =
     (if type = ''cpu'' then rj\<lparr>original_socket := x, cpu_granted := cpu_granted rj + amount\<rparr>
      else if type = ''mem'' then rj\<lparr>original_socket := x, mem_granted := mem_granted rj + amount\<rparr>
      else rj\<lparr>original_socket := x, gpu_granted := gpu_granted rj + amount\<rparr>)"

lemma add_grant_simps [simp]:
  "rj_key (add_grant type amount x rj) = rj_key rj" "original_socket (add_grant type amount x rj) = x"
  "granted_of r (add_grant type amount x rj) =
     granted_of r rj + (if r = resource_queue_of type then amount else 0)"
  by (auto simp: add_grant_def rj_key_def resource_queue_of_def; cases r; simp)+

lemma record_granted_insert:
  assumes "nodejobs_ok (table_nodejobs st)"
  shows "record_granted st job_id x type amount =
    st\<lparr>table_nodejobs := tablahash_insert (table_nodejobs st)
       (add_grant type amount x
         (case table_map rj_key (table_nodejobs st) (job_id, peer_of st x) of
            Some e \<Rightarrow> e | None \<Rightarrow> received_job_key job_id (fst (peer_of st x)) (snd (peer_of st x))))\<rparr>"
  using nodejobs.find_map [OF assms(1)]
  by (auto simp: record_granted_def peer_of_def add_grant_def Let_def split: prod.split option.split)

lemma record_granted_sum:
  fixes f :: "received_job \<Rightarrow> 'g :: ab_group_add"
  assumes ok: "nodejobs_ok (table_nodejobs st)"
    and zero: "f (received_job_key job_id (fst (peer_of st x)) (snd (peer_of st x))) = 0"
    and add: "\<And>rj. rj \<in> set (table_data (table_nodejobs st)) \<or> f rj = 0 \<Longrightarrow>
      f (add_grant type amount x rj) = f rj + c"
  shows "sum_list (map f (table_data (table_nodejobs (record_granted st job_id x type amount)))) =
      sum_list (map f (table_data (table_nodejobs st))) + c"
    and "nodejobs_ok (table_nodejobs (record_granted st job_id x type amount))"
proof -
  let ?k = "(job_id, peer_of st x)"
  let ?base = "case table_map rj_key (table_nodejobs st) ?k of
     Some e \<Rightarrow> e | None \<Rightarrow> received_job_key job_id (fst (peer_of st x)) (snd (peer_of st x))"
  have key: "rj_key ?base = ?k"
    by (auto dest: table_map_SomeD split: option.splits)
  note ins = record_granted_insert [OF ok, of job_id x type amount]
  show "nodejobs_ok (table_nodejobs (record_granted st job_id x type amount))"
    unfolding ins using nodejobs.insert_ok [OF ok] by simp
  have "f (copy_job (add_grant type amount x ?base)) = f ?base + c"
    using add zero by (auto simp: copy_job_def dest: table_map_SomeD split: option.splits)
  then show "sum_list (map f (table_data (table_nodejobs (record_granted st job_id x type amount)))) =
      sum_list (map f (table_data (table_nodejobs st))) + c"
    unfolding ins using nodejobs.insert_sum [OF ok, of f "add_grant type amount x ?base"] key zero
    by (auto split: option.splits)
qed

lemma granted_total_record:
  assumes "nodejobs_ok (table_nodejobs st)"
  shows "granted_total r (record_granted st job_id x type amount) =
    granted_total r st + (if r = resource_queue_of type then amount else 0)"
proof -
  have "granted_of r (received_job_key job_id a b) = 0" for a b
    by (cases r) (simp_all add: received_job_key_def)
  then show ?thesis
    unfolding granted_total_def by (intro record_granted_sum(1) [OF assms]) simp_all
qed

lemma nodejobs_ok_record:
  assumes "nodejobs_ok (table_nodejobs st)"
  shows "nodejobs_ok (table_nodejobs (record_granted st job_id x type amount))"
  using record_granted_sum(2) [OF assms, of "\<lambda>_. 0 :: int"] by simp

lemma table_nodejobs_send [simp]: "table_nodejobs (sys_send st x m) = table_nodejobs st"
  by (simp add: sys_send_def)

lemma grant_ready_total:
  assumes "nodejobs_ok (table_nodejobs st)"
  shows "nodejobs_ok (table_nodejobs (grant_ready type ready st))"
    and "granted_total r (grant_ready type ready st) = granted_total r st +
      (if r = resource_queue_of type then sum_list (map rq_amount_requested ready) else 0)"
proof -
  have "nodejobs_ok (table_nodejobs (grant_ready type ready st)) \<and>
    granted_total r (grant_ready type ready st) = granted_total r st +
      (if r = resource_queue_of type then sum_list (map rq_amount_requested ready) else 0)"
    using assms
  proof (induction ready arbitrary: st)
    case (Cons req ready)
    let ?st = "grant_one type req st"
    have "nodejobs_ok (table_nodejobs ?st)" "granted_total r ?st = granted_total r st +
        (if r = resource_queue_of type then rq_amount_requested req else 0)"
      using nodejobs_ok_record [OF Cons.prems] granted_total_record [OF Cons.prems]
      by (simp_all add: grant_one_def granted_total_def)
    then show ?case using Cons.IH [of ?st] by simp
  qed simp
  then show "nodejobs_ok (table_nodejobs (grant_ready type ready st))"
    "granted_total r (grant_ready type ready st) = granted_total r st +
      (if r = resource_queue_of type then sum_list (map rq_amount_requested ready) else 0)" by blast+
qed

section \<open>Draining a queue\<close>

lemma drain_queue_spec:
  assumes "queue_inv (get_queue q st)"
    and "greedy (resources_left (get_queue q st)) (queue_list (get_queue q st)) = (g, w, l)"
  obtains q' where "drain_queue st q type = Some (grant_ready type (rev g) (set_queue q q' st))"
    "queue_inv q'" "queue_list q' = w" "resources_left q' = l"
  using drain_loop_greedy [OF assms, of "[]"] by (auto simp: drain_queue_def)

lemma queue_type_of [simp]: "resource_queue_of (queue_type q) = q"
  by (cases q) (simp_all add: resource_queue_of_def)

lemma drain_queue_conserves:
  assumes "server_inv st" "pool_conserved cap st"
  obtains st' where "drain_queue st q (queue_type q) = Some st'" "server_inv st'" "pool_conserved cap st'"
proof -
  obtain g w l where gr: "greedy (resources_left (get_queue q st)) (queue_list (get_queue q st)) = (g, w, l)"
    using prod_cases3 by blast
  have "queue_inv (get_queue q st)" and ok: "nodejobs_ok (table_nodejobs st)"
    using assms(1) by (simp_all add: server_inv_def)
  from drain_queue_spec [OF this(1) gr, where type = "queue_type q"] obtain q' where
    q': "drain_queue st q (queue_type q) = Some (grant_ready (queue_type q) (rev g) (set_queue q q' st))"
      "queue_inv q'" "queue_list q' = w" "resources_left q' = l" by blast
  let ?st = "grant_ready (queue_type q) (rev g) (set_queue q q' st)"
  note total = grant_ready_total [of "set_queue q q' st", where type = "queue_type q" and ready = "rev g"]
  have "granted_total r (set_queue q q' st) = granted_total r st" for r
    by (simp add: granted_total_def)
  then have "pool_conserved cap ?st"
    using assms(2) total(2) ok greedy_left [OF gr] q'(4)
    by (auto simp: pool_conserved_def rev_map [symmetric] sum_list_rev algebra_simps)
  moreover have "server_inv ?st"
    using assms(1) total(1) q'(2) ok by (auto simp: server_inv_def)
  ultimately show ?thesis using that q'(1) by blast
qed

lemma reserve_elements_conserves:
  assumes "server_inv st" "pool_conserved cap st"
  obtains st' where "reserve_elements st = Some st'" "server_inv st'" "pool_conserved cap st'"
proof -
  obtain s1 where s1: "drain_queue st CPU_Q ''cpu'' = Some s1" "server_inv s1" "pool_conserved cap s1"
    using drain_queue_conserves [OF assms, of CPU_Q] by auto
  obtain s2 where s2: "drain_queue s1 MEM_Q ''mem'' = Some s2" "server_inv s2" "pool_conserved cap s2"
    using drain_queue_conserves [OF s1(2,3), of MEM_Q] by auto
  obtain s3 where s3: "drain_queue s2 GPU_Q ''gpu'' = Some s3" "server_inv s3" "pool_conserved cap s3"
    using drain_queue_conserves [OF s2(2,3), of GPU_Q] by auto
  from s1 s2 s3 show ?thesis using that by (simp add: reserve_elements_def)
qed

section \<open>Queueing a request\<close>

lemma enqueue_jobs_step:
  assumes "server_inv st"
  obtains q' where "enqueue_request (get_queue (resource_queue_of res) st) (make_request job_id x amount) = Some q'"
    "server_inv (set_queue (resource_queue_of res) q' st)"
    "queue_list q' = queue_list (get_queue (resource_queue_of res) st) @ [make_request job_id x amount]"
    "resources_left q' = resources_left (get_queue (resource_queue_of res) st)"
proof -
  have inv: "queue_inv (get_queue (resource_queue_of res) st)" using assms by (simp add: server_inv_def)
  obtain q' where q': "enqueue_request (get_queue (resource_queue_of res) st) (make_request job_id x amount) = Some q'"
    using rq.enq_spec [OF inv] by blast
  have "unlinked (make_request job_id x amount) = make_request job_id x amount"
    by (simp add: unlinked_def make_request_def)
  then show ?thesis
    using that q' rq.enq_inv [OF inv q'] rq.enq_items [OF inv q'] enqueue_left [OF q'] assms
    by (auto simp: server_inv_def)
qed

lemma enqueue_jobs_conserves:
  assumes "server_inv st" "pool_conserved cap st"
  obtains st' where "enqueue_jobs st res job_id amount x = Some st'" "server_inv st'" "pool_conserved cap st'"
proof -
  obtain q' where q': "enqueue_request (get_queue (resource_queue_of res) st) (make_request job_id x amount) = Some q'"
    "server_inv (set_queue (resource_queue_of res) q' st)"
    "resources_left q' = resources_left (get_queue (resource_queue_of res) st)"
    using enqueue_jobs_step [OF assms(1)] by metis
  then have "pool_conserved cap (set_queue (resource_queue_of res) q' st)"
    using assms(2) by (auto simp: pool_conserved_def granted_total_def)
  from reserve_elements_conserves [OF q'(2) this] show ?thesis
    using that q'(1) by (auto simp: enqueue_jobs_def Let_def)
qed

section \<open>Reclaiming\<close>

definition swept_by :: "fd \<Rightarrow> received_job list \<Rightarrow> received_job list" where
  "swept_by x jobs = filter (\<lambda>j. original_socket j = x) jobs"

lemma swept_by_append [simp]: "swept_by x (as @ bs) = swept_by x as @ swept_by x bs" "swept_by x [] = []"
  by (simp_all add: swept_by_def)

lemma sweep_chain_spec:
  "sweep_chain x jobs acc =
     (filter (\<lambda>j. original_socket j \<noteq> x) jobs,
      \<lparr>add_cpu = add_cpu acc + sum_list (map cpu_granted (swept_by x jobs)),
       add_mem = add_mem acc + sum_list (map mem_granted (swept_by x jobs)),
       add_gpu = add_gpu acc + sum_list (map gpu_granted (swept_by x jobs)),
       found_any = (found_any acc \<or> swept_by x jobs \<noteq> []), swept = swept acc @ swept_by x jobs\<rparr>)"
  by (induction x jobs acc rule: sweep_chain.induct) (simp_all add: swept_by_def add.assoc)

lemma sweep_buckets_spec:
  "sweep_buckets x bs acc =
     (map (filter (\<lambda>j. original_socket j \<noteq> x)) bs,
      \<lparr>add_cpu = add_cpu acc + sum_list (map cpu_granted (swept_by x (concat bs))),
       add_mem = add_mem acc + sum_list (map mem_granted (swept_by x (concat bs))),
       add_gpu = add_gpu acc + sum_list (map gpu_granted (swept_by x (concat bs))),
       found_any = (found_any acc \<or> swept_by x (concat bs) \<noteq> []), swept = swept acc @ swept_by x (concat bs)\<rparr>)"
  by (induction x bs acc rule: sweep_buckets.induct) (simp_all add: sweep_chain_spec add.assoc)

definition reclaimed :: "agent \<Rightarrow> fd \<Rightarrow> queue_id \<Rightarrow> cint" where
  "reclaimed st x r = sum_list (map (granted_of r) (swept_by x (table_data (table_nodejobs st))))"

definition reclaim :: "agent \<Rightarrow> fd \<Rightarrow> agent" where
  "reclaim st x =
     st\<lparr>table_nodejobs := table_filter (\<lambda>j. original_socket j \<noteq> x) (table_nodejobs st),
        cpu_queue := give_back (reclaimed st x CPU_Q) (cpu_queue st),
        mem_queue := give_back (reclaimed st x MEM_Q) (mem_queue st),
        gpu_queue := give_back (reclaimed st x GPU_Q) (gpu_queue st)\<rparr>"

lemma reclaim_queue [simp]: "get_queue r (reclaim st x) = give_back (reclaimed st x r) (get_queue r st)"
  by (cases r) (simp_all add: reclaim_def)

lemma reclaim_nodejobs [simp]:
  "table_nodejobs (reclaim st x) = table_filter (\<lambda>j. original_socket j \<noteq> x) (table_nodejobs st)"
  by (simp add: reclaim_def)

lemma swept_destroyed:
  "table_filter (\<lambda>j. original_socket j \<noteq> x) t =
     t\<lparr>elems := map (filter (\<lambda>j. original_socket j \<noteq> x)) (elems t),
       numElems := numElems t - of_nat (length (swept_by x (table_data t))),
       destroyed := destroyed t @ swept_by x (table_data t)\<rparr>"
  by (simp add: table_filter_def swept_by_def o_def)

lemma release_client_by_fd_spec:
  "release_client_by_fd st x =
     (if swept_by x (table_data (table_nodejobs st)) = []
      then Some (st\<lparr>table_nodejobs := table_filter (\<lambda>j. original_socket j \<noteq> x) (table_nodejobs st)\<rparr>)
      else reserve_elements (reclaim st x))"
  by (simp add: release_client_by_fd_def sweep_buckets_spec sweep_start_def Let_def swept_destroyed
      reclaim_def reclaimed_def granted_of_eta table_data_def [symmetric])

lemma filter_nothing:
  assumes "swept_by x (table_data t) = []"
  shows "table_filter (\<lambda>j. original_socket j \<noteq> x) t = t"
proof -
  have "filter (\<lambda>j. original_socket j \<noteq> x) (table_data t) = table_data t"
    using assms by (simp add: swept_by_def filter_empty_conv filter_id_conv)
  then have "map (filter (\<lambda>j. original_socket j \<noteq> x)) (elems t) = elems t"
    using table_filter_all by force
  then show ?thesis unfolding swept_destroyed using assms by simp
qed

lemma sum_list_filter_split:
  "sum_list (map f (filter P xs)) + sum_list (map f (filter (\<lambda>x. \<not> P x) xs)) =
     (sum_list (map f xs) :: 'g :: ab_group_add)"
  by (induction xs) (auto simp: algebra_simps)

lemma reclaim_sum:
  fixes f :: "received_job \<Rightarrow> 'g :: ab_group_add"
  shows "sum_list (map f (table_data (table_nodejobs (reclaim st x)))) +
      sum_list (map f (swept_by x (table_data (table_nodejobs st)))) =
    sum_list (map f (table_data (table_nodejobs st)))"
  using sum_list_filter_split [of f "\<lambda>j. original_socket j \<noteq> x"] by (simp add: swept_by_def)

lemma give_back_simps [simp]:
  "queue_inv (give_back n q) = queue_inv q" "queue_list (give_back n q) = queue_list q"
  "resources_left (give_back n q) = resources_left q + n"
  by (simp_all add: give_back_def frame_simps)

lemma reclaim_server_inv: "server_inv st \<Longrightarrow> server_inv (reclaim st x)"
  by (simp add: server_inv_def table_filter_ok)

lemma release_client_by_fd_conserves:
  assumes "server_inv st" "pool_conserved cap st"
  obtains st' where "release_client_by_fd st x = Some st'" "server_inv st'" "pool_conserved cap st'"
proof (cases "swept_by x (table_data (table_nodejobs st)) = []")
  case True
  then have "release_client_by_fd st x = Some st"
    using filter_nothing [OF True] by (simp add: release_client_by_fd_spec)
  then show ?thesis using that assms by blast
next
  case False
  have "granted_total r (reclaim st x) + reclaimed st x r = granted_total r st" for r
    unfolding granted_total_def reclaimed_def by (rule reclaim_sum)
  then have "resources_left (get_queue r st) + reclaimed st x r + granted_total r (reclaim st x) =
      resources_left (get_queue r st) + granted_total r st" for r
    by (simp add: ac_simps)
  then have "pool_conserved cap (reclaim st x)"
    using assms(2) unfolding pool_conserved_def reclaim_queue give_back_simps by (simp only: simp_thms)
  from reserve_elements_conserves [OF reclaim_server_inv [OF assms(1)] this] show ?thesis
    using that False by (auto simp: release_client_by_fd_spec)
qed

section \<open>Nobody waits for what is free\<close>

fun head_waits :: "cint \<Rightarrow> request list \<Rightarrow> bool" where
  "head_waits left [] = True"
| "head_waits left (r # rs) = (\<not> rq_amount_requested r \<le>s left)"

lemma greedy_stops: "greedy left rs = (g, w, l) \<Longrightarrow> head_waits l w"
  using greedy_blocked by (cases w) auto

lemma greedy_nothing: "head_waits left rs \<Longrightarrow> greedy left rs = ([], rs, left)"
  by (cases rs) simp_all

definition settled :: "queue_id \<Rightarrow> agent \<Rightarrow> bool" where
  "settled r st \<longleftrightarrow> head_waits (resources_left (get_queue r st)) (queue_list (get_queue r st))"

lemma drain_queue_settles:
  assumes inv: "server_inv st"
  obtains st' where "drain_queue st q type = Some st'" "server_inv st'" "settled q st'"
    "\<forall>r. r \<noteq> q \<longrightarrow> get_queue r st' = get_queue r st"
proof -
  obtain g w l where g: "greedy (resources_left (get_queue q st)) (queue_list (get_queue q st)) = (g, w, l)"
    by (metis prod_cases3)
  have q: "queue_inv (get_queue q st)" "nodejobs_ok (table_nodejobs st)" using inv by (simp_all add: server_inv_def)
  obtain q' where q': "drain_queue st q type = Some (grant_ready type (rev g) (set_queue q q' st))"
    "queue_inv q'" "queue_list q' = w" "resources_left q' = l"
    by (rule drain_queue_spec [OF q(1) g])
  let ?st = "grant_ready type (rev g) (set_queue q q' st)"
  have "settled q ?st"
    using q' greedy_stops [OF g] by (simp add: settled_def)
  moreover have "server_inv ?st"
    using inv q'(2) grant_ready_total(1) [of "set_queue q q' st" type "rev g"] by (simp add: server_inv_def)
  ultimately show ?thesis by (intro that [OF q'(1)]) simp_all
qed

lemma settled_cong: "get_queue r st' = get_queue r st \<Longrightarrow> settled r st' = settled r st"
  by (simp add: settled_def)

lemma reserve_elements_settles:
  assumes "server_inv st"
  obtains st' where "reserve_elements st = Some st'" "server_inv st'" "\<And>r. settled r st'"
proof -
  obtain s1 where 1: "drain_queue st CPU_Q ''cpu'' = Some s1" "server_inv s1" "settled CPU_Q s1"
    by (rule drain_queue_settles [OF assms, of CPU_Q "''cpu''"])
  obtain s2 where 2: "drain_queue s1 MEM_Q ''mem'' = Some s2" "server_inv s2" "settled MEM_Q s2"
    "\<forall>r. r \<noteq> MEM_Q \<longrightarrow> get_queue r s2 = get_queue r s1"
    by (rule drain_queue_settles [OF 1(2), of MEM_Q "''mem''"])
  obtain s3 where 3: "drain_queue s2 GPU_Q ''gpu'' = Some s3" "server_inv s3" "settled GPU_Q s3"
    "\<forall>r. r \<noteq> GPU_Q \<longrightarrow> get_queue r s3 = get_queue r s2"
    by (rule drain_queue_settles [OF 2(2), of GPU_Q "''gpu''"])
  have "settled r s3" for r
  proof (cases r)
    case CPU_Q
    then show ?thesis using 1(3) 2(4) [rule_format, of CPU_Q] 3(4) [rule_format, of CPU_Q] by (simp add: settled_def)
  next
    case MEM_Q
    then show ?thesis using 2(3) 3(4) [rule_format, of MEM_Q] by (simp add: settled_def)
  next
    case GPU_Q
    then show ?thesis using 3(3) by simp
  qed
  then show ?thesis using that [of s3] 1(1) 2(1) 3(1,2) by (simp add: reserve_elements_def)
qed

lemma enqueue_jobs_settles:
  assumes "server_inv st"
  obtains st' where "enqueue_jobs st res job_id amount x = Some st'" "server_inv st'" "\<And>r. settled r st'"
proof -
  obtain q' where q': "enqueue_request (get_queue (resource_queue_of res) st) (make_request job_id x amount) = Some q'"
    "server_inv (set_queue (resource_queue_of res) q' st)"
    using enqueue_jobs_step [OF assms, of res job_id x amount] by blast
  show ?thesis
    by (rule reserve_elements_settles [OF q'(2)]) (use that q'(1) in \<open>simp add: enqueue_jobs_def Let_def\<close>)
qed

lemma release_client_by_fd_settles:
  assumes "server_inv st" "\<And>r. settled r st"
  obtains st' where "release_client_by_fd st x = Some st'" "server_inv st'" "\<And>r. settled r st'"
proof (cases "swept_by x (table_data (table_nodejobs st)) = []")
  case True
  then show ?thesis
    using that [of st] assms filter_nothing [OF True] by (simp add: release_client_by_fd_spec)
next
  case False
  show ?thesis
    by (rule reserve_elements_settles [OF reclaim_server_inv [OF assms(1), of x]])
      (use that False in \<open>simp add: release_client_by_fd_spec\<close>)
qed

end
