(* ===== verification/Pool_Safety.thy ===== *)
theory Pool_Safety
  imports Server_Pool
begin

text \<open>
  The signed reading of the pool. When every queued request asks for a non-negative amount,
  the free amounts stay non-negative, no 32-bit addition or subtraction of the server side
  overflows, and the free amount plus everything granted is the capacity as integers:
  the node never promises more than it has.
\<close>

section \<open>The signed invariant\<close>

definition entries_nonneg :: "agent \<Rightarrow> bool" where
  "entries_nonneg st \<longleftrightarrow> (\<forall>r. \<forall>j \<in> set (table_data (table_nodejobs st)). 0 \<le> sint (granted_of r j))"

definition pool_safe :: "(queue_id \<Rightarrow> int) \<Rightarrow> agent \<Rightarrow> bool" where
  "pool_safe cap st \<longleftrightarrow>
     server_inv st \<and> entries_nonneg st \<and>
     (\<forall>r. cap r < 2147483648 \<and> 0 \<le> sint (resources_left (get_queue r st)) \<and>
       sint (resources_left (get_queue r st)) + granted_sum r st = cap r \<and>
       (\<forall>q \<in> set (queue_list (get_queue r st)). 0 \<le> sint (rq_amount_requested q)))"

lemma server_inv_cong:
  assumes "table_nodejobs st = table_nodejobs st'" "\<And>r. get_queue r st = get_queue r st'"
  shows "server_inv st = server_inv st'" "pool_conserved cap st = pool_conserved cap st'"
    "pool_safe icap st = pool_safe icap st'"
  using assms
  by (simp_all add: server_inv_def pool_conserved_def pool_safe_def entries_nonneg_def granted_total_def granted_sum_def)

section \<open>Sums of signed readings\<close>

lemma sum_list_nonneg_int: "\<forall>x \<in> set xs. 0 \<le> f x \<Longrightarrow> 0 \<le> (sum_list (map f xs) :: int)"
  by (induction xs) auto

lemma member_le_sum_list_int:
  "\<forall>x \<in> set xs. 0 \<le> f x \<Longrightarrow> y \<in> set xs \<Longrightarrow> f y \<le> (sum_list (map f xs) :: int)"
proof (induction xs)
  case (Cons x xs)
  then show ?case using sum_list_nonneg_int [of xs f] by fastforce
qed simp

lemma sint_sum_list:
  assumes "\<forall>x \<in> set xs. 0 \<le> sint (f x :: cint)" "sum_list (map (\<lambda>x. sint (f x)) xs) < 2147483648"
  shows "sint (sum_list (map f xs)) = sum_list (map (\<lambda>x. sint (f x)) xs)"
  using assms
proof (induction xs)
  case (Cons x xs)
  have "0 \<le> sum_list (map (\<lambda>x. sint (f x)) xs)" using Cons.prems(1) by (intro sum_list_nonneg_int) simp
  then show ?case using Cons by (simp add: sint32_add)
qed simp

lemma greedy_signed:
  assumes "greedy left rs = (g, w, l)" "0 \<le> sint left" "\<forall>q \<in> set rs. 0 \<le> sint (rq_amount_requested q)"
  shows "sint l = sint left - sum_list (map (\<lambda>q. sint (rq_amount_requested q)) g) \<and> 0 \<le> sint l"
  using assms
proof (induction left rs arbitrary: g w l rule: greedy.induct)
  case (2 left r rs)
  show ?case
  proof (cases "rq_amount_requested r \<le>s left")
    case True
    obtain g1 w1 l1 where g1: "greedy (left - rq_amount_requested r) rs = (g1, w1, l1)"
      using prod_cases3 by blast
    have sub: "sint (left - rq_amount_requested r) = sint left - sint (rq_amount_requested r)"
      using True 2(4) by (intro sint32_sub_nonneg) simp_all
    moreover have "sint (rq_amount_requested r) \<le> sint left" using True by (simp add: word_sle_eq)
    ultimately have "sint l1 = sint (left - rq_amount_requested r) -
        sum_list (map (\<lambda>q. sint (rq_amount_requested q)) g1) \<and> 0 \<le> sint l1"
      using 2(1) [OF True g1] 2(4) by simp
    then show ?thesis using 2(2) True g1 sub by auto
  next
    case False
    then show ?thesis using 2 by auto
  qed
qed auto

section \<open>Recording grants\<close>

lemma record_granted_safe:
  assumes ok: "nodejobs_ok (table_nodejobs st)" and nn: "entries_nonneg st" "0 \<le> sint amount"
    and room: "granted_sum (resource_queue_of type) st + sint amount < 2147483648"
  shows "granted_sum r (record_granted st job_id x type amount) = granted_sum r st + (if r = resource_queue_of type then sint amount else 0)"
    and "entries_nonneg (record_granted st job_id x type amount)"
proof -
  have add: "sint (granted_of r (add_grant type amount x rj)) =
      sint (granted_of r rj) + (if r = resource_queue_of type then sint amount else 0)"
    if "rj \<in> set (table_data (table_nodejobs st)) \<or> sint (granted_of r rj) = 0" for rj r
  proof (cases "r = resource_queue_of type")
    case True
    have "sint (granted_of r rj) \<le> granted_sum r st"
      using that nn(1) member_le_sum_list_int [of "table_data (table_nodejobs st)" "\<lambda>j. sint (granted_of r j)" rj]
        sum_list_nonneg_int [of "table_data (table_nodejobs st)" "\<lambda>j. sint (granted_of r j)"]
      by (auto simp: entries_nonneg_def granted_sum_def)
    moreover have "0 \<le> sint (granted_of r rj)" using that nn(1) by (auto simp: entries_nonneg_def)
    ultimately show ?thesis using True room nn(2) by (simp add: sint32_add)
  qed simp
  have zero: "granted_of r (received_job_key i a b) = 0" for r i a b
    by (cases r) (simp_all add: received_job_key_def)
  show "granted_sum r (record_granted st job_id x type amount) = granted_sum r st + (if r = resource_queue_of type then sint amount else 0)"
    unfolding granted_sum_def
  proof (rule record_granted_sum(1) [OF ok])
    show "sint (granted_of r (received_job_key job_id (fst (peer_of st x)) (snd (peer_of st x)))) = 0"
      by (simp add: zero)
  qed (rule add)
  let ?base = "case table_map rj_key (table_nodejobs st) (job_id, peer_of st x) of
     Some e \<Rightarrow> e | None \<Rightarrow> received_job_key job_id (fst (peer_of st x)) (snd (peer_of st x))"
  have "?base \<in> set (table_data (table_nodejobs st)) \<or> (\<forall>r. sint (granted_of r ?base) = 0)"
    by (auto simp: zero dest: table_map_SomeD split: option.splits)
  then have "0 \<le> sint (granted_of r (add_grant type amount x ?base))" for r
    using add [of ?base r] nn by (auto simp: entries_nonneg_def)
  then show "entries_nonneg (record_granted st job_id x type amount)"
    using nn(1) nodejobs.insert_set [OF ok, of "add_grant type amount x ?base"]
    unfolding record_granted_insert [OF ok]
    by (auto simp: entries_nonneg_def copy_job_def)
qed

lemma granted_sum_frame [simp]:
  "granted_sum r (sys_send st x m) = granted_sum r st" "granted_sum r (set_queue q y st) = granted_sum r st"
  "entries_nonneg (sys_send st x m) = entries_nonneg st" "entries_nonneg (set_queue q y st) = entries_nonneg st"
  by (simp_all add: granted_sum_def entries_nonneg_def)

lemma grant_ready_safe:
  assumes "nodejobs_ok (table_nodejobs st)" "entries_nonneg st"
    and "\<forall>q \<in> set ready. 0 \<le> sint (rq_amount_requested q)"
    and "granted_sum (resource_queue_of type) st + sum_list (map (\<lambda>q. sint (rq_amount_requested q)) ready) < 2147483648"
  shows "granted_sum r (grant_ready type ready st) = granted_sum r st +
      (if r = resource_queue_of type then sum_list (map (\<lambda>q. sint (rq_amount_requested q)) ready) else 0) \<and>
    entries_nonneg (grant_ready type ready st)"
  using assms
proof (induction ready arbitrary: st)
  case (Cons req ready)
  let ?st = "grant_one type req st"
  have "0 \<le> sum_list (map (\<lambda>q. sint (rq_amount_requested q)) ready)"
    using Cons.prems(3) by (intro sum_list_nonneg_int) simp
  then have "granted_sum (resource_queue_of type) st + sint (rq_amount_requested req) < 2147483648"
    using Cons.prems(4) by simp
  note one = record_granted_safe [OF Cons.prems(1,2) _ this]
  have st: "granted_sum r ?st = granted_sum r st +
      (if r = resource_queue_of type then sint (rq_amount_requested req) else 0)" "entries_nonneg ?st"
    "nodejobs_ok (table_nodejobs ?st)" for r
    using one nodejobs_ok_record [OF Cons.prems(1)] Cons.prems(3) by (simp_all add: grant_one_def)
  then show ?case using Cons.IH [OF st(3,2)] Cons.prems(3,4) by simp
qed simp

section \<open>Every server operation keeps the pool safe\<close>

lemma drain_queue_safe:
  assumes safe: "pool_safe cap st"
  obtains st' where "drain_queue st q (queue_type q) = Some st'" "pool_safe cap st'"
proof -
  let ?q = "get_queue q st" and ?amt = "\<lambda>q. sint (rq_amount_requested q)"
  obtain g w l where gr: "greedy (resources_left ?q) (queue_list ?q) = (g, w, l)"
    using prod_cases3 by blast
  have inv: "queue_inv ?q" and ok: "nodejobs_ok (table_nodejobs st)"
    using safe by (simp_all add: pool_safe_def server_inv_def)
  from drain_queue_spec [OF inv gr, where type = "queue_type q"] obtain q' where
    q': "drain_queue st q (queue_type q) = Some (grant_ready (queue_type q) (rev g) (set_queue q q' st))"
      "queue_inv q'" "queue_list q' = w" "resources_left q' = l" by blast
  let ?st = "grant_ready (queue_type q) (rev g) (set_queue q q' st)"
  have "\<forall>x \<in> set (queue_list ?q). 0 \<le> ?amt x" using safe unfolding pool_safe_def by blast
  then have nn: "\<forall>x \<in> set (g @ w). 0 \<le> ?amt x" using greedy_split [OF gr] by simp
  have l: "sint l = sint (resources_left ?q) - sum_list (map ?amt g) \<and> 0 \<le> sint l"
    using safe nn greedy_split [OF gr] by (intro greedy_signed [OF gr]) (simp_all add: pool_safe_def)
  have rev: "sum_list (map ?amt (rev g)) = sum_list (map ?amt g)" by (simp add: rev_map [symmetric])
  have cap: "sint (resources_left ?q) + granted_sum q st = cap q" "cap q < 2147483648"
    using safe by (simp_all add: pool_safe_def)
  have "granted_sum r ?st = granted_sum r (set_queue q q' st) +
      (if r = resource_queue_of (queue_type q) then sum_list (map ?amt (rev g)) else 0) \<and> entries_nonneg ?st" for r
    using safe nn l cap ok
    by (intro grant_ready_safe) (simp_all add: rev, auto simp: pool_safe_def)
  moreover have "server_inv ?st"
    using safe grant_ready_total(1) [of "set_queue q q' st"] q'(2) ok
    by (auto simp: pool_safe_def server_inv_def)
  ultimately have "pool_safe cap ?st"
    using safe nn l q' cap by (auto simp: pool_safe_def rev)
  then show ?thesis using that q'(1) by blast
qed

lemma reserve_elements_safe:
  assumes "pool_safe cap st"
  obtains st' where "reserve_elements st = Some st'" "pool_safe cap st'"
proof -
  obtain s1 where s1: "drain_queue st CPU_Q ''cpu'' = Some s1" "pool_safe cap s1"
    using drain_queue_safe [OF assms, of CPU_Q] by auto
  obtain s2 where s2: "drain_queue s1 MEM_Q ''mem'' = Some s2" "pool_safe cap s2"
    using drain_queue_safe [OF s1(2), of MEM_Q] by auto
  obtain s3 where s3: "drain_queue s2 GPU_Q ''gpu'' = Some s3" "pool_safe cap s3"
    using drain_queue_safe [OF s2(2), of GPU_Q] by auto
  from s1 s2 s3 show ?thesis using that by (simp add: reserve_elements_def)
qed

lemma enqueue_jobs_safe:
  assumes safe: "pool_safe cap st" and nn: "0 \<le>s amount"
  obtains st' where "enqueue_jobs st res job_id amount x = Some st'" "pool_safe cap st'"
proof -
  have "server_inv st" using safe by (simp add: pool_safe_def)
  from enqueue_jobs_step [OF this, of res job_id x amount] obtain q' where
    q': "enqueue_request (get_queue (resource_queue_of res) st) (make_request job_id x amount) = Some q'"
    "server_inv (set_queue (resource_queue_of res) q' st)"
    "queue_list q' = queue_list (get_queue (resource_queue_of res) st) @ [make_request job_id x amount]"
    "resources_left q' = resources_left (get_queue (resource_queue_of res) st)" by metis
  have "pool_safe cap (set_queue (resource_queue_of res) q' st)"
    using safe q' nn by (auto simp: pool_safe_def make_request_def word_sle_eq)
  from reserve_elements_safe [OF this] show ?thesis
    using that q'(1) by (auto simp: enqueue_jobs_def Let_def)
qed

lemma sint_reclaimed:
  assumes nn: "entries_nonneg st" and room: "granted_sum r st < 2147483648"
  shows "sint (reclaimed st x r) = granted_sum r st - granted_sum r (reclaim st x)"
    "0 \<le> sint (reclaimed st x r)" "0 \<le> granted_sum r (reclaim st x)"
proof -
  let ?swept = "sum_list (map (\<lambda>j. sint (granted_of r j)) (swept_by x (table_data (table_nodejobs st))))"
  have sum: "granted_sum r (reclaim st x) + ?swept = granted_sum r st"
    unfolding granted_sum_def by (rule reclaim_sum)
  have pos: "0 \<le> granted_sum r (reclaim st x)" "0 \<le> ?swept"
    using nn by (auto simp: entries_nonneg_def granted_sum_def swept_by_def intro!: sum_list_nonneg_int)
  have "sint (reclaimed st x r) = ?swept"
    unfolding reclaimed_def using nn sum pos room
    by (intro sint_sum_list) (auto simp: entries_nonneg_def swept_by_def)
  then show "sint (reclaimed st x r) = granted_sum r st - granted_sum r (reclaim st x)"
    "0 \<le> sint (reclaimed st x r)" "0 \<le> granted_sum r (reclaim st x)"
    using sum pos by simp_all
qed

lemma reclaim_safe:
  assumes safe: "pool_safe cap st"
  shows "pool_safe cap (reclaim st x)"
proof -
  have nn: "entries_nonneg st"
    and c: "0 \<le> sint (resources_left (get_queue r st))"
      "sint (resources_left (get_queue r st)) + granted_sum r st = cap r" "cap r < 2147483648" for r
    using safe by (auto simp: pool_safe_def)
  have ret: "sint (reclaimed st x r) = granted_sum r st - granted_sum r (reclaim st x)"
    "0 \<le> sint (reclaimed st x r)" "0 \<le> granted_sum r (reclaim st x)" for r
    using sint_reclaimed [OF nn, of r x] c [of r] by simp_all
  have "sint (resources_left (get_queue r st) + reclaimed st x r) =
      sint (resources_left (get_queue r st)) + sint (reclaimed st x r)" for r
    using ret [of r] c [of r] by (intro sint32_add) simp_all
  then show ?thesis
    using safe ret c reclaim_server_inv [of st x]
    by (auto simp: pool_safe_def entries_nonneg_def)
qed

lemma release_client_by_fd_safe:
  assumes safe: "pool_safe cap st"
  obtains st' where "release_client_by_fd st x = Some st'" "pool_safe cap st'"
proof (cases "swept_by x (table_data (table_nodejobs st)) = []")
  case True
  then have "release_client_by_fd st x = Some st"
    using filter_nothing [OF True] by (simp add: release_client_by_fd_spec)
  then show ?thesis using that safe by blast
next
  case False
  from reserve_elements_safe [OF reclaim_safe [OF safe]] show ?thesis
    using that False by (auto simp: release_client_by_fd_spec)
qed

end
