(* ===== verification/Client_Safety.thy ===== *)
theory Client_Safety
  imports Agent_Loop Pool_Safety
begin

text \<open>
  Memory safety of the client side. Two tables point to the same heap-allocated job: the
  owner table \<open>table_localjobs\<close> and the descriptor index \<open>table_ourjobs\<close>. The invariant
  \<open>client_inv\<close> says that every pointer of the index leads to a live job that is waiting on
  that very descriptor. Every handler keeps it and never reads through a dangling pointer,
  with one exception that is its hypothesis: a \<open>JOB_REQUEST\<close> must not reuse the id of a job
  that is still live, since inserting it frees that job.
\<close>

section \<open>The invariant\<close>

definition index_sound :: "local_job_t list \<Rightarrow> fd_job_entry list \<Rightarrow> bool" where
  "index_sound jobs es \<longleftrightarrow>
     (\<forall>e \<in> set es. 0 \<le>s entry_fd e \<and>
       (\<exists>j \<in> set jobs. lj_self j = entry_job e \<and> lj_origin_socket j = entry_fd e \<and> lj_next_req j \<noteq> []))"

definition client_inv :: "agent \<Rightarrow> bool" where
  "client_inv st \<longleftrightarrow>
     localjobs_ok (table_localjobs st) \<and> ourjobs_ok (table_ourjobs st) \<and>
     distinct (map lj_self (table_data (table_localjobs st))) \<and>
     (\<forall>j \<in> set (table_data (table_localjobs st)). lj_self j < fresh_job st) \<and>
     index_sound (table_data (table_localjobs st)) (table_data (table_ourjobs st))"

lemma client_invI:
  assumes "localjobs_ok (table_localjobs st)" "ourjobs_ok (table_ourjobs st)"
    "distinct (map lj_self (table_data (table_localjobs st)))"
    "\<And>j. j \<in> set (table_data (table_localjobs st)) \<Longrightarrow> lj_self j < fresh_job st"
    "index_sound (table_data (table_localjobs st)) (table_data (table_ourjobs st))"
  shows "client_inv st"
  using assms by (simp add: client_inv_def)

lemma client_invD:
  assumes "client_inv st"
  shows "localjobs_ok (table_localjobs st)" "ourjobs_ok (table_ourjobs st)"
    "distinct (map lj_self (table_data (table_localjobs st)))"
    "j \<in> set (table_data (table_localjobs st)) \<Longrightarrow> lj_self j < fresh_job st"
    "index_sound (table_data (table_localjobs st)) (table_data (table_ourjobs st))"
  using assms by (simp_all add: client_inv_def)

section \<open>Pointers\<close>

lemma find_unique:
  assumes "distinct (map f xs)" "x \<in> set xs"
  shows "find (\<lambda>y. f y = f x) xs = Some x"
  using assms by (induction xs) (auto simp: rev_image_eqI)

lemma deref_live:
  assumes "client_inv st" "j \<in> set (table_data (table_localjobs st))"
  shows "deref_job st (lj_self j) = Some j"
  unfolding deref_job_def using assms by (intro find_unique) (simp_all add: client_inv_def)

lemma deref_jobD:
  "deref_job st a = Some j \<Longrightarrow> j \<in> set (table_data (table_localjobs st)) \<and> lj_self j = a"
  by (auto simp: deref_job_def find_Some_iff)

lemma index_deref:
  assumes inv: "client_inv st" and found: "tablahash_find (table_ourjobs st) (fd_key x) = Some e"
  obtains j where "deref_job st (entry_job e) = Some j" "lj_self j = entry_job e" "lj_origin_socket j = x"
    "entry_fd e = x" "0 \<le>s x" "lj_next_req j \<noteq> []" "j \<in> set (table_data (table_localjobs st))"
proof -
  have ok: "ourjobs_ok (table_ourjobs st)" using inv by (simp add: client_inv_def)
  have e: "e \<in> set (table_data (table_ourjobs st))" "entry_fd e = x"
    using found table_map_SomeD [of entry_fd "table_ourjobs st" x e] by (simp_all add: ourjobs.find_map [OF ok])
  then obtain j where "j \<in> set (table_data (table_localjobs st))" "lj_self j = entry_job e"
    "lj_origin_socket j = entry_fd e" "lj_next_req j \<noteq> []" "0 \<le>s entry_fd e"
    using inv by (auto simp: client_inv_def index_sound_def)
  then show ?thesis using that e(2) deref_live [OF inv] by metis
qed

section \<open>Frames\<close>

lemma client_inv_cong:
  assumes "table_localjobs st = table_localjobs st'" "table_ourjobs st = table_ourjobs st'"
    "fresh_job st = fresh_job st'"
  shows "client_inv st = client_inv st'"
  using assms by (simp add: client_inv_def)

text \<open>What \<open>release_resources\<close> changes: the sockets, and the granted list of its job.\<close>

lemma release_step_shape:
  "sys_close (epoll_ctl_del (sys_send st x m) y) y =
     st\<lparr>sent := sent (sys_send st x m), open_fds := open_fds st - {y}, epoll_set := (epoll_set st)(y := None)\<rparr>"
  by (simp add: sys_send_def sys_close_def epoll_ctl_del_def)

lemma release_loop_shape:
  "\<exists>s o' e. fst (release_loop i gs st) = st\<lparr>sent := s, open_fds := o', epoll_set := e\<rparr>"
proof (induction gs arbitrary: st)
  case Nil
  show ?case
    by (rule exI [of _ "sent st"], rule exI [of _ "open_fds st"], rule exI [of _ "epoll_set st"]) simp
next
  case (Cons g gs)
  let ?st2 = "sys_close (epoll_ctl_del (sys_send st (pr_provider_fd g) (release_text i g)) (pr_provider_fd g)) (pr_provider_fd g)"
  obtain s o' e where "fst (release_loop i gs ?st2) = ?st2\<lparr>sent := s, open_fds := o', epoll_set := e\<rparr>"
    using Cons.IH [of ?st2] by blast
  then have "fst (release_loop i gs ?st2) = st\<lparr>sent := s, open_fds := o', epoll_set := e\<rparr>"
    unfolding release_step_shape by simp
  moreover have "fst (release_loop i (g # gs) st) =
      (if 0 \<le>s pr_provider_fd g then fst (release_loop i gs ?st2) else fst (release_loop i gs st))"
    by (simp add: Let_def split: prod.split)
  ultimately show ?case using Cons.IH [of st] by (cases "0 \<le>s pr_provider_fd g") (simp, blast, simp)
qed

lemma release_loop_frame:
  assumes "release_loop i gs st = (st', gs')"
  shows "table_localjobs st' = table_localjobs st" "table_ourjobs st' = table_ourjobs st"
    "table_nodejobs st' = table_nodejobs st" "table_nodes st' = table_nodes st"
    "get_queue r st' = get_queue r st" "fresh_job st' = fresh_job st" "erlangfd st' = erlangfd st"
proof -
  obtain s o' e where "st' = st\<lparr>sent := s, open_fds := o', epoll_set := e\<rparr>"
    using release_loop_shape [of i gs st] assms by auto
  then show "table_localjobs st' = table_localjobs st" "table_ourjobs st' = table_ourjobs st"
    "table_nodejobs st' = table_nodejobs st" "table_nodes st' = table_nodes st"
    "get_queue r st' = get_queue r st" "fresh_job st' = fresh_job st" "erlangfd st' = erlangfd st"
    by (simp_all, cases r, simp_all)
qed

lemma write_job_data [simp]:
  "table_data (table_localjobs (write_job st a f)) =
     map (\<lambda>j. if lj_self j = a then f j else j) (table_data (table_localjobs st))"
  by (simp add: write_job_def)

lemma write_job_ok:
  assumes "localjobs_ok (table_localjobs st)" "\<And>j. lj_job_id (f j) = lj_job_id j"
  shows "localjobs_ok (table_localjobs (write_job st a f))"
  using assms by (auto simp: write_job_def func_hash_localjob_def intro: table_modify_ok)

lemma write_job_selfs:
  assumes "\<And>j. lj_self (f j) = lj_self j"
  shows "map lj_self (table_data (table_localjobs (write_job st a f))) = map lj_self (table_data (table_localjobs st))"
  using assms by simp

lemma write_job_client_inv:
  assumes inv: "client_inv st" and keep: "\<And>j. lj_job_id (f j) = lj_job_id j" "\<And>j. lj_self (f j) = lj_self j"
    and idx: "\<And>j e. j \<in> set (table_data (table_localjobs st)) \<Longrightarrow> e \<in> set (table_data (table_ourjobs st)) \<Longrightarrow>
      lj_self j = a \<Longrightarrow> entry_job e = a \<Longrightarrow> lj_next_req j \<noteq> [] \<Longrightarrow>
      lj_origin_socket (f j) = lj_origin_socket j \<and> lj_next_req (f j) \<noteq> []"
  shows "client_inv (write_job st a f)"
proof -
  have "index_sound (table_data (table_localjobs (write_job st a f))) (table_data (table_ourjobs st))"
    unfolding index_sound_def
  proof
    fix e assume e: "e \<in> set (table_data (table_ourjobs st))"
    then obtain j where j: "j \<in> set (table_data (table_localjobs st))" "lj_self j = entry_job e"
      "lj_origin_socket j = entry_fd e" "lj_next_req j \<noteq> []" "0 \<le>s entry_fd e"
      using inv by (auto simp: client_inv_def index_sound_def)
    let ?j = "if lj_self j = a then f j else j"
    have "lj_self ?j = entry_job e \<and> lj_origin_socket ?j = entry_fd e \<and> lj_next_req ?j \<noteq> []"
      using j e keep idx by auto
    moreover have "?j \<in> set (table_data (table_localjobs (write_job st a f)))" using j(1) by auto
    ultimately show "0 \<le>s entry_fd e \<and> (\<exists>j \<in> set (table_data (table_localjobs (write_job st a f))).
        lj_self j = entry_job e \<and> lj_origin_socket j = entry_fd e \<and> lj_next_req j \<noteq> [])"
      using j(5) by blast
  qed
  moreover have selfs: "map lj_self (table_data (table_localjobs (write_job st a f))) =
      map lj_self (table_data (table_localjobs st))"
    using keep(2) by (rule write_job_selfs)
  moreover have "localjobs_ok (table_localjobs (write_job st a f))"
    using client_invD(1) [OF inv] keep(1) by (rule write_job_ok)
  moreover have "lj_self j < fresh_job st" if "j \<in> set (table_data (table_localjobs (write_job st a f)))" for j
  proof -
    have "lj_self j \<in> set (map lj_self (table_data (table_localjobs st)))"
      using that unfolding selfs [symmetric] set_map by (rule imageI)
    then show ?thesis using client_invD(4) [OF inv] by auto
  qed
  moreover have "distinct (map lj_self (table_data (table_localjobs (write_job st a f))))"
    unfolding selfs by (rule client_invD(3) [OF inv])
  ultimately show ?thesis
    using client_invD(2) [OF inv] by (intro client_invI) (simp_all only: write_job_frame)
qed

section \<open>The building blocks of the handlers\<close>

definition unindexed :: "agent \<Rightarrow> address \<Rightarrow> bool" where
  "unindexed st a \<longleftrightarrow> (\<forall>e \<in> set (table_data (table_ourjobs st)). entry_job e \<noteq> a)"

definition live_job :: "agent \<Rightarrow> local_job_t \<Rightarrow> bool" where
  "live_job st j \<longleftrightarrow> j \<in> set (table_data (table_localjobs st))"

text \<open>Dropping the index entry of a descriptor leaves the job that waited on it unindexed.\<close>

lemma remove_index_client_inv:
  assumes inv: "client_inv st"
  shows "client_inv (st\<lparr>table_ourjobs := tablahash_remove_lock (table_ourjobs st) k\<rparr>)"
  using inv ourjobs.remove_set [OF client_invD(2) [OF inv], of k]
    ourjobs.remove_ok [OF client_invD(2) [OF inv], of k]
  by (auto simp: client_inv_def index_sound_def tablahash_remove_lock_def)

lemma remove_index_unindexed:
  assumes inv: "client_inv st" and j: "live_job st j" "lj_origin_socket j = x"
  shows "unindexed (st\<lparr>table_ourjobs := tablahash_remove_lock (table_ourjobs st) (fd_key x)\<rparr>) (lj_self j)"
proof -
  have "entry_fd e = x" if e: "e \<in> set (table_data (table_ourjobs st))" "entry_job e = lj_self j" for e
  proof -
    obtain j' where j': "j' \<in> set (table_data (table_localjobs st))" "lj_self j' = lj_self j" "lj_origin_socket j' = entry_fd e"
      using e client_invD(5) [OF inv] by (auto simp: index_sound_def)
    have "j' = j" using deref_live [OF inv j'(1)] deref_live [OF inv, of j] j j'(2) by (simp add: live_job_def)
    then show ?thesis using j' j by simp
  qed
  then show ?thesis
    using ourjobs.remove_set [OF client_invD(2) [OF inv], of "fd_key x"]
    by (auto simp: unindexed_def tablahash_remove_lock_def)
qed

text \<open>Freeing a job nobody points to.\<close>

lemma remove_job_client_inv:
  assumes inv: "client_inv st" and un: "unindexed st a"
    and key: "\<And>j. live_job st j \<Longrightarrow> lj_job_id j = lj_job_id k \<Longrightarrow> lj_self j = a"
  shows "client_inv (st\<lparr>table_localjobs := tablahash_remove_lock (table_localjobs st) k\<rparr>)"
proof -
  let ?t = "table_localjobs st"
  note ok = client_invD(1) [OF inv]
  have set: "set (table_data (tablahash_remove ?t k)) = {x \<in> set (table_data ?t). lj_job_id x \<noteq> lj_job_id k}"
    by (rule localjobs.remove_set [OF ok])
  have d: "distinct (map lj_self (table_data (tablahash_remove ?t k)))"
    using ok
  proof (cases rule: localjobs.remove_mset [of ?t k])
    case absent
    then show ?thesis using client_invD(3) [OF inv] by simp
  next
    case (present e)
    then show ?thesis
      using client_invD(3) [OF inv] distinct_map_mset_cong [OF present(2), of lj_self] by simp
  qed
  have "index_sound (table_data (tablahash_remove ?t k)) (table_data (table_ourjobs st))"
    unfolding index_sound_def
  proof
    fix e assume e: "e \<in> set (table_data (table_ourjobs st))"
    then obtain j where j: "j \<in> set (table_data ?t)" "lj_self j = entry_job e"
      "lj_origin_socket j = entry_fd e" "lj_next_req j \<noteq> []" "0 \<le>s entry_fd e"
      using client_invD(5) [OF inv] by (auto simp: index_sound_def)
    then have "lj_job_id j \<noteq> lj_job_id k" using un e key by (auto simp: unindexed_def live_job_def)
    then have "j \<in> set (table_data (tablahash_remove ?t k))" using j set by simp
    then show "0 \<le>s entry_fd e \<and> (\<exists>j \<in> set (table_data (tablahash_remove ?t k)).
        lj_self j = entry_job e \<and> lj_origin_socket j = entry_fd e \<and> lj_next_req j \<noteq> [])"
      using j by blast
  qed
  then show ?thesis
    using localjobs.remove_ok [OF ok, of k] client_invD(2,4) [OF inv] d set
    by (auto simp: client_inv_def tablahash_remove_lock_def)
qed

lemma release_resources_shape:
  assumes j: "deref_job st a = Some job"
  obtains s o' e gs where "release_resources st a =
    Some (write_job (st\<lparr>sent := s, open_fds := o', epoll_set := e\<rparr>) a (\<lambda>j. j\<lparr>lj_granted_reqs := gs\<rparr>))"
proof -
  obtain st' gs where l: "release_loop (lj_job_id job) (lj_granted_reqs job) st = (st', gs)" by fastforce
  obtain s o' e where "st' = st\<lparr>sent := s, open_fds := o', epoll_set := e\<rparr>"
    using release_loop_shape [of "lj_job_id job" "lj_granted_reqs job" st] l by auto
  then show ?thesis using that j l by (simp add: release_resources_def)
qed

text \<open>Releasing the resources of a live job and then freeing it.\<close>

definition retire_job :: "agent \<Rightarrow> agent \<Rightarrow> address \<Rightarrow> bool" where
  "retire_job st st' a \<longleftrightarrow>
     client_inv st' \<and> table_ourjobs st' = table_ourjobs st \<and> table_nodejobs st' = table_nodejobs st \<and>
     table_nodes st' = table_nodes st \<and> (\<forall>r. get_queue r st' = get_queue r st) \<and>
     erlangfd st' = erlangfd st \<and> fresh_job st' = fresh_job st \<and>
     (\<forall>j. live_job st' j \<longleftrightarrow> live_job st j \<and> lj_self j \<noteq> a)"

lemma release_and_free:
  assumes inv: "client_inv st" and un: "unindexed st a" and j: "live_job st j" "lj_self j = a"
    and k: "lj_job_id k = lj_job_id j"
  obtains st2 where "release_resources st a = Some st2"
    "retire_job st (st2\<lparr>table_localjobs := tablahash_remove_lock (table_localjobs st2) k\<rparr>) a"
    "retire_job st ((C_to_erlang st2 i s)\<lparr>table_localjobs := tablahash_remove_lock (table_localjobs (C_to_erlang st2 i s)) k\<rparr>) a"
proof -
  have d: "deref_job st a = Some j" using deref_live [OF inv, of j] j by (simp add: live_job_def)
  obtain s' o' e gs where r: "release_resources st a =
      Some (write_job (st\<lparr>sent := s', open_fds := o', epoll_set := e\<rparr>) a (\<lambda>j. j\<lparr>lj_granted_reqs := gs\<rparr>))"
    by (rule release_resources_shape [OF d])
  let ?st1 = "st\<lparr>sent := s', open_fds := o', epoll_set := e\<rparr>"
  define st2 where "st2 = write_job ?st1 a (\<lambda>j. j\<lparr>lj_granted_reqs := gs\<rparr>)"
  have inv1: "client_inv ?st1" using inv by (simp add: client_inv_def)
  have inv2: "client_inv st2" unfolding st2_def by (rule write_job_client_inv [OF inv1]) simp_all
  have un2: "unindexed st2 a" using un by (simp add: st2_def unindexed_def)
  have data2: "table_data (table_localjobs st2) =
      map (\<lambda>j. if lj_self j = a then j\<lparr>lj_granted_reqs := gs\<rparr> else j) (table_data (table_localjobs st))"
    by (simp add: st2_def)
  have ids: "inj_on lj_job_id (set (table_data (table_localjobs st)))"
    using localjobs.ok_facts(7) [OF client_invD(1) [OF inv]] by (simp add: distinct_map)
  have selfs: "inj_on lj_self (set (table_data (table_localjobs st)))"
    using client_invD(3) [OF inv] by (simp add: distinct_map)
  have key: "lj_self x = a \<longleftrightarrow> lj_job_id x = lj_job_id k" if "x \<in> set (table_data (table_localjobs st))" for x
    using that j k ids selfs by (metis inj_onD live_job_def)
  have key2: "lj_self x = a \<longleftrightarrow> lj_job_id x = lj_job_id k" if "live_job st2 x" for x
    using that key by (auto simp: live_job_def data2 split: if_splits)
  let ?t = "table_localjobs st2"
  have set: "set (table_data (tablahash_remove_lock ?t k)) = {x \<in> set (table_data (table_localjobs st)). lj_self x \<noteq> a}"
    using localjobs.remove_set [OF client_invD(1) [OF inv2], of k] key
    by (auto simp: tablahash_remove_lock_def data2)
  have rel: "retire_job st (st3\<lparr>table_localjobs := tablahash_remove_lock ?t k\<rparr>) a"
    if fr: "table_localjobs st3 = ?t" "table_ourjobs st3 = table_ourjobs st" "fresh_job st3 = fresh_job st"
      "table_nodejobs st3 = table_nodejobs st" "table_nodes st3 = table_nodes st"
      "\<And>r. get_queue r st3 = get_queue r st" "erlangfd st3 = erlangfd st" for st3
  proof -
    have "client_inv st3" using inv2 fr by (simp add: client_inv_def st2_def)
    moreover have "unindexed st3 a" using un fr by (simp add: unindexed_def)
    ultimately have "client_inv (st3\<lparr>table_localjobs := tablahash_remove_lock (table_localjobs st3) k\<rparr>)"
      using key2 fr by (intro remove_job_client_inv) (auto simp: live_job_def)
    moreover have "get_queue r (st3\<lparr>table_localjobs := tablahash_remove_lock ?t k\<rparr>) = get_queue r st" for r
      using fr(6) [of r] by (cases r) simp_all
    ultimately show ?thesis using fr set by (simp add: retire_job_def live_job_def)
  qed
  have q: "get_queue r st2 = get_queue r st" for r by (cases r) (simp_all add: st2_def)
  show ?thesis
  proof (rule that)
    show "release_resources st a = Some st2" using r by (simp add: st2_def)
    show "retire_job st (st2\<lparr>table_localjobs := tablahash_remove_lock ?t k\<rparr>) a"
      by (rule rel) (simp_all add: q, simp_all add: st2_def)
    show "retire_job st ((C_to_erlang st2 i s)\<lparr>table_localjobs := tablahash_remove_lock (table_localjobs (C_to_erlang st2 i s)) k\<rparr>) a"
      unfolding C_to_erlang_frame by (rule rel) (simp_all add: q, simp_all add: st2_def)
  qed
qed

text \<open>
  What a client-side handler may change: not the server side, and of the live jobs only
  that some go away and that the ids in \<open>A\<close> may appear.
\<close>

definition live_ids :: "agent \<Rightarrow> cint set" where
  "live_ids st = lj_job_id ` set (table_data (table_localjobs st))"

definition client_frame :: "cint set \<Rightarrow> agent \<Rightarrow> agent \<Rightarrow> bool" where
  "client_frame A st st' \<longleftrightarrow>
     table_nodejobs st' = table_nodejobs st \<and> table_nodes st' = table_nodes st \<and>
     (\<forall>r. get_queue r st' = get_queue r st) \<and> erlangfd st' = erlangfd st \<and>
     live_ids st' \<subseteq> live_ids st \<union> A"

lemma client_frame_refl [simp]: "client_frame A st st"
  by (auto simp: client_frame_def)

lemma client_frame_trans: "client_frame A st st1 \<Longrightarrow> client_frame A st1 st2 \<Longrightarrow> client_frame A st st2"
  by (auto simp: client_frame_def)

lemma client_frame_mono: "client_frame A st st' \<Longrightarrow> A \<subseteq> B \<Longrightarrow> client_frame B st st'"
  by (auto simp: client_frame_def)

lemma live_ids_cong: "table_localjobs st' = table_localjobs st \<Longrightarrow> live_ids st' = live_ids st"
  by (simp add: live_ids_def)

lemma get_queue_update [simp]:
  "get_queue r (st\<lparr>table_localjobs := t\<rparr>) = get_queue r st"
  "get_queue r (st\<lparr>table_ourjobs := u\<rparr>) = get_queue r st"
  "get_queue r (st\<lparr>open_fds := o'\<rparr>) = get_queue r st"
  "get_queue r (st\<lparr>connects := c\<rparr>) = get_queue r st"
  "get_queue r (st\<lparr>os_outbound := obs\<rparr>) = get_queue r st"
  "get_queue r (st\<lparr>fresh_job := n\<rparr>) = get_queue r st"
  "get_queue r (st\<lparr>erlangfd := f\<rparr>) = get_queue r st"
  "get_queue r (st\<lparr>table_nodes := m\<rparr>) = get_queue r st"
  "get_queue r (st\<lparr>timer_specs := ts\<rparr>) = get_queue r st"
  "get_queue r (st\<lparr>bound := bs\<rparr>) = get_queue r st"
  "get_queue r (st\<lparr>os_peername := ps\<rparr>) = get_queue r st"
  by (cases r; simp)+

lemma retire_same: "retire_job st st' a \<Longrightarrow> client_frame A st st'"
  by (auto simp: retire_job_def client_frame_def live_ids_def live_job_def)

lemma teardown_outbound_spec:
  assumes inv: "client_inv st" and j: "live_job st job"
  shows "client_inv (teardown_outbound st job)" "unindexed (teardown_outbound st job) (lj_self job)"
    "table_localjobs (teardown_outbound st job) = table_localjobs st"
    "client_frame A st (teardown_outbound st job)"
proof -
  let ?x = "lj_origin_socket job"
  let ?st1 = "st\<lparr>table_ourjobs := tablahash_remove_lock (table_ourjobs st) (fd_key ?x)\<rparr>"
  let ?c = "0 \<le>s ?x \<and> tablahash_find (table_ourjobs st) (fd_key ?x) \<noteq> None"
  have frames: "client_inv (sys_close (epoll_ctl_del ?st1 ?x) ?x) = client_inv ?st1"
    "unindexed (sys_close (epoll_ctl_del ?st1 ?x) ?x) a = unindexed ?st1 a" for a
    by (rule client_inv_cong) (simp_all add: unindexed_def)
  have absent: "unindexed st (lj_self job)" if c: "\<not> ?c"
    unfolding unindexed_def
  proof
    fix e assume e: "e \<in> set (table_data (table_ourjobs st))"
    show "entry_job e \<noteq> lj_self job"
    proof
      assume s: "entry_job e = lj_self job"
      obtain j' where j': "j' \<in> set (table_data (table_localjobs st))" "lj_self j' = entry_job e"
        "lj_origin_socket j' = entry_fd e" "0 \<le>s entry_fd e"
        using e client_invD(5) [OF inv] by (auto simp: index_sound_def)
      have "j' = job" using deref_live [OF inv j'(1)] deref_live [OF inv, of job] j j'(2) s by (simp add: live_job_def)
      then have "entry_fd e = ?x" "0 \<le>s ?x" using j' by simp_all
      moreover have "tablahash_find (table_ourjobs st) (fd_key ?x) \<noteq> None"
        using ourjobs.find_map [OF client_invD(2) [OF inv], of "fd_key ?x"] e \<open>entry_fd e = ?x\<close>
          table_map_NoneD [of entry_fd "table_ourjobs st" ?x e] by auto
      ultimately show False using c by blast
    qed
  qed
  show "client_inv (teardown_outbound st job)"
    using inv remove_index_client_inv [OF inv] frames(1) by (simp add: teardown_outbound_def)
  show "unindexed (teardown_outbound st job) (lj_self job)"
    using remove_index_unindexed [OF inv j refl] frames(2) absent by (simp add: teardown_outbound_def)
  show "table_localjobs (teardown_outbound st job) = table_localjobs st"
    by (simp add: teardown_outbound_def)
  show "client_frame A st (teardown_outbound st job)"
    by (simp add: teardown_outbound_def client_frame_def live_ids_def)
qed

section \<open>The handlers never follow a dangling pointer\<close>

text \<open>\<open>client_step A st r\<close>: the handler returned, kept the invariant and stayed in its frame.\<close>

definition client_step :: "cint set \<Rightarrow> agent \<Rightarrow> agent option \<Rightarrow> bool" where
  "client_step A st r \<longleftrightarrow> (case r of None \<Rightarrow> False | Some st' \<Rightarrow> client_inv st' \<and> client_frame A st st')"

lemma client_step_Some [simp]: "client_step A st (Some st') \<longleftrightarrow> client_inv st' \<and> client_frame A st st'"
  by (simp add: client_step_def)

lemma client_stepE:
  assumes "client_step A st r"
  obtains st' where "r = Some st'" "client_inv st'" "client_frame A st st'"
  using assms by (cases r) (auto simp: client_step_def)

lemma client_step_trans: "client_frame A st st1 \<Longrightarrow> client_step A st1 r \<Longrightarrow> client_step A st r"
  by (cases r) (auto simp: client_step_def intro: client_frame_trans)

lemma index_job:
  assumes inv: "client_inv st" and j: "live_job st job" "lj_next_req job \<noteq> []" "0 \<le>s x"
    and un: "unindexed st (lj_self job)"
    and st3: "st3 = (write_job st (lj_self job) (\<lambda>j. j\<lparr>lj_origin_socket := x\<rparr>))
      \<lparr>table_ourjobs := tablahash_insert (table_ourjobs st) \<lparr>entry_fd = x, entry_job = lj_self job\<rparr>\<rparr>"
  shows "client_inv st3"
proof -
  let ?a = "lj_self job" and ?f = "\<lambda>j. j\<lparr>lj_origin_socket := x\<rparr>"
  let ?e = "\<lparr>entry_fd = x, entry_job = lj_self job\<rparr>"
  define st2 where "st2 = write_job st ?a ?f"
  have inv2: "client_inv st2" unfolding st2_def
    by (rule write_job_client_inv [OF inv]) (use un in \<open>auto simp: unindexed_def\<close>)
  have "?f job \<in> set (table_data (table_localjobs st2))"
    using j(1) by (force simp: st2_def live_job_def)
  then have "index_sound (table_data (table_localjobs st2)) [?e]"
    using j(2,3) by (auto simp: index_sound_def intro: bexI [of _ "?f job"])
  then have "index_sound (table_data (table_localjobs st2)) (table_data (tablahash_insert (table_ourjobs st) ?e))"
    using client_invD(5) [OF inv2] ourjobs.insert_set [OF client_invD(2) [OF inv], of ?e]
    by (simp add: index_sound_def copy_fd_def st2_def del: write_job_data)
  then show ?thesis
    using inv2 ourjobs.insert_ok [OF client_invD(2) [OF inv], of ?e]
    by (simp add: st3 client_inv_def st2_def [symmetric])
qed

lemma ask_for_next_resource_step:
  assumes inv: "client_inv st" and j: "live_job st job" and un: "unindexed st (lj_self job)"
  shows "client_step A st (ask_for_next_resource st (lj_self job))"
proof -
  let ?a = "lj_self job"
  have d: "deref_job st ?a = Some job" using deref_live [OF inv, of job] j by (simp add: live_job_def)
  show ?thesis
  proof (cases "lj_next_req job")
    case Nil
    then show ?thesis
      using d inv client_inv_cong [of st "C_to_erlang st ''granted'' (id_str (lj_job_id job))"]
      by (simp add: ask_for_next_resource_def client_frame_def live_ids_def)
  next
    case (Cons req rest)
    show ?thesis
    proof (cases "os_outbound st")
      case Nil
      then show ?thesis using d Cons inv by (simp add: ask_for_next_resource_def)
    next
      case out: (Cons ob obs)
      let ?x = "ob_fd ob"
      define st1 where "st1 = st\<lparr>os_outbound := obs, open_fds := insert ?x (open_fds st),
        os_peername := (os_peername st)(?x \<mapsto> dest_addr (st\<lparr>os_outbound := obs\<rparr>) req),
        connects := connects st @ [(?x, pr_dest_ip req, pr_dest_port req)]\<rparr>"
      have inv1: "client_inv st1" "live_job st1 job" "unindexed st1 ?a" "client_frame A st st1"
        using inv j un by (simp_all add: st1_def client_inv_def live_job_def unindexed_def client_frame_def live_ids_def)
      define st3 where "st3 = (write_job st1 ?a (\<lambda>j. j\<lparr>lj_origin_socket := ?x\<rparr>))
        \<lparr>table_ourjobs := tablahash_insert (table_ourjobs st1) \<lparr>entry_fd = ?x, entry_job = ?a\<rparr>\<rparr>"
      have inv3: "client_inv st3" if "\<not> ?x <s 0"
        by (rule index_job [OF inv1(1,2) _ _ inv1(3) st3_def]) (use that Cons in \<open>simp_all add: signed.not_less\<close>)
      have same3: "client_frame A st st3" by (auto simp: st3_def st1_def client_frame_def live_ids_def)
      have r: "ask_for_next_resource st ?a =
        (if ?x <s 0 then Some (st\<lparr>os_outbound := obs\<rparr>)
         else if \<not> ob_connect_ok ob then Some (sys_close st1 ?x)
         else if ob_epoll_ok ob then Some (epoll_ctl_add st3 ?x reg_out_oneshot)
         else Some (sys_close (st3\<lparr>table_ourjobs := tablahash_remove_lock (table_ourjobs st3)
           \<lparr>entry_fd = ?x, entry_job = ?a\<rparr>\<rparr>) ?x))"
        using d Cons out by (simp add: ask_for_next_resource_def Let_def st1_def st3_def)
      have c: "client_inv (st\<lparr>os_outbound := obs\<rparr>)" "client_inv (sys_close st1 ?x)"
        using inv inv1(1) by (simp_all add: client_inv_def)
      have c3: "client_inv (epoll_ctl_add st3 ?x reg_out_oneshot)"
        "client_inv (sys_close (st3\<lparr>table_ourjobs := tablahash_remove_lock (table_ourjobs st3) k\<rparr>) ?x)"
        if "\<not> ?x <s 0" for k
        using inv3 [OF that] remove_index_client_inv [OF inv3 [OF that], of k] by (simp_all add: client_inv_def)
      show ?thesis unfolding r
        using c c3 same3 inv1(4) by (simp add: client_frame_def live_ids_def)
    qed
  qed
qed

lemma deny_step:
  assumes inv: "client_inv st" and found: "tablahash_find (table_ourjobs st) (fd_key x) = Some e"
    and j: "deref_job st (entry_job e) = Some job"
  obtains st2 where
    "release_resources (st\<lparr>table_ourjobs := tablahash_remove_lock (table_ourjobs st) (fd_key x)\<rparr>) (entry_job e) = Some st2"
    "retire_job (st\<lparr>table_ourjobs := tablahash_remove_lock (table_ourjobs st) (fd_key x)\<rparr>)
       ((C_to_erlang st2 i s)\<lparr>table_localjobs := tablahash_remove_lock (table_localjobs (C_to_erlang st2 i s)) job\<rparr>)
       (entry_job e)"
proof -
  let ?st1 = "st\<lparr>table_ourjobs := tablahash_remove_lock (table_ourjobs st) (fd_key x)\<rparr>"
  have job: "lj_self job = entry_job e" "live_job st job" "lj_origin_socket job = x"
    by (rule index_deref [OF inv found]; use j in \<open>simp add: live_job_def\<close>)+
  have "unindexed ?st1 (entry_job e)" using remove_index_unindexed [OF inv job(2,3)] job(1) by simp
  moreover have "live_job ?st1 job" using job by (simp add: live_job_def)
  ultimately show ?thesis
    using release_and_free [OF remove_index_client_inv [OF inv], of "fd_key x" "entry_job e" job job] job(1) that by metis
qed

lemma retire_step:
  assumes "retire_job st1 st' a" "client_frame A st st1"
  shows "client_step A st (Some st')"
  using assms client_frame_trans [OF assms(2) retire_same [OF assms(1)]] by (simp add: retire_job_def)

lemma handle_denied_step:
  assumes inv: "client_inv st"
  shows "client_step A st (handle_denied st x)"
proof (cases "tablahash_find (table_ourjobs st) (fd_key x)")
  case None
  then show ?thesis using inv by (simp add: handle_denied_def)
next
  case (Some e)
  obtain job where job: "deref_job st (entry_job e) = Some job" by (rule index_deref [OF inv Some])
  show ?thesis
    by (rule deny_step [OF inv Some job, of "''rejected''" "id_str (lj_job_id job)"])
      (use Some job in \<open>auto simp: handle_denied_def Let_def client_frame_def live_ids_def
        simp del: client_step_Some intro!: retire_step\<close>)
qed

lemma handle_outbound_disconnect_step:
  assumes inv: "client_inv st"
  shows "client_step A st (handle_outbound_disconnect st x)"
  using handle_denied_step [OF inv, where x = x] by (simp add: handle_denied_def handle_outbound_disconnect_def)

lemma update_tables_commute:
  "st\<lparr>table_localjobs := t, table_ourjobs := u\<rparr> = st\<lparr>table_ourjobs := u, table_localjobs := t\<rparr>"
  by simp

lemma handle_granted_step:
  assumes inv: "client_inv st"
  shows "client_step A st (handle_granted st x i now)"
proof (cases "tablahash_find (table_ourjobs st) (fd_key x)")
  case None
  then show ?thesis using inv by (simp add: handle_granted_def)
next
  case (Some e)
  obtain job where job: "deref_job st (entry_job e) = Some job" "lj_self job = entry_job e"
    "lj_origin_socket job = x" "job \<in> set (table_data (table_localjobs st))"
    by (rule index_deref [OF inv Some])
  let ?f = "\<lambda>j. (case lj_next_req j of [] \<Rightarrow> j
      | req # rest \<Rightarrow> j\<lparr>lj_next_req := rest, lj_granted_reqs := req\<lparr>pr_provider_fd := x\<rparr> # lj_granted_reqs j\<rparr>)
      \<lparr>lj_timer := now\<rparr>"
  let ?st1 = "st\<lparr>table_ourjobs := tablahash_remove_lock (table_ourjobs st) (fd_key x)\<rparr>"
  define st2 where "st2 = epoll_ctl_del (write_job ?st1 (entry_job e) ?f) x"
  have un1: "unindexed ?st1 (entry_job e)"
    using remove_index_unindexed [OF inv, of job x] job by (simp add: live_job_def)
  have "client_inv (write_job ?st1 (entry_job e) ?f)"
    using un1 by (intro write_job_client_inv [OF remove_index_client_inv [OF inv]])
      (auto simp: unindexed_def split: list.split)
  then have inv2: "client_inv st2" by (simp add: st2_def client_inv_def)
  have un2: "unindexed st2 (entry_job e)" using un1 by (simp add: unindexed_def st2_def)
  have "?f job \<in> set (table_data (table_localjobs st2))" using job by (force simp: st2_def)
  moreover have "lj_self (?f job) = entry_job e" using job by (simp split: list.split)
  ultimately have "client_step A st2 (ask_for_next_resource st2 (entry_job e))"
    using ask_for_next_resource_step [OF inv2, of "?f job"] un2 by (simp add: live_job_def)
  moreover have "client_frame A st st2"
    by (auto simp: st2_def client_frame_def live_ids_def split: list.split)
  moreover have "handle_granted st x i now =
      (if lj_job_id job \<noteq> i then Some st else ask_for_next_resource st2 (entry_job e))"
    using Some job by (simp add: handle_granted_def st2_def write_job_def update_tables_commute)
  ultimately show ?thesis using inv client_step_trans by simp
qed

lemma send_request_step:
  assumes inv: "client_inv st"
  shows "client_step A st (send_request st x)"
proof (cases "tablahash_find (table_ourjobs st) (fd_key x)")
  case None
  then show ?thesis using inv by (simp add: send_request_def)
next
  case (Some e)
  obtain job where "deref_job st (entry_job e) = Some job" by (rule index_deref [OF inv Some])
  then show ?thesis
    using Some inv by (auto simp: send_request_def client_frame_def live_ids_def client_inv_def split: list.split)
qed

text \<open>Looking a job up by its id, as \<open>JOB_RELEASE\<close> and the timeout sweep do.\<close>

lemma find_job_live:
  assumes "client_inv st" "tablahash_find (table_localjobs st) k = Some job"
  shows "live_job st job" "lj_job_id job = lj_job_id k"
  using assms(2) table_map_SomeD [of lj_job_id "table_localjobs st" "lj_job_id k" job]
  by (simp_all add: live_job_def localjobs.find_map [OF client_invD(1) [OF assms(1)]])

lemma drop_job_retire:
  assumes inv: "client_inv st" and found: "tablahash_find (table_localjobs st) k = Some job"
  obtains st2 where "release_resources (teardown_outbound st job) (lj_self job) = Some st2"
    "retire_job (teardown_outbound st job) (st2\<lparr>table_localjobs := tablahash_remove_lock (table_localjobs st2) job\<rparr>) (lj_self job)"
    "retire_job (teardown_outbound st job)
       ((C_to_erlang st2 i s)\<lparr>table_localjobs := tablahash_remove_lock (table_localjobs (C_to_erlang st2 i s)) job\<rparr>) (lj_self job)"
proof -
  note t = teardown_outbound_spec [OF inv find_job_live(1) [OF inv found]]
  have "live_job (teardown_outbound st job) job" using find_job_live(1) [OF inv found] t(3) by (simp add: live_job_def)
  then show ?thesis using that by (rule release_and_free [OF t(1,2) _ refl refl])
qed

lemma drop_job_step:
  assumes inv: "client_inv st" and found: "tablahash_find (table_localjobs st) k = Some job"
    and "retire_job (teardown_outbound st job) st' (lj_self job)"
  shows "client_step A st (Some st')"
  using assms(3) teardown_outbound_spec(4) [OF inv find_job_live(1) [OF inv found]] by (rule retire_step)

lemma job_release_step:
  assumes inv: "client_inv st"
  shows "client_step A st (job_release st tokens)"
proof (cases "length tokens < 2 \<or> tablahash_find (table_localjobs st) (localjob_key (atoi (tokens ! 1))) = None")
  case True
  then show ?thesis using inv by (auto simp: job_release_def)
next
  case False
  then obtain job where f: "tablahash_find (table_localjobs st) (localjob_key (atoi (tokens ! 1))) = Some job" by auto
  show ?thesis
    by (rule drop_job_retire [OF inv f])
      (use f False drop_job_step [OF inv f] in \<open>simp add: job_release_def del: client_step_Some\<close>)
qed

lemma timeout_job_step:
  assumes inv: "client_inv st"
  shows "client_step A st (timeout_job st i)"
proof (cases "tablahash_find (table_localjobs st) (localjob_key i)")
  case None
  then show ?thesis using inv by (simp add: timeout_job_def)
next
  case (Some job)
  show ?thesis
    by (rule drop_job_retire [OF inv Some, where i = "''timeout''" and s = "id_str (lj_job_id job)"])
      (use Some drop_job_step [OF inv Some] in \<open>simp add: timeout_job_def Let_def del: client_step_Some\<close>)
qed

lemma timeout_jobs_step: "client_inv st \<Longrightarrow> client_step A st (timeout_jobs st ids)"
proof (induction ids arbitrary: st)
  case (Cons i ids)
  then obtain st' where st': "timeout_job st i = Some st'" "client_inv st'" "client_frame A st st'"
    using timeout_job_step client_stepE by metis
  then show ?case using Cons.IH [OF st'(2)] client_step_trans by simp
qed simp

lemma job_request_step:
  assumes inv: "client_inv st"
    and fresh: "3 \<le> length tokens \<Longrightarrow> tablahash_find (table_localjobs st) (localjob_key (atoi (tokens ! 1))) = None"
  shows "client_step {atoi (tokens ! 1)} st (job_request st tokens now)"
proof (cases "length tokens < 3")
  case True
  then show ?thesis using inv by (auto simp: job_request_def client_frame_def live_ids_def client_inv_def)
next
  case False
  let ?a = "fresh_job st" and ?t = "table_localjobs st"
  define new where "new = \<lparr>lj_self = ?a, lj_job_id = atoi (tokens ! 1), lj_erlang_socket = erlangfd st,
    lj_origin_socket = -1, lj_next_req = parse_dests st (drop 2 tokens), lj_granted_reqs = [], lj_timer = now\<rparr>"
  define st1 where "st1 = st\<lparr>table_localjobs := tablahash_insert ?t new, fresh_job := Suc ?a\<rparr>"
  note ok = client_invD(1) [OF inv]
  have self: "lj_self new = ?a" by (simp add: new_def)
  have none: "table_map lj_job_id ?t (lj_job_id new) = None"
    using fresh False localjobs.find_map [OF ok, of "localjob_key (atoi (tokens ! 1))"] by (simp add: new_def)
  have m: "mset (table_data (tablahash_insert ?t new)) = mset (new # table_data ?t)"
    using ok by (cases rule: localjobs.insert_mset [of ?t new]) (use none in \<open>simp_all add: copy_localjob_def\<close>)
  then have set: "set (table_data (tablahash_insert ?t new)) = insert new (set (table_data ?t))"
    using set_mset_cong [OF m] by simp
  have old: "lj_self j < ?a" if "j \<in> set (table_data ?t)" for j using client_invD(4) [OF inv that] .
  have "distinct (map lj_self (new # table_data ?t))"
    using client_invD(3) [OF inv] old by (force simp: new_def)
  then have d: "distinct (map lj_self (table_data (tablahash_insert ?t new)))"
    using distinct_map_mset_cong [OF m] by blast
  have "index_sound (table_data (tablahash_insert ?t new)) (table_data (table_ourjobs st))"
    using client_invD(5) [OF inv] by (auto simp: index_sound_def set)
  then have inv1: "client_inv st1"
    using localjobs.insert_ok [OF ok, of new] client_invD(2) [OF inv] d old self
    by (auto simp: client_inv_def st1_def set less_Suc_eq)
  have "unindexed st1 (lj_self new)"
    using client_invD(5) [OF inv] old by (force simp: unindexed_def index_sound_def st1_def new_def)
  moreover have "live_job st1 new" by (simp add: live_job_def st1_def set)
  ultimately have "client_step {atoi (tokens ! 1)} st1 (ask_for_next_resource st1 (lj_self new))"
    by (intro ask_for_next_resource_step [OF inv1])
  moreover have "client_frame {atoi (tokens ! 1)} st st1"
    by (auto simp: st1_def client_frame_def live_ids_def set) (simp add: new_def)
  moreover have "job_request st tokens now = ask_for_next_resource st1 (lj_self new)"
    using False by (simp add: job_request_def Let_def st1_def new_def)
  ultimately show ?thesis using client_step_trans by simp
qed

end
