(* ===== verification/Agent_Run.thy ===== *)
theory Agent_Run
  imports Client_Safety
begin

text \<open>
  The agent as a transition system: a step is the dispatch of one epoll event. The
  environment is free (any event, any bytes, any outcome of a system call) up to two
  conditions on its messages, which the steps carry: a \<open>JOB_REQUEST\<close> of the scheduler does
  not reuse the id of a job that is still live, and the amounts that peers ask for satisfy
  \<open>ok\<close> (no condition at all, or not negative).

  The locale \<open>server_contract\<close> is what the event dispatch needs of the server side; the
  whole-agent lemmas are proved in it once and interpreted three times: for the conservation
  of the pool, for its signed bounds, and for the fact that no request waits for what is free.
\<close>

section \<open>Lines of an event\<close>

fun handle_lines :: "(string \<Rightarrow> agent \<Rightarrow> agent option) \<Rightarrow> string list \<Rightarrow> agent \<Rightarrow> agent option" where
  "handle_lines handle [] st = Some st"
| "handle_lines handle (l # ls) st = Option.bind (handle l st) (handle_lines handle ls)"

text \<open>The loop of the two message handlers: dispatch the lines that \<open>read_lines\<close> frames.\<close>

lemma line_loop_lines:
  assumes "read_lines conn rx = (ls, res, conn', rx')"
  shows "line_loop handle conn rx st = map_option (\<lambda>st'. (res, conn', rx', st')) (handle_lines handle ls st)"
  using assms
proof (induction conn rx arbitrary: ls st rule: read_lines.induct)
  case (1 conn rx)
  obtain r c1 rx1 where rd: "read_connection conn rx = (r, c1, rx1)" by (metis prod_cases3)
  show ?case
  proof (cases r)
    case (Line l)
    obtain ls1 res1 where rest: "read_lines c1 rx1 = (ls1, res1)" by (cases "read_lines c1 rx1")
    have split: "ls = l # ls1" "res1 = (res, conn', rx')"
      using 1(2) rd Line rest by (subst (asm) read_lines.simps, simp)+
    then show ?thesis
      using 1(1) [OF rd [symmetric] Line refl] rd Line rest
      by (subst line_loop.simps) (simp split: option.split)
  next
    case NeedMore
    then show ?thesis using 1(2) rd by (subst (asm) read_lines.simps, subst line_loop.simps) auto
  next
    case Gone
    then show ?thesis using 1(2) rd by (subst (asm) read_lines.simps, subst line_loop.simps) auto
  qed
qed

definition remote_line_ok :: "(cint \<Rightarrow> bool) \<Rightarrow> string \<Rightarrow> bool" where
  "remote_line_ok ok l \<longleftrightarrow>
     (let tokens = get_token (strncpy_z BUFFER_LEN l) 10 in
      4 \<le> length tokens \<longrightarrow> tokens ! 0 = ''RESERVE'' \<longrightarrow> ok (atoi (tokens ! 3)))"

definition request_id :: "string \<Rightarrow> cint option" where
  "request_id l =
     (let tokens = get_token (strncpy_z BUFFER_LEN l) 32 in
      if 3 \<le> length tokens \<and> tokens ! 0 = ''JOB_REQUEST'' then Some (atoi (tokens ! 1)) else None)"

fun request_ids :: "string list \<Rightarrow> cint list" where
  "request_ids [] = []"
| "request_ids (l # ls) = (case request_id l of None \<Rightarrow> request_ids ls | Some i \<Rightarrow> i # request_ids ls)"

section \<open>Steps\<close>

definition own_fd :: "worker_args \<Rightarrow> fd \<Rightarrow> bool" where
  "own_fd args x \<longleftrightarrow> x \<in> {socket_erlang args, socket_server args, broadcast_timer_fd args, timeout_timer_fd args, socket_UDP args}"

definition event_lines :: "event \<Rightarrow> buffers \<Rightarrow> string list" where
  "event_lines ev conns = (if valid_fd (ev_fd ev) then fst (read_lines (conns (ev_fd ev)) (ev_rx ev)) else [])"

text \<open>The ids of the jobs the scheduler asks for in an event.\<close>

definition new_ids :: "worker_args \<Rightarrow> event \<Rightarrow> agent \<times> buffers \<Rightarrow> cint list" where
  "new_ids args ev s =
     (if \<not> own_fd args (ev_fd ev) \<and> ev_fd ev = erlangfd (fst s) then request_ids (event_lines ev (snd s)) else [])"

definition admissible :: "(cint \<Rightarrow> bool) \<Rightarrow> worker_args \<Rightarrow> event \<Rightarrow> agent \<times> buffers \<Rightarrow> bool" where
  "admissible ok args ev s \<longleftrightarrow>
     distinct (new_ids args ev s) \<and> set (new_ids args ev s) \<inter> live_ids (fst s) = {} \<and>
     (own_fd args (ev_fd ev) \<or> ev_fd ev = erlangfd (fst s) \<or> (\<forall>l \<in> set (event_lines ev (snd s)). remote_line_ok ok l))"

inductive agent_step :: "(cint \<Rightarrow> bool) \<Rightarrow> worker_args \<Rightarrow> agent \<times> buffers \<Rightarrow> agent \<times> buffers \<Rightarrow> bool"
  for ok :: "cint \<Rightarrow> bool" and args :: worker_args where
  event: "admissible ok args ev s \<Longrightarrow> dispatch args ev s = Some s' \<Longrightarrow> agent_step ok args s s'"

inductive_cases agent_stepE: "agent_step ok args s s'"

text \<open>The states after a successful start-up.\<close>

definition started :: "worker_args \<Rightarrow> agent \<times> buffers \<Rightarrow> bool" where
  "started args s \<longleftrightarrow> (\<exists>argv outs peers inet r. agent_main argv outs peers inet r = Inr (args, s))"

lemma started_setup:
  assumes "started args s"
  obtains outs peers inet port r where "setup_epoll (main_init outs peers inet) port r = Inr (args, fst s)"
    "snd s = initialize_connection_buffers"
proof -
  obtain argv outs peers inet r where m: "agent_main argv outs peers inet r = Inr (args, s)"
    using assms by (auto simp: started_def)
  then have "setup_epoll (main_init outs peers inet) (main_port argv) r = Inr (args, fst s) \<and> snd s = initialize_connection_buffers"
    by (cases "setup_epoll (main_init outs peers inet) (main_port argv) r") (auto simp: agent_main_def)
  then show ?thesis using that by blast
qed

inductive reachable :: "(cint \<Rightarrow> bool) \<Rightarrow> worker_args \<Rightarrow> agent \<times> buffers \<Rightarrow> bool"
  for ok :: "cint \<Rightarrow> bool" and args :: worker_args where
  start: "started args s \<Longrightarrow> reachable ok args s"
| step: "reachable ok args s \<Longrightarrow> agent_step ok args s s' \<Longrightarrow> reachable ok args s'"

text \<open>A run whose events all satisfy the conditions.\<close>

fun run_ok :: "(cint \<Rightarrow> bool) \<Rightarrow> worker_args \<Rightarrow> event list \<Rightarrow> agent \<times> buffers \<Rightarrow> bool" where
  "run_ok ok args [] s = True"
| "run_ok ok args (ev # evs) s =
     (admissible ok args ev s \<and> (case dispatch args ev s of None \<Rightarrow> False | Some s' \<Rightarrow> run_ok ok args evs s'))"

lemma run_ok_reachable:
  assumes "reachable ok args s" "run_ok ok args evs s"
  shows "\<exists>s'. event_loop args evs s = Some s' \<and> reachable ok args s'"
  using assms
proof (induction evs arbitrary: s)
  case (Cons ev evs)
  then obtain s1 where "dispatch args ev s = Some s1" "run_ok ok args evs s1" "admissible ok args ev s"
    by (auto split: option.splits)
  moreover from this have "reachable ok args s1"
    by (intro reachable.step [OF Cons.prems(1)] agent_step.event)
  ultimately show ?case using Cons.IH [of s1] by simp
qed simp

text \<open>The condition on the scheduler along a run, with nothing said about the handlers.\<close>

fun admits :: "(cint \<Rightarrow> bool) \<Rightarrow> worker_args \<Rightarrow> event list \<Rightarrow> agent \<times> buffers \<Rightarrow> bool" where
  "admits ok args [] s = True"
| "admits ok args (ev # evs) s =
     (admissible ok args ev s \<and> (case dispatch args ev s of None \<Rightarrow> True | Some s' \<Rightarrow> admits ok args evs s'))"

section \<open>Runs in which the requests of the scheduler satisfy a condition\<close>

definition lines_ok :: "(string \<Rightarrow> bool) \<Rightarrow> worker_args \<Rightarrow> event \<Rightarrow> agent \<times> buffers \<Rightarrow> bool" where
  "lines_ok line_ok args ev s \<longleftrightarrow>
     (\<not> own_fd args (ev_fd ev) \<and> ev_fd ev = erlangfd (fst s) \<longrightarrow> list_all line_ok (event_lines ev (snd s)))"

inductive reachable_with :: "(string \<Rightarrow> bool) \<Rightarrow> worker_args \<Rightarrow> agent \<times> buffers \<Rightarrow> bool"
  for line_ok :: "string \<Rightarrow> bool" and args :: worker_args where
  start: "started args s \<Longrightarrow> reachable_with line_ok args s"
| step: "reachable_with line_ok args s \<Longrightarrow> admissible (\<lambda>_. True) args ev s \<Longrightarrow> lines_ok line_ok args ev s \<Longrightarrow>
    dispatch args ev s = Some s' \<Longrightarrow> reachable_with line_ok args s'"

lemma reachable_with_reachable: "reachable_with line_ok args s \<Longrightarrow> reachable (\<lambda>_. True) args s"
  by (induction rule: reachable_with.induct) (blast intro: reachable.intros agent_step.intros)+

fun run_with :: "(string \<Rightarrow> bool) \<Rightarrow> worker_args \<Rightarrow> event list \<Rightarrow> agent \<times> buffers \<Rightarrow> bool" where
  "run_with line_ok args [] s = True"
| "run_with line_ok args (ev # evs) s =
     (admissible (\<lambda>_. True) args ev s \<and> lines_ok line_ok args ev s \<and>
      (case dispatch args ev s of None \<Rightarrow> False | Some s' \<Rightarrow> run_with line_ok args evs s'))"

lemma run_with_reachable:
  assumes "reachable_with line_ok args s" "run_with line_ok args evs s"
  shows "\<exists>s'. event_loop args evs s = Some s' \<and> reachable_with line_ok args s'"
  using assms
proof (induction evs arbitrary: s)
  case (Cons ev evs)
  then obtain s1 where "dispatch args ev s = Some s1" "run_with line_ok args evs s1" "reachable_with line_ok args s1"
    by (auto split: option.splits intro: reachable_with.step)
  then show ?case using Cons.IH [of s1] by simp
qed simp

section \<open>What the server handlers leave of the client side\<close>

definition client_same :: "agent \<Rightarrow> agent \<Rightarrow> bool" where
  "client_same st st' \<longleftrightarrow>
     table_localjobs st' = table_localjobs st \<and> table_ourjobs st' = table_ourjobs st \<and>
     table_nodes st' = table_nodes st \<and> fresh_job st' = fresh_job st \<and> erlangfd st' = erlangfd st"

lemma client_same_trans: "client_same a b \<Longrightarrow> client_same b c \<Longrightarrow> client_same a c"
  by (simp add: client_same_def)

lemma drain_queue_client: "drain_queue st q type = Some st' \<Longrightarrow> client_same st st'"
  by (auto simp: drain_queue_def client_same_def split: option.splits prod.splits)

lemma reserve_elements_client: "reserve_elements st = Some st' \<Longrightarrow> client_same st st'"
  unfolding reserve_elements_def bind_eq_Some_conv
  by (blast dest: drain_queue_client intro: client_same_trans)

lemma enqueue_jobs_client: "enqueue_jobs st res i amount x = Some st' \<Longrightarrow> client_same st st'"
  by (auto simp: enqueue_jobs_def client_same_def Let_def split: option.splits
      dest!: reserve_elements_client)

lemma release_client_client: "release_client_by_fd st x = Some st' \<Longrightarrow> client_same st st'"
  by (auto simp: release_client_by_fd_spec reclaim_def client_same_def split: if_splits
      dest!: reserve_elements_client)

section \<open>The handlers, given a server contract\<close>

definition agent_ok :: "(agent \<Rightarrow> bool) \<Rightarrow> agent \<Rightarrow> bool" where
  "agent_ok P st \<longleftrightarrow> P st \<and> client_inv st \<and> nodes_ok (table_nodes st)"

text \<open>The handler returned, in a good state; of the live jobs only ids in \<open>A\<close> are new.\<close>

definition good_result :: "(agent \<Rightarrow> bool) \<Rightarrow> cint set \<Rightarrow> agent \<Rightarrow> agent option \<Rightarrow> bool" where
  "good_result P A st r \<longleftrightarrow> (\<exists>st'. r = Some st' \<and> agent_ok P st' \<and> live_ids st' \<subseteq> live_ids st \<union> A)"

lemma good_result_Some [simp]:
  "good_result P A st (Some st') \<longleftrightarrow> agent_ok P st' \<and> live_ids st' \<subseteq> live_ids st \<union> A"
  "\<not> good_result P A st None"
  by (simp_all add: good_result_def)

lemma good_result_bind:
  assumes "good_result P A st r" "\<And>st'. agent_ok P st' \<Longrightarrow> live_ids st' \<subseteq> live_ids st \<union> A \<Longrightarrow> good_result P B st' (f st')"
  shows "good_result P (A \<union> B) st (Option.bind r f)"
proof -
  obtain st1 where 1: "r = Some st1" "agent_ok P st1" "live_ids st1 \<subseteq> live_ids st \<union> A"
    using assms(1) by (auto simp: good_result_def)
  obtain st2 where "f st1 = Some st2" "agent_ok P st2" "live_ids st2 \<subseteq> live_ids st1 \<union> B"
    using assms(2) [OF 1(2,3)] by (auto simp: good_result_def)
  then show ?thesis using 1 by auto
qed

text \<open>System calls leave the tables and the queues alone.\<close>

definition core_same :: "agent \<Rightarrow> agent \<Rightarrow> bool" where
  "core_same st st' \<longleftrightarrow>
     table_localjobs st' = table_localjobs st \<and> table_ourjobs st' = table_ourjobs st \<and>
     table_nodes st' = table_nodes st \<and> fresh_job st' = fresh_job st \<and>
     table_nodejobs st' = table_nodejobs st \<and> (\<forall>r. get_queue r st' = get_queue r st)"

lemma deliver_core: "core_same st (deliver st x)" "erlangfd (deliver st x) = erlangfd st"
  by (auto simp: deliver_def core_same_def split: option.split)

lemma deliver_live [simp]: "live_ids (deliver st x) = live_ids st"
  using deliver_core(1) [of st x] by (simp add: core_same_def live_ids_def)

lemma get_queue_open [simp]: "get_queue r (st\<lparr>erlangfd := f, open_fds := o'\<rparr>) = get_queue r st"
  by (cases r) simp_all

locale server_contract =
  fixes P :: "agent \<Rightarrow> bool" and ok :: "cint \<Rightarrow> bool"
  assumes P_cong: "table_nodejobs st' = table_nodejobs st \<Longrightarrow> (\<And>r. get_queue r st' = get_queue r st) \<Longrightarrow> P st \<Longrightarrow> P st'"
    and P_enqueue: "P st \<Longrightarrow> ok amount \<Longrightarrow> \<exists>st'. enqueue_jobs st res i amount x = Some st' \<and> P st'"
    and P_release: "P st \<Longrightarrow> \<exists>st'. release_client_by_fd st x = Some st' \<and> P st'"
begin

lemma core_ok: "core_same st st' \<Longrightarrow> agent_ok P st \<Longrightarrow> agent_ok P st'"
  using P_cong [of st' st] client_inv_cong [of st' st] by (simp add: agent_ok_def core_same_def)

lemma client_result:
  assumes "client_step A st r" "agent_ok P st"
  shows "good_result P A st r"
proof -
  obtain st' where st': "r = Some st'" "client_inv st'" "client_frame A st st'"
    using assms(1) by (rule client_stepE)
  then have "P st'" using assms(2) P_cong [of st' st] by (simp add: agent_ok_def client_frame_def)
  then show ?thesis using st' assms(2) by (simp add: agent_ok_def client_frame_def)
qed

lemma client_same_ok:
  assumes "client_same st st'" "agent_ok P st" "P st'"
  shows "agent_ok P st'" "live_ids st' = live_ids st"
  using assms client_inv_cong [of st' st] by (simp_all add: agent_ok_def client_same_def live_ids_def)

lemma enqueue_result:
  assumes "agent_ok P st" "ok amount"
  shows "good_result P A st (enqueue_jobs st res i amount x)"
proof -
  obtain st' where "enqueue_jobs st res i amount x = Some st'" "P st'"
    using P_enqueue [of st amount res i x] assms by (auto simp: agent_ok_def)
  then show ?thesis using enqueue_jobs_client client_same_ok [OF _ assms(1)] by fastforce
qed

lemma release_result:
  assumes "agent_ok P st"
  shows "good_result P A st (release_client_by_fd st x)"
proof -
  obtain st' where "release_client_by_fd st x = Some st'" "P st'"
    using P_release [of st x] assms by (auto simp: agent_ok_def)
  then show ?thesis using release_client_client client_same_ok [OF _ assms] by fastforce
qed

lemma agent_ok_client: "agent_ok P st \<Longrightarrow> client_inv st"
  by (simp add: agent_ok_def)

lemma remote_line_result:
  assumes a: "agent_ok P st" and l: "remote_line_ok ok l"
  shows "good_result P {} st (client_to_myserver st x l now)"
proof -
  let ?t = "get_token (strncpy_z BUFFER_LEN l) 10"
  have r: "good_result P {} st (enqueue_jobs st (?t ! 2) (atoi (?t ! 1)) (atoi (?t ! 3)) x)"
    if "\<not> length ?t < 4" "?t ! 0 = ''RESERVE''"
    using that l by (intro enqueue_result [OF a]) (simp add: remote_line_ok_def Let_def)
  note c = agent_ok_client [OF a]
  show ?thesis
    using r release_result [OF a] client_result [OF handle_granted_step [OF c] a]
      client_result [OF handle_denied_step [OF c] a] a
    by (simp add: client_to_myserver_def Let_def)
qed

lemma remote_lines_result:
  "agent_ok P st \<Longrightarrow> \<forall>l \<in> set ls. remote_line_ok ok l \<Longrightarrow>
     good_result P {} st (handle_lines (\<lambda>l s. client_to_myserver s x l now) ls st)"
proof (induction ls arbitrary: st)
  case (Cons l ls)
  then show ?case
    using good_result_bind [OF remote_line_result [of st l x now], where B = "{}"] by simp
qed simp

lemma scheduler_line_result:
  assumes a: "agent_ok P st" and l: "\<And>i. request_id l = Some i \<Longrightarrow> i \<notin> live_ids st"
  shows "good_result P (set_option (request_id l)) st (erlang_to_C st l now)"
proof -
  let ?t = "get_token (strncpy_z BUFFER_LEN l) 32"
  note c = agent_ok_client [OF a]
  have fresh: "tablahash_find (table_localjobs st) (localjob_key (atoi (?t ! 1))) = None"
    if "3 \<le> length ?t" "?t ! 0 = ''JOB_REQUEST''"
  proof (rule ccontr)
    assume "\<not> ?thesis"
    then obtain j where "tablahash_find (table_localjobs st) (localjob_key (atoi (?t ! 1))) = Some j" by auto
    from find_job_live [OF c this] have "atoi (?t ! 1) \<in> live_ids st" by (force simp: live_ids_def live_job_def)
    then show False using l that by (simp add: request_id_def)
  qed
  have req: "good_result P (set_option (request_id l)) st (job_request st ?t now)" if j: "?t ! 0 = ''JOB_REQUEST''"
  proof (cases "3 \<le> length ?t")
    case True
    then have "request_id l = Some (atoi (?t ! 1))" using j by (simp add: request_id_def)
    then show ?thesis
      using client_result [OF job_request_step [OF c, of ?t now] a] fresh j by simp
  next
    case False
    have "core_same st (C_to_erlang st ''rejected'' s)" for s by (simp add: core_same_def)
    then show ?thesis using False a core_ok by (auto simp: job_request_def live_ids_def)
  qed
  have core: "core_same st (job_status st ?t)" "core_same st (get_nodes st)"
    by (auto simp: core_same_def job_status_def get_nodes_def split: option.split)
  have live: "live_ids (job_status st ?t) = live_ids st" "live_ids (get_nodes st) = live_ids st"
    using core by (simp_all add: core_same_def live_ids_def)
  show ?thesis
    using req client_result [OF job_release_step [OF c] a] core_ok [OF core(1) a] core_ok [OF core(2) a] a live
    by (simp add: erlang_to_C_def Let_def)
qed

lemma scheduler_lines_result:
  "agent_ok P st \<Longrightarrow> distinct (request_ids ls) \<Longrightarrow> set (request_ids ls) \<inter> live_ids st = {} \<Longrightarrow>
     good_result P (set (request_ids ls)) st (handle_lines (\<lambda>l s. erlang_to_C s l now) ls st)"
proof (induction ls arbitrary: st)
  case (Cons l ls)
  have ids: "set (request_ids (l # ls)) = set_option (request_id l) \<union> set (request_ids ls)"
    by (simp split: option.split)
  have l: "i \<notin> live_ids st" if "request_id l = Some i" for i using that Cons.prems(3) by auto
  show ?case unfolding handle_lines.simps ids
  proof (rule good_result_bind [OF scheduler_line_result [OF Cons.prems(1) l]])
    fix st' assume st': "agent_ok P st'" "live_ids st' \<subseteq> live_ids st \<union> set_option (request_id l)"
    have "set (request_ids ls) \<inter> live_ids st' = {}" "distinct (request_ids ls)"
      using st'(2) Cons.prems(2,3) by (cases "request_id l"; fastforce)+
    then show "good_result P (set (request_ids ls)) st' (handle_lines (\<lambda>l s. erlang_to_C s l now) ls st')"
      using Cons.IH st'(1) by blast
  qed
qed simp

lemma closing_core:
  "core_same st (sys_close (epoll_ctl_del st x) x)" "core_same st (restart_epolloneshot st x)"
  "core_same st ((sys_close (epoll_ctl_del st x) x)\<lparr>erlangfd := n\<rparr>)"
  by (simp_all add: core_same_def)

text \<open>The two message handlers return, in a good state.\<close>

lemma message_from_erlang_result:
  assumes a: "agent_ok P st" and lines: "valid_fd x \<Longrightarrow> read_lines (conns x) rx = (ls, res, conn', rx')"
    and d: "valid_fd x \<Longrightarrow> distinct (request_ids ls) \<and> set (request_ids ls) \<inter> live_ids st = {}"
  shows "\<exists>st' conns'. message_from_erlang st conns x rx now = Some (st', conns') \<and> agent_ok P st'"
proof (cases "valid_fd x")
  case True
  obtain st1 where "handle_lines (\<lambda>l s. erlang_to_C s l now) ls st = Some st1" "agent_ok P st1"
    using scheduler_lines_result [OF a, of ls now] d [OF True] by (auto simp: good_result_def)
  then show ?thesis
    using True line_loop_lines [OF lines [OF True]] core_ok [OF closing_core(2)] core_ok [OF closing_core(3)]
    by (simp add: message_from_erlang_def drain_lines_def Let_def)
next
  case False
  then show ?thesis
    using a core_ok [OF closing_core(3)] by (simp add: message_from_erlang_def drain_lines_def Let_def)
qed

lemma disconnect_result:
  assumes "agent_ok P st"
  shows "\<exists>st1 st2. release_client_by_fd st x = Some st1 \<and> handle_outbound_disconnect st1 x = Some st2 \<and> agent_ok P st2"
proof -
  obtain st1 where 1: "release_client_by_fd st x = Some st1" "agent_ok P st1"
    using release_result [OF assms, of "{}" x] by (auto simp: good_result_def)
  then show ?thesis
    using client_result [OF handle_outbound_disconnect_step [OF agent_ok_client [OF 1(2)], where A = "{}" and x = x] 1(2)]
    by (auto simp: good_result_def)
qed

lemma recive_message_from_remote_result:
  assumes a: "agent_ok P st" and lines: "valid_fd x \<Longrightarrow> read_lines (conns x) rx = (ls, res, conn', rx')"
    and l: "valid_fd x \<Longrightarrow> \<forall>l \<in> set ls. remote_line_ok ok l"
  shows "\<exists>st' conns'. recive_message_from_remote st conns x rx now = Some (st', conns') \<and> agent_ok P st'"
proof -
  obtain res' conns' st1 where r: "drain_lines (\<lambda>l s. client_to_myserver s x l now) x conns rx st = Some (res', conns', st1)"
    "agent_ok P st1"
  proof (cases "valid_fd x")
    case True
    obtain st1 where "handle_lines (\<lambda>l s. client_to_myserver s x l now) ls st = Some st1" "agent_ok P st1"
      using remote_lines_result [OF a l [OF True], of x now] by (auto simp: good_result_def)
    then show ?thesis
      using that True line_loop_lines [OF lines [OF True]] by (simp add: drain_lines_def)
  next
    case False
    then show ?thesis using a that by (simp add: drain_lines_def)
  qed
  obtain st2 st3 where d: "release_client_by_fd st1 x = Some st2" "handle_outbound_disconnect st2 x = Some st3" "agent_ok P st3"
    using disconnect_result [OF r(2)] by blast
  show ?thesis
    using r d core_ok [OF closing_core(1)] core_ok [OF closing_core(2)]
    by (simp add: recive_message_from_remote_def)
qed

lemma nodes_update:
  assumes "agent_ok P st" "nodes_ok t"
  shows "agent_ok P (st\<lparr>table_nodes := t\<rparr>)"
  using assms P_cong [of "st\<lparr>table_nodes := t\<rparr>" st] client_inv_cong [of "st\<lparr>table_nodes := t\<rparr>" st]
  by (simp add: agent_ok_def)

lemma udp_result:
  assumes a: "agent_ok P st"
  shows "agent_ok P (udp_datagram_from_remote st bytes sender now)"
proof -
  have "nodes_ok (table_nodes st)" using a by (simp add: agent_ok_def)
  from nodes_update [OF a nodes.insert_ok [OF this]] show ?thesis
    using a by (simp add: udp_datagram_from_remote_def Let_def)
qed

lemma timeouts_result:
  assumes "agent_ok P st"
  shows "\<exists>st'. check_ourjob_timeouts (check_nodes_timeouts st now) now = Some st' \<and> agent_ok P st'"
proof -
  let ?st1 = "check_nodes_timeouts st now"
  have a: "agent_ok P ?st1" unfolding check_nodes_timeouts_filter
    using assms by (intro nodes_update table_filter_ok) (simp_all add: agent_ok_def)
  show ?thesis
    using client_result [OF timeout_jobs_step [OF agent_ok_client [OF a], where A = "{}"] a]
    by (auto simp: check_ourjob_timeouts_def good_result_def)
qed

lemma accept_core:
  "core_same st (connect_client st x p b)" "core_same st ((fst (connect_erlang st x p b))\<lparr>erlangfd := n\<rparr>)"
  "core_same st (udp_broadcast st x port)"
  by (simp_all add: core_same_def connect_client_def connect_erlang_def udp_broadcast_def Let_def)

text \<open>Every event is handled: the handler returns and the invariant holds after it.\<close>

lemma dispatch_result:
  assumes a: "agent_ok P (fst s)" and ev: "admissible ok args ev s"
  shows "\<exists>s'. dispatch args ev s = Some s' \<and> agent_ok P (fst s')"
proof -
  let ?x = "ev_fd ev"
  define st where "st = deliver (fst s) ?x"
  have st: "agent_ok P st" "erlangfd st = erlangfd (fst s)" "live_ids st = live_ids (fst s)"
    unfolding st_def using core_ok [OF deliver_core(1) a] deliver_core(2) by simp_all
  obtain ls res conn' rx' where ls: "read_lines (snd s ?x) (ev_rx ev) = (ls, res, conn', rx')"
    by (metis prod_cases4)
  have lines: "event_lines ev (snd s) = ls" if "valid_fd ?x" using ls that by (simp add: event_lines_def)
  have timers: "\<exists>st1. check_ourjob_timeouts (check_nodes_timeouts st (ev_now ev)) (ev_now ev) = Some st1 \<and>
      agent_ok P (restart_epolloneshot st1 ?x)"
    using timeouts_result [OF st(1)] core_ok [OF closing_core(2)] by blast
  have bcast: "agent_ok P (restart_epolloneshot (udp_broadcast st y p) ?x)" for y p
    using core_ok [OF closing_core(2) core_ok [OF accept_core(3) st(1)]] .
  have erl: "\<exists>st' conns'. message_from_erlang st (snd s) ?x (ev_rx ev) (ev_now ev) = Some (st', conns') \<and> agent_ok P st'"
    if "\<not> own_fd args ?x" "?x = erlangfd st"
    by (rule message_from_erlang_result [OF st(1), of ?x "snd s" "ev_rx ev" ls])
      (use ev that lines st ls in \<open>simp_all add: admissible_def new_ids_def\<close>)
  have rem: "\<exists>st' conns'. recive_message_from_remote st (snd s) ?x (ev_rx ev) (ev_now ev) = Some (st', conns') \<and> agent_ok P st'"
    if "\<not> own_fd args ?x" "?x \<noteq> erlangfd st"
    by (rule recive_message_from_remote_result [OF st(1), of ?x "snd s" "ev_rx ev" ls])
      (use ev that lines st ls in \<open>simp_all add: admissible_def\<close>)
  have snd: "\<exists>st'. send_request st ?x = Some st' \<and> agent_ok P st'"
    using client_result [OF send_request_step [OF agent_ok_client [OF st(1)], where A = "{}" and x = ?x] st(1)]
    by (auto simp: good_result_def)
  have acc: "agent_ok P ((fst (connect_erlang st y p b))\<lparr>erlangfd := n\<rparr>)" "agent_ok P (connect_client st y p b)" for y p b n
    using core_ok [OF accept_core(2) st(1)] core_ok [OF accept_core(1) st(1)] by blast+
  show ?thesis
    unfolding dispatch_def Let_def st_def [symmetric]
    using timers bcast erl rem snd acc st(1) udp_result [OF st(1)]
    by (auto simp: own_fd_def split_beta)
qed

lemma reachable_ok:
  assumes start: "\<And>s. started args s \<Longrightarrow> agent_ok P (fst s)" and r: "reachable ok args s"
  shows "agent_ok P (fst s)"
  using r
proof induction
  case (step s s')
  then obtain ev where "admissible ok args ev s" "dispatch args ev s = Some s'" by (elim agent_stepE)
  then show ?case using dispatch_result [OF step.IH] by fastforce
qed (rule start)

lemma reachable_dispatch:
  assumes start: "\<And>s. started args s \<Longrightarrow> agent_ok P (fst s)" and r: "reachable ok args s"
    and "admissible ok args ev s"
  shows "\<exists>s'. dispatch args ev s = Some s' \<and> reachable ok args s'"
  using dispatch_result [OF reachable_ok [OF start r] assms(3)] reachable.step [OF r] agent_step.event [OF assms(3)]
  by blast

end

section \<open>The contracts hold\<close>

interpretation conserved: server_contract "\<lambda>st. server_inv st \<and> pool_conserved cap st" "\<lambda>_. True" for cap
proof unfold_locales
  fix st st' :: agent
  assume "table_nodejobs st' = table_nodejobs st" "\<And>r. get_queue r st' = get_queue r st"
    "server_inv st \<and> pool_conserved cap st"
  then show "server_inv st' \<and> pool_conserved cap st'" using server_inv_cong [of st' st] by simp
next
  fix st :: agent and amount i :: cint and res and x :: fd
  assume "server_inv st \<and> pool_conserved cap st"
  then show "\<exists>st'. enqueue_jobs st res i amount x = Some st' \<and> server_inv st' \<and> pool_conserved cap st'"
    using enqueue_jobs_conserves [of st cap res i amount x] by metis
next
  fix st :: agent and x :: fd
  assume "server_inv st \<and> pool_conserved cap st"
  then show "\<exists>st'. release_client_by_fd st x = Some st' \<and> server_inv st' \<and> pool_conserved cap st'"
    using release_client_by_fd_conserves [of st cap x] by metis
qed

interpretation safe: server_contract "pool_safe cap" "\<lambda>amount. 0 \<le>s amount" for cap
proof unfold_locales
  fix st st' :: agent
  assume "table_nodejobs st' = table_nodejobs st" "\<And>r. get_queue r st' = get_queue r st" "pool_safe cap st"
  then show "pool_safe cap st'" using server_inv_cong [of st' st] by simp
next
  fix st :: agent and amount i :: cint and res and x :: fd
  assume "pool_safe cap st" "0 \<le>s amount"
  then show "\<exists>st'. enqueue_jobs st res i amount x = Some st' \<and> pool_safe cap st'"
    using enqueue_jobs_safe [of cap st amount res i x] by metis
next
  fix st :: agent and x :: fd
  assume "pool_safe cap st"
  then show "\<exists>st'. release_client_by_fd st x = Some st' \<and> pool_safe cap st'"
    using release_client_by_fd_safe [of cap st x] by metis
qed

interpretation idle: server_contract "\<lambda>st. server_inv st \<and> (\<forall>r. settled r st)" "\<lambda>_. True"
proof unfold_locales
  fix st st' :: agent
  assume same: "table_nodejobs st' = table_nodejobs st" "\<And>r. get_queue r st' = get_queue r st"
    and p: "server_inv st \<and> (\<forall>r. settled r st)"
  have "settled r st'" for r using p same(2) [of r] by (simp add: settled_def)
  then show "server_inv st' \<and> (\<forall>r. settled r st')" using p same server_inv_cong(1) [of st' st] by simp
next
  fix st :: agent and amount i :: cint and res and x :: fd
  assume "server_inv st \<and> (\<forall>r. settled r st)"
  then show "\<exists>st'. enqueue_jobs st res i amount x = Some st' \<and> server_inv st' \<and> (\<forall>r. settled r st')"
    using enqueue_jobs_settles [of st res i amount x] by metis
next
  fix st :: agent and x :: fd
  assume "server_inv st \<and> (\<forall>r. settled r st)"
  then show "\<exists>st'. release_client_by_fd st x = Some st' \<and> server_inv st' \<and> (\<forall>r. settled r st')"
    using release_client_by_fd_settles [of st x] by metis
qed

section \<open>Start-up\<close>

fun local_capacity :: "queue_id \<Rightarrow> cint" where
  "local_capacity CPU_Q = LOCAL_CPU"
| "local_capacity MEM_Q = LOCAL_MEM"
| "local_capacity GPU_Q = LOCAL_GPU"

lemma make_timer_core: "make_timer st i n t a b = Inr st' \<Longrightarrow> core_same st st'"
  by (auto simp: make_timer_def core_same_def split: if_splits)

lemma core_same_trans: "core_same a b \<Longrightarrow> core_same b c \<Longrightarrow> core_same a c"
  by (simp add: core_same_def)

lemma setup_epoll_core:
  assumes "setup_epoll st port r = Inr (args, st')"
  shows "core_same st st'"
  using assms
  by (auto simp: setup_epoll_def Let_def core_same_def split: if_splits sum.splits prod.splits
      dest!: make_timer_core)

lemma main_init_queues:
  "get_queue r (main_init outs peers inet) = make_queue (local_capacity r)"
  by (cases r) (simp_all add: main_init_def)

lemma started_core:
  assumes "started args s"
  shows "table_nodejobs (fst s) = create_table_jobs" "get_queue r (fst s) = make_queue (local_capacity r)"
    "agent_ok (\<lambda>_. True) (fst s)"
proof -
  obtain outs peers inet port sr where "setup_epoll (main_init outs peers inet) port sr = Inr (args, fst s)"
    by (rule started_setup [OF assms])
  from setup_epoll_core [OF this]
  have c: "core_same (main_init outs peers inet) (fst s)" .
  then show "table_nodejobs (fst s) = create_table_jobs" "get_queue r (fst s) = make_queue (local_capacity r)"
    using main_init_queues by (simp_all add: core_same_def) (simp add: main_init_def)
  have "client_inv (main_init outs peers inet)"
    by (simp add: client_inv_def index_sound_def main_init_def create_tables_ok created_empty)
  then show "agent_ok (\<lambda>_. True) (fst s)"
    using c client_inv_cong [of "fst s" "main_init outs peers inet"]
    by (simp add: agent_ok_def core_same_def) (simp add: main_init_def create_tables_ok)
qed

lemma started_server:
  assumes "started args s"
  shows "server_inv (fst s)" "granted_total r (fst s) = 0" "granted_sum r (fst s) = 0" "entries_nonneg (fst s)"
  using started_core(1,2) [OF assms]
  by (simp_all add: server_inv_def create_tables_ok make_queue_inv granted_total_def granted_sum_def
      created_empty entries_nonneg_def)

lemma started_conserved:
  "started args s \<Longrightarrow> agent_ok (\<lambda>st. server_inv st \<and> pool_conserved local_capacity st) (fst s)"
  using started_core [of args s] started_server [of args s]
  by (simp add: agent_ok_def pool_conserved_def make_queue_inv)

lemma started_settled:
  "started args s \<Longrightarrow> agent_ok (\<lambda>st. server_inv st \<and> (\<forall>r. settled r st)) (fst s)"
  using started_core [of args s] started_server [of args s]
  by (simp add: agent_ok_def settled_def make_queue_inv)

lemma sint_capacity: "0 \<le> sint (local_capacity r)" "sint (local_capacity r) < 2147483648"
  by (cases r; simp add: LOCAL_CPU_def LOCAL_MEM_def LOCAL_GPU_def)+

lemma started_safe:
  "started args s \<Longrightarrow> agent_ok (pool_safe (\<lambda>r. sint (local_capacity r))) (fst s)"
  using started_core [of args s] started_server [of args s]
  by (simp add: agent_ok_def pool_safe_def make_queue_inv sint_capacity)

section \<open>The line buffers\<close>

text \<open>The five kinds of data of the agent, each in its representation invariant.\<close>

definition state_wf :: "agent \<times> buffers \<Rightarrow> bool" where
  "state_wf s \<longleftrightarrow>
     localjobs_ok (table_localjobs (fst s)) \<and> ourjobs_ok (table_ourjobs (fst s)) \<and>
     nodejobs_ok (table_nodejobs (fst s)) \<and> nodes_ok (table_nodes (fst s)) \<and>
     (\<forall>r. queue_inv (get_queue r (fst s))) \<and> (\<forall>x. conn_inv (snd s x))"

lemma line_loop_conn_inv:
  "line_loop handle conn rx st = Some (res, conn', rx', st') \<Longrightarrow> conn_inv conn \<Longrightarrow> conn_inv conn'"
proof (induction handle conn rx st rule: line_loop.induct)
  case (1 handle conn rx st)
  obtain r c1 rx1 where rd: "read_connection conn rx = (r, c1, rx1)" by (metis prod_cases3)
  have inv: "conn_inv c1" by (rule read_connection_bounds(1) [OF 1(3) rd])
  show ?case
  proof (cases r)
    case (Line l)
    then obtain st1 where "handle l st = Some st1" "line_loop handle c1 rx1 st1 = Some (res, conn', rx', st')"
      using 1(2) rd by (subst (asm) line_loop.simps) (auto split: option.splits)
    then show ?thesis using 1(1) [OF rd [symmetric] Line refl] inv by blast
  next
    case NeedMore
    then show ?thesis using 1(2) rd inv by (subst (asm) line_loop.simps) simp
  next
    case Gone
    then show ?thesis using 1(2) rd inv by (subst (asm) line_loop.simps) simp
  qed
qed

lemma drain_lines_conn_inv:
  assumes "drain_lines handle x conns rx st = Some (res, conns', st')" "\<forall>y. conn_inv (conns y)"
  shows "\<forall>y. conn_inv (conns' y)"
  using assms line_loop_conn_inv [of handle "conns x" rx st]
  by (auto simp: drain_lines_def split: if_splits option.splits)

lemma clear_conn_inv: "\<forall>y. conn_inv (conns y) \<Longrightarrow> \<forall>y. conn_inv (clear_connection_buffer x conns y)"
  by (simp add: clear_connection_buffer_def conn_inv_def BUFFER_LEN_def)

lemma message_conn_inv:
  assumes "message_from_erlang st conns x rx now = Some (st', conns')" "\<forall>y. conn_inv (conns y)"
  shows "\<forall>y. conn_inv (conns' y)"
  using assms drain_lines_conn_inv [of "\<lambda>l s. erlang_to_C s l now" x conns rx st] clear_conn_inv
  by (auto simp: message_from_erlang_def Let_def split: option.splits if_splits)

lemma remote_conn_inv:
  assumes "recive_message_from_remote st conns x rx now = Some (st', conns')" "\<forall>y. conn_inv (conns y)"
  shows "\<forall>y. conn_inv (conns' y)"
  using assms drain_lines_conn_inv [of "\<lambda>l s. client_to_myserver s x l now" x conns rx st] clear_conn_inv
  by (auto simp: recive_message_from_remote_def bind_eq_Some_conv split: option.splits if_splits)

lemma dispatch_conn_inv:
  assumes "dispatch args ev s = Some s'" "\<forall>x. conn_inv (snd s x)"
  shows "\<forall>x. conn_inv (snd s' x)"
  using assms message_conn_inv [where conns = "snd s"] remote_conn_inv [where conns = "snd s"]
  by (cases s') (auto simp: dispatch_def Let_def bind_eq_Some_conv split: if_splits prod.splits)

lemma reachable_conn_inv: "reachable ok args s \<Longrightarrow> \<forall>x. conn_inv (snd s x)"
proof (induction rule: reachable.induct)
  case (start s)
  then show ?case by (auto elim: started_setup simp: conn_inv_initial)
next
  case (step s s')
  then show ?case by (elim agent_stepE) (rule dispatch_conn_inv)
qed

lemma reachable_state_wf:
  assumes "reachable ok args s" "server_inv (fst s)" "client_inv (fst s)" "nodes_ok (table_nodes (fst s))"
  shows "state_wf s"
  using assms reachable_conn_inv [OF assms(1)] client_invD(1,2) [OF assms(3)]
  by (simp add: state_wf_def server_inv_def)

section \<open>A concrete agent\<close>

text \<open>
  A start-up in which every call succeeds, for the examples: the listening sockets are 4
  and 5, the UDP socket 6, the timers 7 and 8; every peer is at address 1, port 2.
\<close>

definition demo_setup :: setup_results where
  "demo_setup =
     \<lparr>sr_epollfd = 3,
      sr_listen = \<lparr>lr_sockets = (4, 5, 6), lr_reuse_ok = True, lr_broadcast_ok = True,
        lr_bind_ok = True, lr_listen_ok = True\<rparr>,
      sr_add_ok = True, sr_broadcast_timer = (7, True, True), sr_timeout_timer = (8, True, True), sr_threads_ok = True\<rparr>"

definition demo_args :: worker_args where
  "demo_args = \<lparr>socket_server = 4, socket_erlang = 5, socket_UDP = 6, broadcast_timer_fd = 7,
     timeout_timer_fd = 8, w_port = 4200\<rparr>"

definition demo_init :: "outbound list \<Rightarrow> agent \<times> buffers" where
  "demo_init outs =
     (snd (projr (setup_epoll (main_init outs (\<lambda>_. Some (1, 2)) (\<lambda>_. 9)) 4200 demo_setup)),
      initialize_connection_buffers)"

lemma demo_started: "started demo_args (demo_init outs)"
proof -
  have "\<exists>st. setup_epoll (main_init outs (\<lambda>_. Some (1, 2)) (\<lambda>_. 9)) 4200 demo_setup = Inr (demo_args, st)"
    by (simp add: setup_epoll_def demo_setup_def demo_args_def initialize_listen_sockets_def make_timer_def
        Let_def word_sless_alt)
  then have "agent_main [] outs (\<lambda>_. Some (1, 2)) (\<lambda>_. 9) demo_setup = Inr (demo_args, demo_init outs)"
    by (auto simp: agent_main_def main_port_def demo_init_def)
  then show ?thesis unfolding started_def by blast
qed

lemmas demo_reachable = reachable.start [OF demo_started]

definition no_event :: event where
  "no_event = \<lparr>ev_fd = 0, ev_out = False, ev_accept = -1, ev_peer = Some (1, 2), ev_epoll_ok = True, ev_timer_ok = True,
     ev_rx = [], ev_datagram = [], ev_sender = 0, ev_now = 0\<rparr>"

definition accept_peer :: "fd \<Rightarrow> event" where
  "accept_peer x = no_event\<lparr>ev_fd := 4, ev_accept := x\<rparr>"

definition accept_scheduler :: "fd \<Rightarrow> event" where
  "accept_scheduler x = no_event\<lparr>ev_fd := 5, ev_accept := x\<rparr>"

definition receive :: "fd \<Rightarrow> string \<Rightarrow> event" where
  "receive x l = no_event\<lparr>ev_fd := x, ev_rx := [Segment (l @ [NEWLINE])]\<rparr>"

definition hang_up :: "fd \<Rightarrow> event" where
  "hang_up x = no_event\<lparr>ev_fd := x, ev_rx := [Closed]\<rparr>"

definition writable :: "fd \<Rightarrow> event" where
  "writable x = no_event\<lparr>ev_fd := x, ev_out := True\<rparr>"

definition tick :: "time_t \<Rightarrow> event" where
  "tick now = no_event\<lparr>ev_fd := 8, ev_now := now\<rparr>"

definition connected :: "fd \<Rightarrow> outbound" where
  "connected x = \<lparr>ob_fd = x, ob_connect_ok = True, ob_epoll_ok = True\<rparr>"

lemma reachable_mono:
  assumes "reachable ok args s" "\<And>amount. ok amount \<Longrightarrow> ok' amount"
  shows "reachable ok' args s"
  using assms(1)
proof induction
  case (step s s')
  then obtain ev where ev: "admissible ok args ev s" "dispatch args ev s = Some s'" by (elim agent_stepE)
  have "admissible ok' args ev s" using ev(1) assms(2) by (auto simp: admissible_def remote_line_ok_def Let_def)
  then show ?case using step.IH ev(2) by (blast intro: reachable.step agent_step.event)
qed (rule reachable.start)

end
