(* ===== verification/Protocol.thy ===== *)
theory Protocol
  imports Loopfunc
begin

text \<open>
  The text protocols: what one end of a connection prints is what the other end reads. Lines
  are built from tokens (\<open>words_line\<close>), \<open>get_token\<close> gives the tokens back, and from this
  follow the round trips of \<open>RESERVE\<close>, \<open>GRANTED\<close>, \<open>RELEASE\<close>, \<open>ANNOUNCE\<close> and
  \<open>JOB_REQUEST\<close>. \<open>NODES\<close> is described by the text it would be without its buffer.
\<close>

section \<open>Tokens\<close>

definition token_ok :: "string \<Rightarrow> bool" where
  "token_ok t \<longleftrightarrow> t \<noteq> [] \<and> (\<forall>c \<in> set t. c \<notin> set token_delims)"

fun words_line :: "string list \<Rightarrow> string" where
  "words_line [] = [NEWLINE]"
| "words_line [t] = t @ [NEWLINE]"
| "words_line (t # ts) = t @ '' '' @ words_line ts"

lemma token_loop_words:
  "\<forall>t \<in> set ts. token_ok t \<Longrightarrow> token_loop n (strtok_r token_delims (words_line ts)) = take n ts"
proof (induction ts arbitrary: n rule: words_line.induct)
  case 1
  then show ?case by (cases n) (simp_all add: strtok_r_None token_delims_def)
next
  case (2 t)
  then have "strtok_r token_delims (t @ [NEWLINE]) = (Some t, [])"
    by (intro strtok_r_token) (simp_all add: token_ok_def token_delims_def)
  moreover have "strtok_r token_delims [] = (None, [])" by (simp add: strtok_r_None)
  ultimately show ?case by (cases n; cases "n - 1") simp_all
next
  case (3 t u us)
  then have "strtok_r token_delims (t @ CHR 0x20 # words_line (u # us)) = (Some t, words_line (u # us))"
    by (intro strtok_r_token) (simp_all add: token_ok_def token_delims_def)
  then show ?case using 3 by (cases n) simp_all
qed

lemma get_token_words: "\<forall>t \<in> set ts. token_ok t \<Longrightarrow> get_token (words_line ts) n = take n ts"
  by (simp add: get_token_def token_loop_words)

lemma digit_not_delim: "isdigit c \<or> c = CHR ''-'' \<Longrightarrow> c \<notin> set token_delims \<and> c \<noteq> CHR '':'' \<and> c \<noteq> NUL"
  by (auto simp: isdigit_def token_delims_def)

lemma token_ok_fmt_d [simp]: "token_ok (fmt_d w)"
  using fmt_d_chars digit_not_delim by (auto simp: token_ok_def)

lemma fmt_d_no_colon: "c \<in> set (fmt_d w) \<Longrightarrow> c \<noteq> CHR '':'' \<and> c \<noteq> CHR 0x20 \<and> c \<noteq> NUL"
  using fmt_d_chars [of c w] by (auto simp: isdigit_def)

lemma atoi_fmt_d' [simp]: "atoi (fmt_d w) = w"
  using atoi_fmt_d [of "[]" w] by simp

lemma strncpy_fits: "length s < n \<Longrightarrow> strncpy_z n s = s"
  by (simp add: strncpy_z_def)

lemma token_ok_keywords [simp]:
  "token_ok ''RESERVE''" "token_ok ''GRANTED''" "token_ok ''RELEASE''" "token_ok ''ANNOUNCE''" "token_ok ''JOB_REQUEST''"
  by (simp_all add: token_ok_def token_delims_def)

section \<open>Messages between agents\<close>

text \<open>A resource name as the agent stores it: a token that fits \<open>char type[8]\<close>.\<close>

definition type_ok :: "string \<Rightarrow> bool" where
  "type_ok t \<longleftrightarrow> token_ok t \<and> length t < 8"

lemma reserve_text_words:
  assumes "type_ok (pr_type req)"
  shows "reserve_text job req = words_line [''RESERVE'', fmt_d (lj_job_id job), pr_type req, fmt_d (pr_amount req)]"
    "length (reserve_text job req) < 256"
proof -
  have "length (words_line [''RESERVE'', fmt_d (lj_job_id job), pr_type req, fmt_d (pr_amount req)]) < 256"
    using assms fmt_d_length [of "lj_job_id job"] fmt_d_length [of "pr_amount req"] by (simp add: type_ok_def)
  then show "reserve_text job req = words_line [''RESERVE'', fmt_d (lj_job_id job), pr_type req, fmt_d (pr_amount req)]"
    "length (reserve_text job req) < 256"
    by (simp_all add: reserve_text_def snprintf_fits)
qed

lemma granted_text_words:
  "granted_text req = words_line [''GRANTED'', fmt_d (rq_job_id req)]" "length (granted_text req) < 64"
proof -
  have "length (words_line [''GRANTED'', fmt_d (rq_job_id req)]) < 64"
    using fmt_d_length [of "rq_job_id req"] by simp
  then show "granted_text req = words_line [''GRANTED'', fmt_d (rq_job_id req)]" "length (granted_text req) < 64"
    by (simp_all add: granted_text_def snprintf_fits)
qed

lemma release_text_words:
  assumes "type_ok (pr_type g)"
  shows "release_text i g = words_line [''RELEASE'', fmt_d i, pr_type g, fmt_d (pr_amount g)]"
    "length (release_text i g) < 128"
proof -
  have "length (words_line [''RELEASE'', fmt_d i, pr_type g, fmt_d (pr_amount g)]) < 128"
    using assms fmt_d_length [of i] fmt_d_length [of "pr_amount g"] by (simp add: type_ok_def)
  then show "release_text i g = words_line [''RELEASE'', fmt_d i, pr_type g, fmt_d (pr_amount g)]"
    "length (release_text i g) < 128"
    by (simp_all add: release_text_def snprintf_fits)
qed

lemma read_message:
  assumes "\<forall>t \<in> set ts. token_ok t" "length (words_line ts) < BUFFER_LEN" "length ts \<le> n"
  shows "get_token (strncpy_z BUFFER_LEN (words_line ts)) n = ts"
  using assms by (simp add: strncpy_fits get_token_words)

section \<open>Announcements\<close>

lemma get_quantity_text:
  assumes "name \<noteq> []" "\<forall>c \<in> set name. c \<noteq> CHR '':''"
  shows "get_quantity (name @ '':'' @ fmt_d n) = n"
proof -
  have "strtok_r '':'' (name @ CHR '':'' # fmt_d n) = (Some name, fmt_d n)"
    using assms by (intro strtok_r_token) auto
  moreover have "strtok_r '' '' (fmt_d n) = (Some (fmt_d n), [])"
    using fmt_d_no_colon by (intro strtok_r_last) auto
  ultimately show ?thesis by (simp add: get_quantity_def)
qed

definition announce_words :: "cint \<Rightarrow> cint \<Rightarrow> cint \<Rightarrow> cint \<Rightarrow> string list" where
  "announce_words port cpu mem gpu =
     [''ANNOUNCE'', fmt_d port, ''cpu:'' @ fmt_d cpu, ''mem:'' @ fmt_d mem, ''gpu:'' @ fmt_d gpu]"

lemma token_ok_Cons: "c \<notin> set token_delims \<Longrightarrow> token_ok t \<Longrightarrow> token_ok (c # t)"
  by (simp add: token_ok_def)

lemma announce_words_ok: "\<forall>t \<in> set (announce_words port cpu mem gpu). token_ok t"
  by (simp add: announce_words_def token_ok_Cons token_delims_def)

lemma announce_text_words:
  "announce_text st port = words_line (announce_words port (resources_left (cpu_queue st))
     (resources_left (mem_queue st)) (resources_left (gpu_queue st)))"
  "length (announce_text st port) < 126"
proof -
  let ?c = "resources_left (cpu_queue st)" and ?m = "resources_left (mem_queue st)" and ?g = "resources_left (gpu_queue st)"
  have "length (words_line (announce_words port ?c ?m ?g)) < 126"
    using fmt_d_length [of port] fmt_d_length [of ?c] fmt_d_length [of ?m] fmt_d_length [of ?g]
    by (simp add: announce_words_def)
  then show "announce_text st port = words_line (announce_words port ?c ?m ?g)" "length (announce_text st port) < 126"
    by (simp_all add: announce_text_def announce_words_def snprintf_fits)
qed

lemma announce_no_NUL: "NUL \<notin> set (words_line (announce_words port cpu mem gpu))"
  using fmt_d_no_colon by (auto simp: announce_words_def)

lemma announce_datagram:
  "get_token (strncpy_z BUFFER_LEN (datagram_string (announce_text st port))) 10 =
     announce_words port (resources_left (cpu_queue st)) (resources_left (mem_queue st)) (resources_left (gpu_queue st))"
proof -
  let ?w = "announce_words port (resources_left (cpu_queue st)) (resources_left (mem_queue st)) (resources_left (gpu_queue st))"
  have len: "length (words_line ?w) < BUFFER_LEN"
    using announce_text_words [of st port] by (simp add: BUFFER_LEN_def)
  have "takeWhile (\<lambda>c. c \<noteq> NUL) (words_line ?w) = words_line ?w"
    using announce_no_NUL by (intro takeWhile_eq_all_conv [THEN iffD2]) metis
  then have "datagram_string (announce_text st port) = words_line ?w"
    using len by (simp add: datagram_string_def announce_text_words(1))
  then show ?thesis using read_message [OF announce_words_ok len] by (simp add: announce_words_def)
qed

section \<open>The requests of a job\<close>

definition dest_text :: "string \<Rightarrow> string \<Rightarrow> cint \<Rightarrow> string" where
  "dest_text ip res amount = ''@'' @ ip @ '':'' @ res @ '':'' @ fmt_d amount"

definition dest_ok :: "string \<Rightarrow> string \<Rightarrow> bool" where
  "dest_ok ip res \<longleftrightarrow>
     token_ok ip \<and> length ip < 16 \<and> CHR '':'' \<notin> set ip \<and> type_ok res \<and> CHR '':'' \<notin> set res"

lemma dest_text_length: "dest_ok ip res \<Longrightarrow> length (dest_text ip res amount) \<le> 36"
  using fmt_d_length [of amount] by (simp add: dest_text_def dest_ok_def type_ok_def)

lemma token_ok_append: "token_ok a \<Longrightarrow> token_ok b \<Longrightarrow> token_ok (a @ b)"
  by (auto simp: token_ok_def)

lemma dest_text_token: "dest_ok ip res \<Longrightarrow> token_ok (dest_text ip res amount)"
  unfolding dest_text_def dest_ok_def type_ok_def
  by (intro token_ok_append token_ok_fmt_d) (simp_all add: token_ok_def token_delims_def)

lemma parse_dest_text:
  assumes "dest_ok ip res"
  shows "parse_dest st (dest_text ip res amount) =
    Some \<lparr>pr_type = res, pr_amount = amount, pr_dest_ip = ip, pr_dest_port = resolve_port st ip, pr_provider_fd = -1\<rparr>"
proof -
  have "strncpy_z 256 (dest_text ip res amount) = dest_text ip res amount"
    using dest_text_length [OF assms, of amount] by (intro strncpy_fits) simp
  moreover have "strtok_r '':'' (ip @ CHR '':'' # res @ CHR '':'' # fmt_d amount) = (Some ip, res @ CHR '':'' # fmt_d amount)"
    "strtok_r '':'' (res @ CHR '':'' # fmt_d amount) = (Some res, fmt_d amount)"
    using assms by (auto simp: dest_ok_def type_ok_def token_ok_def intro!: strtok_r_token)
  moreover have "strtok_r '' '' (fmt_d amount) = (Some (fmt_d amount), [])"
    using fmt_d_no_colon by (intro strtok_r_last) auto
  moreover have "strncpy_z 8 res = res" "strncpy_z 16 ip = ip"
    using assms by (simp_all add: dest_ok_def type_ok_def strncpy_fits)
  ultimately show ?thesis by (simp add: parse_dest_def dest_text_def Let_def)
qed

lemma parse_dests_texts:
  "\<forall>(ip, res, amount) \<in> set ds. dest_ok ip res \<Longrightarrow>
   parse_dests st (map (\<lambda>(ip, res, amount). dest_text ip res amount) ds) =
     map (\<lambda>(ip, res, amount). \<lparr>pr_type = res, pr_amount = amount, pr_dest_ip = ip,
       pr_dest_port = resolve_port st ip, pr_provider_fd = -1\<rparr>) ds"
  by (induction ds) (auto simp: parse_dest_text)

definition job_request_text :: "cint \<Rightarrow> (string \<times> string \<times> cint) list \<Rightarrow> string" where
  "job_request_text i ds =
     words_line (''JOB_REQUEST'' # fmt_d i # map (\<lambda>(ip, res, amount). dest_text ip res amount) ds)"

lemma job_request_tokens:
  assumes "\<forall>(ip, res, amount) \<in> set ds. dest_ok ip res" "length (job_request_text i ds) < BUFFER_LEN" "length ds \<le> 30"
  shows "get_token (strncpy_z BUFFER_LEN (job_request_text i ds)) 32 =
    ''JOB_REQUEST'' # fmt_d i # map (\<lambda>(ip, res, amount). dest_text ip res amount) ds"
  unfolding job_request_text_def
proof (rule read_message)
  show "\<forall>t \<in> set (''JOB_REQUEST'' # fmt_d i # map (\<lambda>(ip, res, amount). dest_text ip res amount) ds). token_ok t"
    using assms(1) dest_text_token by auto
qed (use assms in \<open>simp_all add: job_request_text_def\<close>)

section \<open>The NODES reply\<close>

fun nodes_body :: "bool \<Rightarrow> received_node list \<Rightarrow> string" where
  "nodes_body first [] = []"
| "nodes_body first (n # ns) = (if first then [] else '';'') @ node_text n @ nodes_body False ns"

text \<open>The buffer holds what fits of the ideal text \<open>s\<close>; the offset is exact until it is full.\<close>

definition prints :: "string \<times> nat \<Rightarrow> string \<Rightarrow> bool" where
  "prints b s \<longleftrightarrow> fst b = take (NODES_BUFFER - 1) s \<and>
     (if length s < NODES_BUFFER then snd b = length s else NODES_BUFFER \<le> snd b)"

lemma prints_append:
  assumes "prints (tx, offset) s"
  shows "prints (if offset < NODES_BUFFER then append_at (tx, offset) x else (tx, offset)) (s @ x)"
proof (cases "offset < NODES_BUFFER")
  case True
  then have s: "length s < NODES_BUFFER" "offset = length s" "tx = s"
    using assms by (auto simp: prints_def split: if_splits)
  then show ?thesis
    by (auto simp: prints_def append_at_def snprintf_def NODES_BUFFER_def)
next
  case False
  then have "\<not> length s < NODES_BUFFER" using assms by (auto simp: prints_def split: if_splits)
  then show ?thesis using False assms by (auto simp: prints_def NODES_BUFFER_def)
qed

lemma prints_step:
  assumes "prints (tx, offset) s"
  shows "\<exists>tx' offset'. nodes_step n (tx, offset, first) = (tx', offset', False) \<and>
    prints (tx', offset') (s @ (if first then [] else '';'') @ node_text n)"
proof -
  let ?sep = "if first then [] else '';''"
  let ?b1 = "if \<not> first \<and> offset < NODES_BUFFER then append_at (tx, offset) '';'' else (tx, offset)"
  have "prints ?b1 (s @ ?sep)"
    using prints_append [OF assms, of "'';''"] assms by auto
  moreover obtain t1 o1 where b1: "?b1 = (t1, o1)" by fastforce
  ultimately have "prints (if o1 < NODES_BUFFER then append_at (t1, o1) (node_text n) else (t1, o1)) ((s @ ?sep) @ node_text n)"
    by (intro prints_append) simp
  moreover obtain t2 o2 where "(if o1 < NODES_BUFFER then append_at (t1, o1) (node_text n) else (t1, o1)) = (t2, o2)" by fastforce
  ultimately show ?thesis using b1 by (simp add: nodes_step_def)
qed

lemma prints_fold:
  "prints (tx, offset) s \<Longrightarrow>
     \<exists>tx' offset' first'. fold nodes_step ns (tx, offset, first) = (tx', offset', first') \<and>
       prints (tx', offset') (s @ nodes_body first ns)"
proof (induction ns arbitrary: tx offset s first)
  case (Cons n ns)
  obtain t1 o1 where step: "nodes_step n (tx, offset, first) = (t1, o1, False)"
    and p: "prints (t1, o1) (s @ (if first then [] else '';'') @ node_text n)"
    using prints_step [OF Cons.prems] by metis
  from Cons.IH [OF p, of False] step show ?case by simp
qed simp

lemma fold_buckets: "fold (\<lambda>i b. fold f (xss ! i) b) [0..<length xss] b = fold f (concat xss) b"
proof -
  have "fold (\<lambda>i b. fold f (xss ! i) b) [0..<length xss] b = fold (fold f) (map ((!) xss) [0..<length xss]) b"
    by (simp add: fold_map o_def)
  also have "\<dots> = fold f (concat xss) b" unfolding map_nth by (induction xss arbitrary: b) simp_all
  finally show ?thesis .
qed

lemma get_nodes_instance_text:
  assumes "nodes_ok t"
  shows "get_nodes_instance t = snprintf NODES_BUFFER (''NODES '' @ nodes_body True (table_data t) @ [NEWLINE])"
proof -
  let ?s = "''NODES '' @ nodes_body True (table_data t)"
  have cap: "unat (capacity t) = length (elems t)"
    using nodes.ok_facts [OF assms] by simp
  have "prints (snprintf NODES_BUFFER ''NODES '', 6) ''NODES ''"
    by (simp add: prints_def snprintf_def NODES_BUFFER_def)
  from prints_fold [OF this, of "table_data t" True]
  obtain tx offset first where f: "fold nodes_step (table_data t) (snprintf NODES_BUFFER ''NODES '', 6, True) = (tx, offset, first)"
    and p: "prints (tx, offset) ?s" by blast
  have "get_nodes_instance t =
      (if offset < NODES_BUFFER - 1 then fst (append_at (tx, offset) [NEWLINE]) else tx)"
    using f unfolding get_nodes_instance_def cap fold_buckets by (simp add: table_data_def)
  also have "\<dots> = snprintf NODES_BUFFER (?s @ [NEWLINE])"
    using p by (auto simp: prints_def append_at_def snprintf_def NODES_BUFFER_def split: if_splits)
  finally show ?thesis by simp
qed

text \<open>The line that \<open>send_request\<close> prints, as the receiving agent dispatches it.\<close>

lemma reserve_understood:
  assumes "type_ok (pr_type req)"
  shows "client_to_myserver st x (reserve_text job req) now =
    enqueue_jobs st (pr_type req) (lj_job_id job) (pr_amount req) x"
proof -
  let ?w = "[''RESERVE'', fmt_d (lj_job_id job), pr_type req, fmt_d (pr_amount req)]"
  have "get_token (strncpy_z BUFFER_LEN (reserve_text job req)) 10 = ?w"
    unfolding reserve_text_words(1) [OF assms]
    by (rule read_message) (use assms reserve_text_words [OF assms, of job] in \<open>simp_all add: type_ok_def BUFFER_LEN_def\<close>)
  then show ?thesis by (simp add: client_to_myserver_def)
qed

section \<open>Properties\<close>

text \<open>
  \<open>GRANTED\<close> is understood: the line that \<open>drain_queue\<close> prints makes the client handle a
  grant for the same job id.
\<close>

theorem granted_is_understood:
  "client_to_myserver st x (granted_text req) now = handle_granted st x (rq_job_id req) now"
proof -
  have "get_token (strncpy_z BUFFER_LEN (granted_text req)) 10 = [''GRANTED'', fmt_d (rq_job_id req)]"
    unfolding granted_text_words(1)
    by (rule read_message) (use granted_text_words [of req] in \<open>simp_all add: BUFFER_LEN_def\<close>)
  then show ?thesis by (simp add: client_to_myserver_def)
qed

text \<open>
  \<open>RELEASE\<close> is understood: the line that \<open>release_resources\<close> prints for something it
  holds makes the provider give back what it lent on that connection.
\<close>

theorem release_is_understood:
  assumes "type_ok (pr_type g)"
  shows "client_to_myserver st x (release_text i g) now = release_client_by_fd st x"
proof -
  have "get_token (strncpy_z BUFFER_LEN (release_text i g)) 10 = [''RELEASE'', fmt_d i, pr_type g, fmt_d (pr_amount g)]"
    unfolding release_text_words(1) [OF assms]
    by (rule read_message) (use assms release_text_words [OF assms, of i] in \<open>simp_all add: type_ok_def BUFFER_LEN_def\<close>)
  then show ?thesis by (simp add: client_to_myserver_def)
qed

theorem release_is_understood_witness:
  "client_to_myserver new_agent 10
     (release_text 7 \<lparr>pr_type = ''gpu'', pr_amount = 1, pr_dest_ip = ''10.0.0.2'', pr_dest_port = 4200, pr_provider_fd = 30\<rparr>) 0 =
   release_client_by_fd new_agent 10"
  by (rule release_is_understood) (simp add: type_ok_def token_ok_def token_delims_def)

text \<open>
  C34. \<open>ANNOUNCE\<close> is understood: a peer that receives the datagram that \<open>udp_broadcast\<close> sends
  stores, under the sender's address, exactly the port and the free amounts of the announcing
  agent and the time of reception.
\<close>

theorem announce_is_understood:
  "udp_datagram_from_remote st (announce_text peer port) sender now =
     st\<lparr>table_nodes := tablahash_insert (table_nodes st)
        \<lparr>node_ip = sender, node_port = port, node_gpu = resources_left (gpu_queue peer),
         node_mem = resources_left (mem_queue peer), node_cpu = resources_left (cpu_queue peer), node_time = now\<rparr>\<rparr>"
proof -
  have "announce_text peer port \<noteq> []" by (simp add: announce_text_words announce_words_def)
  moreover have "get_quantity (''cpu:'' @ fmt_d n) = n" "get_quantity (''mem:'' @ fmt_d n) = n"
    "get_quantity (''gpu:'' @ fmt_d n) = n" for n
    using get_quantity_text [of "''cpu''" n] get_quantity_text [of "''mem''" n] get_quantity_text [of "''gpu''" n] by simp_all
  ultimately show ?thesis
    by (simp add: udp_datagram_from_remote_def announce_datagram announce_words_def)
qed

text \<open>
  C33. \<open>JOB_REQUEST\<close> is understood: a command with at most 30 well-formed destinations that
  fits the line buffer creates a job with exactly these requests, in the order of the
  command, each with the port known for its address (4200 for an unknown one), and starts
  asking for the first of them.
\<close>

theorem job_request_is_understood:
  assumes "\<forall>(ip, res, amount) \<in> set ds. dest_ok ip res" "length (job_request_text i ds) < BUFFER_LEN"
    "0 < length ds" "length ds \<le> 30"
  shows "erlang_to_C st (job_request_text i ds) now =
    ask_for_next_resource
      (st\<lparr>table_localjobs := tablahash_insert (table_localjobs st)
            \<lparr>lj_self = fresh_job st, lj_job_id = i, lj_erlang_socket = erlangfd st, lj_origin_socket = -1,
             lj_next_req = map (\<lambda>(ip, res, amount). \<lparr>pr_type = res, pr_amount = amount, pr_dest_ip = ip,
               pr_dest_port = resolve_port st ip, pr_provider_fd = -1\<rparr>) ds,
             lj_granted_reqs = [], lj_timer = now\<rparr>,
          fresh_job := Suc (fresh_job st)\<rparr>)
      (fresh_job st)"
  using assms(3) unfolding erlang_to_C_def job_request_tokens [OF assms(1,2,4)]
  by (simp add: job_request_def parse_dests_texts [OF assms(1)] Let_def)

theorem job_request_is_understood_witness:
  "erlang_to_C new_agent (job_request_text 3 [(''10.0.0.2'', ''cpu'', 2)]) 0 =
    ask_for_next_resource
      (new_agent\<lparr>table_localjobs := tablahash_insert (table_localjobs new_agent)
            \<lparr>lj_self = fresh_job new_agent, lj_job_id = 3, lj_erlang_socket = erlangfd new_agent, lj_origin_socket = -1,
             lj_next_req = [\<lparr>pr_type = ''cpu'', pr_amount = 2, pr_dest_ip = ''10.0.0.2'',
               pr_dest_port = resolve_port new_agent ''10.0.0.2'', pr_provider_fd = -1\<rparr>],
             lj_granted_reqs = [], lj_timer = 0\<rparr>,
          fresh_job := Suc (fresh_job new_agent)\<rparr>)
      (fresh_job new_agent)"
proof -
  have "dest_ok ''10.0.0.2'' ''cpu''" by (simp add: dest_ok_def type_ok_def token_ok_def token_delims_def)
  moreover have "length (job_request_text 3 [(''10.0.0.2'', ''cpu'', 2)]) < BUFFER_LEN" by code_simp
  ultimately show ?thesis using job_request_is_understood [of "[(''10.0.0.2'', ''cpu'', 2)]" 3 new_agent 0] by simp
qed

text \<open>
  The \<open>NODES\<close> reply is the list of the known peers separated by semicolons, each with its
  address, port and free amounts, and a newline at the end, cut to the 8191 bytes its buffer holds.
\<close>

theorem nodes_reply_lists_the_peers:
  assumes "nodes_ok (table_nodes st)" "erlangfd st \<in> open_fds st"
  shows "sent (get_nodes st) = sent st @
    [(erlangfd st, take 8191 (''NODES '' @ nodes_body True (table_data (table_nodes st)) @ [NEWLINE]))]"
  using assms by (simp add: get_nodes_def sys_send_def get_nodes_instance_text snprintf_def NODES_BUFFER_def)

theorem nodes_reply_lists_the_peers_witness:
  "sent (get_nodes (new_agent\<lparr>erlangfd := 20, open_fds := {20}\<rparr>)) = [(20, ''NODES '' @ [NEWLINE])]"
  by (subst nodes_reply_lists_the_peers) (simp_all add: new_agent_def main_init_def create_tables_ok created_empty)

end
