(* ===== verification/Job_Lifecycle.thy ===== *)
theory Job_Lifecycle
  imports Client_Safety Protocol
begin

text \<open>
  The functional behaviour of the client side: what each handler does to the jobs and what it
  sends. A job is created by \<open>JOB_REQUEST\<close>, asks for its resources one at a time in the order
  of the command, and ends by \<open>JOB_RELEASE\<close>, a refusal, a lost provider or a timeout.
\<close>

section \<open>Messages to the scheduler\<close>

lemma token_ok_keyword: "token_ok ''JOB_STATUS''"
  by (simp add: token_ok_def token_delims_def)

lemma C_to_erlang_sends:
  assumes "erlangfd st \<in> open_fds st" "length s < 1000"
  shows "C_to_erlang st i s = st\<lparr>sent := sent st @ [(erlangfd st, erlang_text i s)]\<rparr>"
  using assms by (simp add: C_to_erlang_def erlang_text_def sys_send_def BUFFER_LEN_def Let_def)

lemma id_str_short: "length (id_str i) < 1000"
  using fmt_d_length [of i] by (simp add: id_str_fits)

section \<open>Releasing what a job holds\<close>

definition held :: "pending_resource_t list \<Rightarrow> pending_resource_t list" where
  "held gs = filter (\<lambda>g. 0 \<le>s pr_provider_fd g) gs"

lemma held_simps [simp]:
  "held [] = []" "held (g # gs) = (if 0 \<le>s pr_provider_fd g then g # held gs else held gs)"
  by (simp_all add: held_def)

lemma release_loop_Cons:
  "fst (release_loop i (g # gs) st) =
     fst (release_loop i gs (if 0 \<le>s pr_provider_fd g
       then sys_close (epoll_ctl_del (sys_send st (pr_provider_fd g) (release_text i g)) (pr_provider_fd g)) (pr_provider_fd g)
       else st))"
  "snd (release_loop i (g # gs) st) =
     (if 0 \<le>s pr_provider_fd g then g\<lparr>pr_provider_fd := -1\<rparr> else g) #
     snd (release_loop i gs (if 0 \<le>s pr_provider_fd g
       then sys_close (epoll_ctl_del (sys_send st (pr_provider_fd g) (release_text i g)) (pr_provider_fd g)) (pr_provider_fd g)
       else st))"
  by (simp_all add: Let_def split: prod.split)

text \<open>Every provider that still holds something for the job is told, and its socket closed.\<close>

lemma release_loop_sends:
  assumes "distinct (map pr_provider_fd (held gs))" "pr_provider_fd ` set (held gs) \<subseteq> open_fds st"
  shows "sent (fst (release_loop i gs st)) = sent st @ map (\<lambda>g. (pr_provider_fd g, release_text i g)) (held gs) \<and>
    open_fds (fst (release_loop i gs st)) = open_fds st - pr_provider_fd ` set (held gs)"
  using assms
proof (induction gs arbitrary: st)
  case (Cons g gs)
  let ?x = "pr_provider_fd g"
  let ?st2 = "sys_close (epoll_ctl_del (sys_send st ?x (release_text i g)) ?x) ?x"
  show ?case
  proof (cases "0 \<le>s ?x")
    case True
    then have st2: "sent ?st2 = sent st @ [(?x, release_text i g)]" "open_fds ?st2 = open_fds st - {?x}"
      using Cons.prems(2) unfolding release_step_shape by (simp_all add: sys_send_def)
    have "pr_provider_fd ` set (held gs) \<subseteq> open_fds ?st2" "distinct (map pr_provider_fd (held gs))"
      using Cons.prems True unfolding st2 by (simp_all add: subset_Diff_insert)
    note ih = Cons.IH [OF this(2,1), unfolded st2]
    have "sent (fst (release_loop i (g # gs) st)) = sent st @ map (\<lambda>g. (pr_provider_fd g, release_text i g)) (held (g # gs))"
      unfolding release_loop_Cons using ih True by simp
    moreover have "open_fds (fst (release_loop i (g # gs) st)) = open_fds st - {?x} - pr_provider_fd ` set (held gs)"
      unfolding release_loop_Cons using ih True by simp
    moreover have "open_fds st - {?x} - pr_provider_fd ` set (held gs) = open_fds st - pr_provider_fd ` set (held (g # gs))"
      using True by auto
    ultimately show ?thesis by simp
  next
    case False
    then show ?thesis using Cons.IH [of st] Cons.prems unfolding release_loop_Cons by simp
  qed
qed simp

lemma release_loop_fds: "g \<in> set (snd (release_loop i gs st)) \<Longrightarrow> \<not> 0 \<le>s pr_provider_fd g"
proof (induction gs arbitrary: st)
  case (Cons h gs)
  then show ?case unfolding release_loop_Cons(2) by (auto simp: word_sle_eq split: if_splits)
qed simp

section \<open>The end of a job\<close>

lemma retired_by_id:
  assumes inv: "client_inv st" and job: "live_job st job" and r: "retire_job st1 st' (lj_self job)"
    and same: "table_localjobs st1 = table_localjobs st"
  shows "live_job st' j \<longleftrightarrow> live_job st j \<and> lj_job_id j \<noteq> lj_job_id job"
proof -
  have "lj_self j = lj_self job \<longleftrightarrow> lj_job_id j = lj_job_id job" if "live_job st j"
    using that job localjobs.ok_facts(7) [OF client_invD(1) [OF inv]] client_invD(3) [OF inv]
    by (metis distinct_map inj_onD live_job_def)
  moreover have "live_job st' j \<longleftrightarrow> live_job st j \<and> lj_self j \<noteq> lj_self job"
    using r same by (simp add: retire_job_def live_job_def)
  ultimately show ?thesis by blast
qed

lemma timeout_job_live:
  assumes inv: "client_inv st" and t: "timeout_job st i = Some st'"
  shows "live_job st' j \<longleftrightarrow> live_job st j \<and> lj_job_id j \<noteq> i"
proof (cases "tablahash_find (table_localjobs st) (localjob_key i)")
  case None
  then have "table_map lj_job_id (table_localjobs st) i = None"
    using localjobs.find_map [OF client_invD(1) [OF inv], of "localjob_key i"] by simp
  then show ?thesis
    using None t table_map_NoneD [of lj_job_id "table_localjobs st" i j] by (auto simp: timeout_job_def live_job_def)
next
  case (Some job)
  note live = find_job_live [OF inv Some]
  show ?thesis
  proof (rule drop_job_retire [OF inv Some, where i = "''timeout''" and s = "id_str (lj_job_id job)"])
    fix st2
    assume "release_resources (teardown_outbound st job) (lj_self job) = Some st2"
      and "retire_job (teardown_outbound st job)
        ((C_to_erlang st2 ''timeout'' (id_str (lj_job_id job)))\<lparr>table_localjobs :=
          tablahash_remove_lock (table_localjobs (C_to_erlang st2 ''timeout'' (id_str (lj_job_id job)))) job\<rparr>) (lj_self job)"
    then have "retire_job (teardown_outbound st job) st' (lj_self job)"
      using t Some by (simp add: timeout_job_def Let_def)
    from retired_by_id [OF inv live(1) this teardown_outbound_spec(3) [OF inv live(1)]] live(2)
    show ?thesis by simp
  qed
qed

lemma timeout_jobs_live:
  "client_inv st \<Longrightarrow> timeout_jobs st ids = Some st' \<Longrightarrow> live_job st' j \<longleftrightarrow> live_job st j \<and> lj_job_id j \<notin> set ids"
proof (induction ids arbitrary: st)
  case (Cons i ids)
  then obtain st1 where st1: "timeout_job st i = Some st1" "timeout_jobs st1 ids = Some st'"
    by (auto simp: bind_eq_Some_conv)
  have "client_inv st1" using timeout_job_step [OF Cons.prems(1), of "{}" i] st1(1) by simp
  then show ?case using Cons.IH [of st1] st1(2) timeout_job_live [OF Cons.prems(1) st1(1)] by auto
qed simp

lemma sweep_live:
  assumes inv: "client_inv st"
    and few: "length (filter (job_expired now) (table_data (table_localjobs st))) \<le> MAX_TIMEOUTS_PER_TICK"
  shows "\<exists>st'. check_ourjob_timeouts st now = Some st' \<and> client_inv st' \<and>
    (\<forall>j. live_job st' j \<longleftrightarrow> live_job st j \<and> \<not> job_expired now j)"
proof -
  let ?ids = "map lj_job_id (filter (job_expired now) (table_data (table_localjobs st)))"
  obtain st' where st': "timeout_jobs st ?ids = Some st'" "client_inv st'"
    by (rule client_stepE [OF timeout_jobs_step [OF inv, of "{}" ?ids]])
  have "lj_job_id j \<in> set ?ids \<longleftrightarrow> job_expired now j" if "live_job st j" for j
    using that localjobs.ok_facts(7) [OF client_invD(1) [OF inv]]
    by (auto simp: live_job_def distinct_map dest: inj_onD)
  then show ?thesis
    using few st' timeout_jobs_live [OF inv st'(1)] by (auto simp: check_ourjob_timeouts_expired)
qed

lemma job_release_live:
  assumes inv: "client_inv st" and t: "job_release st tokens = Some st'" and n: "2 \<le> length tokens"
  shows "live_job st' j \<longleftrightarrow> live_job st j \<and> lj_job_id j \<noteq> atoi (tokens ! 1)"
proof (cases "tablahash_find (table_localjobs st) (localjob_key (atoi (tokens ! 1)))")
  case None
  then have "table_map lj_job_id (table_localjobs st) (atoi (tokens ! 1)) = None"
    using localjobs.find_map [OF client_invD(1) [OF inv], of "localjob_key (atoi (tokens ! 1))"] by simp
  then show ?thesis
    using None t n table_map_NoneD [of lj_job_id "table_localjobs st" "atoi (tokens ! 1)" j]
    by (auto simp: job_release_def live_job_def)
next
  case (Some job)
  note live = find_job_live [OF inv Some]
  show ?thesis
  proof (rule drop_job_retire [OF inv Some])
    fix st2
    assume "release_resources (teardown_outbound st job) (lj_self job) = Some st2"
      and "retire_job (teardown_outbound st job) (st2\<lparr>table_localjobs := tablahash_remove_lock (table_localjobs st2) job\<rparr>) (lj_self job)"
    then have "retire_job (teardown_outbound st job) st' (lj_self job)"
      using t n Some by (simp add: job_release_def)
    from retired_by_id [OF inv live(1) this teardown_outbound_spec(3) [OF inv live(1)]] live(2)
    show ?thesis by simp
  qed
qed

section \<open>The next resource\<close>

text \<open>\<open>GRANTED\<close> moves the request at the head of the list to what the job holds.\<close>

definition grant_head :: "fd \<Rightarrow> time_t \<Rightarrow> local_job_t \<Rightarrow> local_job_t" where
  "grant_head x now j =
     j\<lparr>lj_next_req := tl (lj_next_req j),
       lj_granted_reqs := (hd (lj_next_req j))\<lparr>pr_provider_fd := x\<rparr> # lj_granted_reqs j, lj_timer := now\<rparr>"

lemma deref_write:
  assumes "\<And>j. lj_self (f j) = lj_self j"
  shows "deref_job (write_job st a f) a = map_option f (deref_job st a)"
proof -
  have "find (\<lambda>j. lj_self j = a) (map (\<lambda>j. if lj_self j = a then f j else j) js) =
      map_option f (find (\<lambda>j. lj_self j = a) js)" for js
    using assms by (induction js) auto
  then show ?thesis by (simp add: deref_job_def)
qed

lemma deref_cong: "table_localjobs st' = table_localjobs st \<Longrightarrow> deref_job st' a = deref_job st a"
  by (simp add: deref_job_def)

text \<open>
  An answer for the job that waits on this socket, with its id: the head request is held by
  this provider, and the job goes on with the rest of its list.
\<close>

lemma handle_granted_moves:
  assumes inv: "client_inv st" and found: "tablahash_find (table_ourjobs st) (fd_key x) = Some e"
    and job: "deref_job st (entry_job e) = Some job"
  obtains st1 where "handle_granted st x (lj_job_id job) now = ask_for_next_resource st1 (lj_self job)"
    "deref_job st1 (lj_self job) = Some (grant_head x now job)"
    "sent st1 = sent st" "open_fds st1 = open_fds st" "erlangfd st1 = erlangfd st" "os_outbound st1 = os_outbound st"
    "connects st1 = connects st" "epoll_set st1 = (epoll_set st)(x := None)"
    "table_ourjobs st1 = tablahash_remove (table_ourjobs st) (fd_key x)"
proof -
  have j: "lj_self job = entry_job e" "lj_next_req job \<noteq> []"
    by (rule index_deref [OF inv found]; use job in simp)+
  let ?f = "\<lambda>j. (case lj_next_req j of [] \<Rightarrow> j
      | req # rest \<Rightarrow> j\<lparr>lj_next_req := rest, lj_granted_reqs := req\<lparr>pr_provider_fd := x\<rparr> # lj_granted_reqs j\<rparr>)
      \<lparr>lj_timer := now\<rparr>"
  let ?st1 = "write_job st (entry_job e) ?f"
  let ?st2 = "epoll_ctl_del (?st1\<lparr>table_ourjobs := tablahash_remove_lock (table_ourjobs ?st1) (fd_key x)\<rparr>) x"
  have "?f job = grant_head x now job" using j(2) by (cases "lj_next_req job") (simp_all add: grant_head_def)
  moreover have "deref_job ?st1 (entry_job e) = Some (?f job)"
    using deref_write [of ?f st "entry_job e"] job by (simp split: list.split)
  ultimately have d: "deref_job ?st2 (lj_self job) = Some (grant_head x now job)"
    using j(1) deref_cong [of ?st2 ?st1] by simp
  have h: "handle_granted st x (lj_job_id job) now = ask_for_next_resource ?st2 (lj_self job)"
    using found job j(1) by (simp add: handle_granted_def)
  show ?thesis
    by (rule that [OF h d]) (simp_all add: write_job_def epoll_ctl_del_def tablahash_remove_lock_def)
qed

lemma ask_last:
  assumes "deref_job st a = Some job" "lj_next_req job = []" "erlangfd st \<in> open_fds st"
  shows "ask_for_next_resource st a = Some (st\<lparr>sent := sent st @ [(erlangfd st, erlang_text ''granted'' (fmt_d (lj_job_id job)))]\<rparr>)"
  using assms C_to_erlang_sends [OF assms(3) id_str_short, of "''granted''" "lj_job_id job"]
  by (simp add: ask_for_next_resource_def id_str_fits)

text \<open>The answer to the only pending request of a job.\<close>

lemma handle_last_grant:
  assumes "client_inv st" "tablahash_find (table_ourjobs st) (fd_key x) = Some e"
    "deref_job st (entry_job e) = Some job" "lj_next_req job = [req]" "erlangfd st \<in> open_fds st"
  shows "\<exists>st' job'. handle_granted st x (lj_job_id job) now = Some st' \<and>
    deref_job st' (entry_job e) = Some job' \<and> lj_next_req job' = [] \<and>
    lj_granted_reqs job' = req\<lparr>pr_provider_fd := x\<rparr> # lj_granted_reqs job \<and>
    sent st' = sent st @ [(erlangfd st, ''JOB_GRANTED '' @ fmt_d (lj_job_id job) @ [NEWLINE])]"
proof -
  obtain st1 where st1: "handle_granted st x (lj_job_id job) now = ask_for_next_resource st1 (lj_self job)"
    "deref_job st1 (lj_self job) = Some (grant_head x now job)" "sent st1 = sent st" "open_fds st1 = open_fds st"
    "erlangfd st1 = erlangfd st"
    by (rule handle_granted_moves [OF assms(1-3), of now])
  let ?st' = "st1\<lparr>sent := sent st1 @ [(erlangfd st1, erlang_text ''granted'' (fmt_d (lj_job_id job)))]\<rparr>"
  have self: "lj_self job = entry_job e" using deref_jobD [OF assms(3)] by simp
  have r: "ask_for_next_resource st1 (lj_self job) = Some ?st'"
    using ask_last [OF st1(2)] assms(4,5) st1(4,5) by (simp add: grant_head_def)
  have "deref_job ?st' (entry_job e) = Some (grant_head x now job)"
    using st1(2) self by (simp add: deref_job_def)
  then show ?thesis
    using st1 r assms(4) by (intro exI [of _ ?st'] exI [of _ "grant_head x now job"]) (simp add: grant_head_def erlang_text_def)
qed

lemma ask_connects:
  assumes "deref_job st a = Some job" "lj_next_req job = req # rest" "os_outbound st = connected_ob # obs"
    "\<not> ob_fd connected_ob <s 0" "ob_connect_ok connected_ob" "ob_epoll_ok connected_ob"
  obtains st' where "ask_for_next_resource st a = Some st'"
    "connects st' = connects st @ [(ob_fd connected_ob, pr_dest_ip req, pr_dest_port req)]"
    "epoll_set st' (ob_fd connected_ob) = Some reg_out_oneshot" "sent st' = sent st"
    "table_ourjobs st' = tablahash_insert (table_ourjobs st) \<lparr>entry_fd = ob_fd connected_ob, entry_job = a\<rparr>"
    "deref_job st' a = Some (job\<lparr>lj_origin_socket := ob_fd connected_ob\<rparr>)"
proof -
  have d: "deref_job (epoll_ctl_add (st0\<lparr>table_ourjobs := t\<rparr>) x reg) a = deref_job st0 a" for st0 t x reg
    by (simp add: deref_job_def)
  have "connects (write_job st0 a f) = connects st0" for st0 f by (simp add: write_job_def)
  moreover have "connects (epoll_ctl_add st0 x reg) = connects st0" for st0 x reg by (simp add: epoll_ctl_add_def)
  moreover have "epoll_set (epoll_ctl_add st0 x reg) x = Some reg" for st0 x reg by (simp add: epoll_ctl_add_def)
  ultimately show ?thesis
    using that assms deref_write [of "\<lambda>j. j\<lparr>lj_origin_socket := ob_fd connected_ob\<rparr>" _ a]
    by (simp add: ask_for_next_resource_def Let_def d) (simp add: deref_job_def)
qed

lemma release_sends:
  assumes "deref_job st a = Some job" "distinct (map pr_provider_fd (held (lj_granted_reqs job)))"
    "pr_provider_fd ` set (held (lj_granted_reqs job)) \<subseteq> open_fds st"
  shows "\<exists>st' job'. release_resources st a = Some st' \<and>
    sent st' = sent st @ map (\<lambda>g. (pr_provider_fd g, release_text (lj_job_id job) g)) (held (lj_granted_reqs job)) \<and>
    open_fds st' = open_fds st - pr_provider_fd ` set (held (lj_granted_reqs job)) \<and>
    deref_job st' a = Some job' \<and> held (lj_granted_reqs job') = []"
proof -
  obtain st1 gs where l: "release_loop (lj_job_id job) (lj_granted_reqs job) st = (st1, gs)" by fastforce
  let ?st' = "write_job st1 a (\<lambda>j. j\<lparr>lj_granted_reqs := gs\<rparr>)"
  have "deref_job st1 a = Some job" using release_loop_frame(1) [OF l] assms(1) by (simp add: deref_job_def)
  then have d: "deref_job ?st' a = Some (job\<lparr>lj_granted_reqs := gs\<rparr>)"
    using deref_write [of "\<lambda>j. j\<lparr>lj_granted_reqs := gs\<rparr>" st1 a] by simp
  have "held gs = []"
    using release_loop_fds [of _ "lj_job_id job" "lj_granted_reqs job" st] l by (auto simp: held_def filter_empty_conv)
  then show ?thesis
    using assms(1) l d release_loop_sends [OF assms(2,3), of "lj_job_id job"]
    by (intro exI [of _ ?st'] exI [of _ "job\<lparr>lj_granted_reqs := gs\<rparr>"]) (simp add: release_resources_def)
qed

section \<open>An example job\<close>

text \<open>A job with one request, waiting on descriptor 30, as a state of its own.\<close>

definition example_req :: pending_resource_t where
  "example_req = \<lparr>pr_type = ''cpu'', pr_amount = 2, pr_dest_ip = ''10.0.0.2'', pr_dest_port = 4200, pr_provider_fd = -1\<rparr>"

definition example_job :: "pending_resource_t list \<Rightarrow> pending_resource_t list \<Rightarrow> local_job_t" where
  "example_job reqs granted =
     \<lparr>lj_self = 0, lj_job_id = 7, lj_erlang_socket = 20, lj_origin_socket = 30, lj_next_req = reqs,
      lj_granted_reqs = granted, lj_timer = 0\<rparr>"

definition example_agent :: "pending_resource_t list \<Rightarrow> pending_resource_t list \<Rightarrow> agent" where
  "example_agent reqs granted =
     new_agent\<lparr>table_localjobs := tablahash_insert create_table_local_jobs (example_job reqs granted),
       table_ourjobs := tablahash_insert create_table_fd_jobs \<lparr>entry_fd = 30, entry_job = 0\<rparr>,
       fresh_job := 1, erlangfd := 20, open_fds := {20, 30, 31, 32}, os_outbound := [\<lparr>ob_fd = 33, ob_connect_ok = True, ob_epoll_ok = True\<rparr>]\<rparr>"

lemma example_data:
  "table_data (table_localjobs (example_agent reqs granted)) = [example_job reqs granted]"
  "table_data (table_ourjobs (example_agent reqs granted)) = [\<lparr>entry_fd = 30, entry_job = 0\<rparr>]"
proof -
  have "mset (table_data (tablahash_insert create_table_local_jobs (example_job reqs granted))) = mset [example_job reqs granted]"
    using localjobs.insert_mset_add [OF create_tables_ok(4), of "example_job reqs granted"]
    by (simp add: created_empty copy_localjob_def table_map_def)
  moreover have "mset (table_data (tablahash_insert create_table_fd_jobs \<lparr>entry_fd = 30, entry_job = 0\<rparr>)) =
      mset [\<lparr>entry_fd = 30, entry_job = 0\<rparr>]"
    using ourjobs.insert_mset_add [OF create_tables_ok(3), of "\<lparr>entry_fd = 30, entry_job = 0\<rparr>"]
    by (simp add: created_empty copy_fd_def table_map_def)
  ultimately show "table_data (table_localjobs (example_agent reqs granted)) = [example_job reqs granted]"
    "table_data (table_ourjobs (example_agent reqs granted)) = [\<lparr>entry_fd = 30, entry_job = 0\<rparr>]"
    by (simp_all add: example_agent_def)
qed

lemma example_inv: "reqs \<noteq> [] \<Longrightarrow> client_inv (example_agent reqs granted)"
  using localjobs.insert_ok [OF create_tables_ok(4), of "example_job reqs granted"]
    ourjobs.insert_ok [OF create_tables_ok(3), of "\<lparr>entry_fd = 30, entry_job = 0\<rparr>"]
  by (simp add: client_inv_def index_sound_def example_data word_sle_eq)
    (simp add: example_agent_def example_job_def)

lemma example_lookup:
  "deref_job (example_agent reqs granted) 0 = Some (example_job reqs granted)"
  "tablahash_find (table_ourjobs (example_agent reqs granted)) (fd_key 30) = Some \<lparr>entry_fd = 30, entry_job = 0\<rparr>"
  "tablahash_find (table_localjobs (example_agent reqs granted)) (localjob_key 7) = Some (example_job reqs granted)"
proof -
  show "deref_job (example_agent reqs granted) 0 = Some (example_job reqs granted)"
    by (simp add: deref_job_def example_data) (simp add: example_job_def)
  have ok: "ourjobs_ok (table_ourjobs (example_agent reqs granted))" "localjobs_ok (table_localjobs (example_agent reqs granted))"
    using localjobs.insert_ok [OF create_tables_ok(4)] ourjobs.insert_ok [OF create_tables_ok(3)]
    by (simp_all add: example_agent_def)
  show "tablahash_find (table_ourjobs (example_agent reqs granted)) (fd_key 30) = Some \<lparr>entry_fd = 30, entry_job = 0\<rparr>"
    "tablahash_find (table_localjobs (example_agent reqs granted)) (localjob_key 7) = Some (example_job reqs granted)"
    using ourjobs.find_map [OF ok(1), of "fd_key 30"] localjobs.find_map [OF ok(2), of "localjob_key 7"]
    by (simp_all add: table_map_def example_data) (simp add: example_job_def)
qed

lemma example_live: "live_job (example_agent reqs granted) j \<longleftrightarrow> j = example_job reqs granted"
  by (simp add: live_job_def example_data)

lemma example_fields:
  "lj_job_id (example_job reqs granted) = 7" "lj_next_req (example_job reqs granted) = reqs"
  "lj_granted_reqs (example_job reqs granted) = granted" "lj_timer (example_job reqs granted) = 0"
  "lj_self (example_job reqs granted) = 0"
  by (simp_all add: example_job_def)

section \<open>Properties\<close>

text \<open>
  C21. The last grant completes the job: when the answer to the only pending request of a job
  arrives on its socket with its id, the request becomes held by that provider, nothing is
  pending any more, and exactly one message goes to the scheduler, \<open>JOB_GRANTED\<close> with the id.
\<close>

theorem last_grant_completes_job:
  assumes "client_inv st" "tablahash_find (table_ourjobs st) (fd_key x) = Some e"
    "deref_job st (entry_job e) = Some job" "lj_next_req job = [req]" "erlangfd st \<in> open_fds st"
  shows "\<exists>st' job'. handle_granted st x (lj_job_id job) now = Some st' \<and>
    deref_job st' (entry_job e) = Some job' \<and> lj_next_req job' = [] \<and>
    lj_granted_reqs job' = req\<lparr>pr_provider_fd := x\<rparr> # lj_granted_reqs job \<and>
    sent st' = sent st @ [(erlangfd st, ''JOB_GRANTED '' @ fmt_d (lj_job_id job) @ [NEWLINE])]"
  by (rule handle_last_grant [OF assms])

theorem last_grant_completes_job_witness:
  "\<exists>st'. handle_granted (example_agent [example_req] []) 30 7 5 = Some st' \<and>
     sent st' = [(20, ''JOB_GRANTED 7'' @ [NEWLINE])]"
proof -
  have e: "erlangfd (example_agent [example_req] []) = 20" "sent (example_agent [example_req] []) = []"
    "erlangfd (example_agent [example_req] []) \<in> open_fds (example_agent [example_req] [])"
    by (simp_all add: example_agent_def new_agent_def main_init_def)
  have j: "lj_next_req (example_job [example_req] []) = [example_req]" "lj_job_id (example_job [example_req] []) = 7"
    by (simp_all add: example_job_def)
  have f: "fmt_d 7 = ''7''" by code_simp
  show ?thesis
    using last_grant_completes_job [OF example_inv example_lookup(2), of "[example_req]" "[]"] example_lookup(1) e j f
    by fastforce
qed

text \<open>
  C22. A grant that is not the last moves the job on in the order of its list: the answered
  request becomes held, and, if the kernel gives a socket, starts the connection and registers it, the agent
  connects to the address of the next request; the job waits on the new socket, the
  index leads from it to the job and no more from the answered socket, all other entries stay, and the
  socket is registered for the moment it becomes writable. Nothing is sent.
\<close>

theorem next_grant_moves_on:
  assumes "client_inv st" "tablahash_find (table_ourjobs st) (fd_key x) = Some e"
    "deref_job st (entry_job e) = Some job" "lj_next_req job = req # req2 # rest"
    "os_outbound st = ob # obs" "\<not> ob_fd ob <s 0" "ob_connect_ok ob" "ob_epoll_ok ob"
  shows "\<exists>st' job'. handle_granted st x (lj_job_id job) now = Some st' \<and>
    deref_job st' (entry_job e) = Some job' \<and> lj_next_req job' = req2 # rest \<and>
    lj_granted_reqs job' = req\<lparr>pr_provider_fd := x\<rparr> # lj_granted_reqs job \<and>
    connects st' = connects st @ [(ob_fd ob, pr_dest_ip req2, pr_dest_port req2)] \<and>
    epoll_set st' (ob_fd ob) = Some reg_out_oneshot \<and> sent st' = sent st \<and> lj_origin_socket job' = ob_fd ob \<and>
    table_map entry_fd (table_ourjobs st') =
      (table_map entry_fd (table_ourjobs st))(x := None, ob_fd ob \<mapsto> \<lparr>entry_fd = ob_fd ob, entry_job = entry_job e\<rparr>)"
proof -
  obtain st1 where st1: "handle_granted st x (lj_job_id job) now = ask_for_next_resource st1 (lj_self job)"
    "deref_job st1 (lj_self job) = Some (grant_head x now job)" "sent st1 = sent st"
    "os_outbound st1 = os_outbound st" "connects st1 = connects st"
    "table_ourjobs st1 = tablahash_remove (table_ourjobs st) (fd_key x)"
    by (rule handle_granted_moves [OF assms(1-3), of now])
  have self: "lj_self job = entry_job e" using deref_jobD [OF assms(3)] by simp
  have n: "lj_next_req (grant_head x now job) = req2 # rest" using assms(4) by (simp add: grant_head_def)
  obtain st' where st': "ask_for_next_resource st1 (lj_self job) = Some st'"
    "connects st' = connects st1 @ [(ob_fd ob, pr_dest_ip req2, pr_dest_port req2)]"
    "epoll_set st' (ob_fd ob) = Some reg_out_oneshot" "sent st' = sent st1"
    "table_ourjobs st' = tablahash_insert (table_ourjobs st1) \<lparr>entry_fd = ob_fd ob, entry_job = lj_self job\<rparr>"
    "deref_job st' (lj_self job) = Some ((grant_head x now job)\<lparr>lj_origin_socket := ob_fd ob\<rparr>)"
    by (rule ask_connects [OF st1(2) n, of ob obs]) (use assms(5-8) st1(4) in simp_all)
  have ok: "ourjobs_ok (table_ourjobs st)" by (rule client_invD(2) [OF assms(1)])
  have "table_map entry_fd (table_ourjobs st') =
      (table_map entry_fd (table_ourjobs st))(x := None, ob_fd ob \<mapsto> \<lparr>entry_fd = ob_fd ob, entry_job = entry_job e\<rparr>)"
    unfolding st'(5) st1(6) self
    by (simp add: ourjobs.insert_map [OF ourjobs.remove_ok [OF ok]] ourjobs.remove_map [OF ok] copy_fd_def)
  then show ?thesis using st1 st' self n assms(4) by (auto simp: grant_head_def)
qed

theorem next_grant_moves_on_witness:
  "\<exists>st'. handle_granted (example_agent [example_req, example_req] []) 30 7 5 = Some st' \<and>
     connects st' = [(33, ''10.0.0.2'', 4200)]"
proof -
  let ?st = "example_agent [example_req, example_req] []"
  have e: "os_outbound ?st = [\<lparr>ob_fd = 33, ob_connect_ok = True, ob_epoll_ok = True\<rparr>]" "connects ?st = []"
    by (simp_all add: example_agent_def new_agent_def main_init_def)
  have j: "lj_next_req (example_job [example_req, example_req] []) = [example_req, example_req]"
    "lj_job_id (example_job [example_req, example_req] []) = 7"
    by (simp_all add: example_job_def)
  obtain st' where "handle_granted ?st 30 7 5 = Some st'"
    "connects st' = connects ?st @ [(33, pr_dest_ip example_req, pr_dest_port example_req)]"
    using next_grant_moves_on [OF example_inv example_lookup(2), of "[example_req, example_req]" "[]"
        "example_job [example_req, example_req] []" example_req example_req "[]"
        "\<lparr>ob_fd = 33, ob_connect_ok = True, ob_epoll_ok = True\<rparr>" "[]" 5] example_lookup(1) e(1) j
    by (auto simp: word_sless_alt)
  then show ?thesis using e(2) by (simp add: example_req_def)
qed

text \<open>
  C27. Releasing a job tells every provider: if the sockets it holds are open and distinct, then for
  each resource the job holds, in order, one
  \<open>RELEASE\<close> with the job's id, the resource and the amount is sent on the provider's socket and
  the socket is closed; afterwards the job holds nothing.
\<close>

theorem release_tells_every_provider:
  assumes "deref_job st a = Some job" "distinct (map pr_provider_fd (held (lj_granted_reqs job)))"
    "pr_provider_fd ` set (held (lj_granted_reqs job)) \<subseteq> open_fds st"
  shows "\<exists>st' job'. release_resources st a = Some st' \<and>
    sent st' = sent st @ map (\<lambda>g. (pr_provider_fd g, release_text (lj_job_id job) g)) (held (lj_granted_reqs job)) \<and>
    open_fds st' = open_fds st - pr_provider_fd ` set (held (lj_granted_reqs job)) \<and>
    deref_job st' a = Some job' \<and> held (lj_granted_reqs job') = []"
  by (rule release_sends [OF assms])

theorem release_tells_every_provider_witness:
  "\<exists>st'. release_resources (example_agent [example_req] [example_req\<lparr>pr_provider_fd := 31\<rparr>]) 0 = Some st' \<and>
     sent st' = [(31, ''RELEASE 7 cpu 2'' @ [NEWLINE])] \<and> open_fds st' = {20, 30, 32}"
proof -
  let ?st = "example_agent [example_req] [example_req\<lparr>pr_provider_fd := 31\<rparr>]"
  let ?job = "example_job [example_req] [example_req\<lparr>pr_provider_fd := 31\<rparr>]"
  have h: "held (lj_granted_reqs ?job) = [example_req\<lparr>pr_provider_fd := 31\<rparr>]" "lj_job_id ?job = 7"
    by (simp_all add: example_job_def word_sle_eq)
  have s: "sent ?st = []" "open_fds ?st = {20, 30, 31, 32}" by (simp_all add: example_agent_def new_agent_def main_init_def)
  have t: "release_text 7 (example_req\<lparr>pr_provider_fd := 31\<rparr>) = ''RELEASE 7 cpu 2'' @ [NEWLINE]" by code_simp
  show ?thesis
    using release_tells_every_provider [OF example_lookup(1), of "[example_req]" "[example_req\<lparr>pr_provider_fd := 31\<rparr>]"] h s t
    by auto
qed

text \<open>
  \<open>JOB_RELEASE\<close> returns, keeps the client's invariant, and ends exactly the job with that
  id: every other job stays as it was.
\<close>

theorem job_release_ends_the_job:
  assumes "client_inv st" "2 \<le> length tokens"
  shows "\<exists>st'. job_release st tokens = Some st' \<and> client_inv st' \<and>
    (\<forall>j. live_job st' j \<longleftrightarrow> live_job st j \<and> lj_job_id j \<noteq> atoi (tokens ! 1))"
proof -
  obtain st' where st': "job_release st tokens = Some st'" "client_inv st'"
    by (rule client_stepE [OF job_release_step [OF assms(1), of "{}" tokens]])
  then show ?thesis using job_release_live [OF assms(1) st'(1) assms(2)] by blast
qed

theorem job_release_ends_the_job_witness:
  "\<exists>st'. job_release (example_agent [example_req] []) [''JOB_RELEASE'', ''7''] = Some st' \<and> (\<forall>j. \<not> live_job st' j)"
proof -
  obtain st' where "job_release (example_agent [example_req] []) [''JOB_RELEASE'', ''7''] = Some st'"
    "\<forall>j. live_job st' j \<longleftrightarrow> live_job (example_agent [example_req] []) j \<and> lj_job_id j \<noteq> atoi ([''JOB_RELEASE'', ''7''] ! 1)"
    using job_release_ends_the_job [OF example_inv, of "[example_req]" "[''JOB_RELEASE'', ''7'']" "[]"] by auto
  moreover have "atoi ([''JOB_RELEASE'', ''7''] ! 1) = 7" by code_simp
  ultimately show ?thesis using example_live by (metis example_fields(1))
qed

text \<open>
  C25. The deadlock breaker: when at most 256 jobs have waited 30 seconds or more for an answer,
  the sweep returns, keeps the invariant, and ends exactly those jobs; the others stay as they were.
\<close>

theorem stuck_jobs_time_out:
  assumes inv: "client_inv st"
    and few: "length (filter (job_expired now) (table_data (table_localjobs st))) \<le> MAX_TIMEOUTS_PER_TICK"
  shows "\<exists>st'. check_ourjob_timeouts st now = Some st' \<and> client_inv st' \<and>
    (\<forall>j. live_job st' j \<longleftrightarrow> live_job st j \<and> \<not> (lj_next_req j \<noteq> [] \<and> 30 \<le> now - lj_timer j))"
  using sweep_live [OF assms] by (simp add: job_expired_def JOB_TIMEOUT_SEC_def)

theorem stuck_jobs_time_out_witness:
  "\<exists>st'. check_ourjob_timeouts (example_agent [example_req] []) 30 = Some st' \<and> (\<forall>j. \<not> live_job st' j)"
proof -
  have "length (filter (job_expired 30) (table_data (table_localjobs (example_agent [example_req] [])))) \<le> MAX_TIMEOUTS_PER_TICK"
    by (simp add: example_data MAX_TIMEOUTS_PER_TICK_def)
  from stuck_jobs_time_out [OF example_inv this] obtain st' where
    "check_ourjob_timeouts (example_agent [example_req] []) 30 = Some st'"
    "\<forall>j. live_job st' j \<longleftrightarrow> live_job (example_agent [example_req] []) j \<and> \<not> (lj_next_req j \<noteq> [] \<and> 30 \<le> 30 - lj_timer j)"
    by auto
  moreover have "lj_next_req (example_job [example_req] []) \<noteq> [] \<and> 30 \<le> 30 - lj_timer (example_job [example_req] [])"
    by (simp add: example_fields)
  ultimately show ?thesis using example_live by metis
qed

text \<open>
  C26. A refused request ends the job: on \<open>DENIED\<close> (or when the provider hangs up before
  answering) the socket leaves the index, the job is freed and every other job stays, and the
  scheduler gets one \<open>JOB_DENIED\<close> after the \<open>RELEASE\<close> messages for what the job held.
\<close>

theorem refusal_ends_the_job:
  assumes inv: "client_inv st" and found: "tablahash_find (table_ourjobs st) (fd_key x) = Some e"
    and job: "deref_job st (entry_job e) = Some job"
    and fds: "distinct (map pr_provider_fd (held (lj_granted_reqs job)))"
      "pr_provider_fd ` set (held (lj_granted_reqs job)) \<subseteq> open_fds st"
      "erlangfd st \<in> open_fds st - pr_provider_fd ` set (held (lj_granted_reqs job))"
  shows "\<exists>st'. handle_denied st x = Some st' \<and> handle_outbound_disconnect st x = Some st' \<and>
    tablahash_find (table_ourjobs st') (fd_key x) = None \<and>
    (\<forall>j. live_job st' j \<longleftrightarrow> live_job st j \<and> lj_job_id j \<noteq> lj_job_id job) \<and>
    sent st' = sent st @ map (\<lambda>g. (pr_provider_fd g, release_text (lj_job_id job) g)) (held (lj_granted_reqs job)) @
      [(erlangfd st, ''JOB_DENIED '' @ fmt_d (lj_job_id job) @ [NEWLINE])]"
proof -
  let ?st1 = "st\<lparr>table_ourjobs := tablahash_remove_lock (table_ourjobs st) (fd_key x)\<rparr>"
  let ?i = "id_str (lj_job_id job)"
  have d1: "deref_job ?st1 (entry_job e) = Some job" using job by (simp add: deref_job_def)
  obtain st2 where st2: "release_resources ?st1 (entry_job e) = Some st2"
    "retire_job ?st1 ((C_to_erlang st2 ''rejected'' ?i)\<lparr>table_localjobs :=
       tablahash_remove_lock (table_localjobs (C_to_erlang st2 ''rejected'' ?i)) job\<rparr>) (entry_job e)"
    by (rule deny_step [OF inv found job, where i = "''rejected''" and s = ?i])
  let ?st' = "(C_to_erlang st2 ''rejected'' ?i)\<lparr>table_localjobs :=
       tablahash_remove_lock (table_localjobs (C_to_erlang st2 ''rejected'' ?i)) job\<rparr>"
  have h: "handle_denied st x = Some ?st'" "handle_outbound_disconnect st x = Some ?st'"
    using found job st2(1) by (simp_all add: handle_denied_def handle_outbound_disconnect_def Let_def)
  have live: "live_job st job" "lj_self job = entry_job e" using deref_jobD [OF job] by (simp_all add: live_job_def)
  have l: "live_job ?st' j \<longleftrightarrow> live_job st j \<and> lj_job_id j \<noteq> lj_job_id job" for j
    by (rule retired_by_id [OF inv live(1), of ?st1]) (use st2(2) live(2) in simp_all)
  have o: "table_ourjobs ?st' = tablahash_remove (table_ourjobs st) (fd_key x)"
    using st2(2) by (simp add: retire_job_def tablahash_remove_lock_def)
  have n: "tablahash_find (table_ourjobs ?st') (fd_key x) = None"
    unfolding o using ourjobs.find_map [OF ourjobs.remove_ok [OF client_invD(2) [OF inv], of "fd_key x"], of "fd_key x"]
      ourjobs.remove_map [OF client_invD(2) [OF inv], of "fd_key x"] by simp
  obtain st3 job' where "release_resources ?st1 (entry_job e) = Some st3"
    "sent st3 = sent st @ map (\<lambda>g. (pr_provider_fd g, release_text (lj_job_id job) g)) (held (lj_granted_reqs job))"
    "open_fds st3 = open_fds st - pr_provider_fd ` set (held (lj_granted_reqs job))"
    using release_sends [OF d1] fds by auto
  moreover have "erlangfd st2 = erlangfd st" using st2(2) by (simp add: retire_job_def)
  ultimately have "sent ?st' = sent st @ map (\<lambda>g. (pr_provider_fd g, release_text (lj_job_id job) g)) (held (lj_granted_reqs job)) @
      [(erlangfd st, ''JOB_DENIED '' @ fmt_d (lj_job_id job) @ [NEWLINE])]"
    using st2(1) fds(3) C_to_erlang_sends [of st2 ?i "''rejected''"] id_str_short [of "lj_job_id job"]
    by (simp add: erlang_text_def id_str_fits)
  then show ?thesis using h n l by blast
qed

theorem refusal_ends_the_job_witness:
  "\<exists>st'. handle_denied (example_agent [example_req] [example_req\<lparr>pr_provider_fd := 31\<rparr>]) 30 = Some st' \<and>
     sent st' = [(31, ''RELEASE 7 cpu 2'' @ [NEWLINE]), (20, ''JOB_DENIED 7'' @ [NEWLINE])] \<and> (\<forall>j. \<not> live_job st' j)"
proof -
  let ?g = "[example_req\<lparr>pr_provider_fd := 31\<rparr>]"
  let ?st = "example_agent [example_req] ?g" and ?job = "example_job [example_req] ?g"
  have h: "held (lj_granted_reqs ?job) = ?g" by (simp add: example_fields word_sle_eq)
  have s: "sent ?st = []" "open_fds ?st = {20, 30, 31, 32}" "erlangfd ?st = 20"
    by (simp_all add: example_agent_def new_agent_def main_init_def)
  have t: "release_text 7 (example_req\<lparr>pr_provider_fd := 31\<rparr>) = ''RELEASE 7 cpu 2'' @ [NEWLINE]" "fmt_d 7 = ''7''"
    by code_simp+
  have d: "deref_job ?st (entry_job \<lparr>entry_fd = 30, entry_job = 0\<rparr>) = Some ?job" using example_lookup(1) by simp
  obtain st' where st': "handle_denied ?st 30 = Some st'"
    "\<forall>j. live_job st' j \<longleftrightarrow> live_job ?st j \<and> lj_job_id j \<noteq> lj_job_id ?job"
    "sent st' = sent ?st @ map (\<lambda>g. (pr_provider_fd g, release_text (lj_job_id ?job) g)) ?g @
      [(20, ''JOB_DENIED '' @ fmt_d (lj_job_id ?job) @ [NEWLINE])]"
    using refusal_ends_the_job [OF example_inv example_lookup(2) d] unfolding h s by auto
  have "sent st' = [(31, ''RELEASE 7 cpu 2'' @ [NEWLINE]), (20, ''JOB_DENIED 7'' @ [NEWLINE])]"
    using st'(3) s(1) t by (simp add: example_fields)
  then show ?thesis using st'(1,2) example_live by metis
qed

text \<open>
  C18. \<open>JOB_STATUS\<close> reports the state of the job and changes nothing else: while the scheduler is
  connected, \<open>JOB_GRANTED\<close> is sent when the job has
  no request left, \<open>WAITING\<close> when it has, and \<open>JOB_TIMEOUT\<close> when no job has that id.
\<close>

theorem status_reports_the_job:
  assumes "client_inv st" "erlangfd st \<in> open_fds st"
  shows "erlang_to_C st (''JOB_STATUS '' @ fmt_d i @ [NEWLINE]) now =
    Some (st\<lparr>sent := sent st @ [(erlangfd st,
      (if \<exists>j. live_job st j \<and> lj_job_id j = i \<and> lj_next_req j = [] then ''JOB_GRANTED ''
       else if \<exists>j. live_job st j \<and> lj_job_id j = i then ''WAITING '' else ''JOB_TIMEOUT '') @ fmt_d i @ [NEWLINE])]\<rparr>)"
proof -
  have tokens: "get_token (strncpy_z BUFFER_LEN (words_line [''JOB_STATUS'', fmt_d i])) 32 = [''JOB_STATUS'', fmt_d i]"
    using fmt_d_length [of i] by (intro read_message) (simp_all add: token_ok_keyword BUFFER_LEN_def)
  have ok: "localjobs_ok (table_localjobs st)" by (rule client_invD(1) [OF assms(1)])
  note live = table_map_eq_Some [OF localjobs.ok_facts(7) [OF ok], of i]
  have say: "C_to_erlang st w (fmt_d i) = st\<lparr>sent := sent st @ [(erlangfd st, erlang_text w (fmt_d i))]\<rparr>" for w
    using fmt_d_length [of i] by (intro C_to_erlang_sends [OF assms(2)]) simp
  have "job_status st [''JOB_STATUS'', fmt_d i] = st\<lparr>sent := sent st @ [(erlangfd st,
      (if \<exists>j. live_job st j \<and> lj_job_id j = i \<and> lj_next_req j = [] then ''JOB_GRANTED ''
       else if \<exists>j. live_job st j \<and> lj_job_id j = i then ''WAITING '' else ''JOB_TIMEOUT '') @ fmt_d i @ [NEWLINE])]\<rparr>"
  proof (cases "table_map lj_job_id (table_localjobs st) i")
    case None
    then have "\<not> (\<exists>j. live_job st j \<and> lj_job_id j = i \<and> lj_next_req j = [])" "\<not> (\<exists>j. live_job st j \<and> lj_job_id j = i)"
      using table_map_NoneD [OF None] by (auto simp: live_job_def)
    then show ?thesis
      using None say localjobs.find_map [OF ok, of "localjob_key i"]
      by (simp add: job_status_def erlang_text_def del: not_ex)
  next
    case (Some job)
    then have "live_job st j \<and> lj_job_id j = i \<longleftrightarrow> j = job" for j
      using live [of j] by (auto simp: live_job_def)
    then have "(\<exists>j. live_job st j \<and> lj_job_id j = i \<and> lj_next_req j = []) \<longleftrightarrow> lj_next_req job = []"
      "\<exists>j. live_job st j \<and> lj_job_id j = i" by metis+
    then show ?thesis
      using Some say localjobs.find_map [OF ok, of "localjob_key i"] by (simp add: job_status_def erlang_text_def)
  qed
  then show ?thesis using tokens by (simp add: erlang_to_C_def)
qed

theorem status_reports_the_job_witness:
  "erlang_to_C (new_agent\<lparr>erlangfd := 20, open_fds := {20}\<rparr>) (''JOB_STATUS '' @ fmt_d 7 @ [NEWLINE]) 0 =
   Some (new_agent\<lparr>erlangfd := 20, open_fds := {20}, sent := [(20, ''JOB_TIMEOUT '' @ fmt_d 7 @ [NEWLINE])]\<rparr>)"
proof -
  let ?st = "new_agent\<lparr>erlangfd := 20, open_fds := {20}\<rparr>"
  have "client_inv ?st"
    by (simp add: client_inv_def index_sound_def new_agent_def main_init_def create_tables_ok created_empty)
  moreover have "\<not> live_job ?st j" for j
    by (simp add: live_job_def new_agent_def main_init_def created_empty)
  moreover have "sent ?st = []" by (simp add: new_agent_def main_init_def)
  ultimately show ?thesis using status_reports_the_job [of ?st 7 0] by simp
qed

end
