(* ===== verification/Server_Behaviour.thy ===== *)
theory Server_Behaviour
  imports Server_Pool
begin

text \<open>
  The functional behaviour of the server side, in terms of the abstract queues: which
  requests a drain grants and what it sends, what a \<open>RESERVE\<close> does, what a \<open>RELEASE\<close> or
  a disconnect gives back.
\<close>

section \<open>One drain\<close>

definition granted_msgs :: "fd set \<Rightarrow> request list \<Rightarrow> (fd \<times> string) list" where
  "granted_msgs opened rs =
     map (\<lambda>r. (rq_origin_socket r, granted_text r)) (filter (\<lambda>r. rq_origin_socket r \<in> opened) rs)"

lemma record_granted_shape:
  "record_granted st i x type n = st\<lparr>table_nodejobs := table_nodejobs (record_granted st i x type n)\<rparr>"
  by (simp add: record_granted_def Let_def split: prod.split)

lemma sent_grant_one:
  "sent (grant_one type req st) = sent st @ granted_msgs (open_fds st) [req]"
  unfolding grant_one_def
  by (subst record_granted_shape) (simp add: sys_send_def granted_msgs_def)

lemma sent_grant_ready:
  "sent (grant_ready type ready st) = sent st @ granted_msgs (open_fds st) ready"
proof (induction ready arbitrary: st)
  case (Cons req ready)
  then show ?case by (simp add: sent_grant_one) (simp add: granted_msgs_def)
qed (simp add: granted_msgs_def)

section \<open>The abstract server\<close>

text \<open>
  The books of the server: per resource the waiting requests in order, the free amount and the
  amount lent, and the messages sent. The operations on them are the specification that the
  pointer queues and the hash table implement.
\<close>

record books =
  waiting :: "queue_id \<Rightarrow> request list"
  free :: "queue_id \<Rightarrow> cint"
  lent :: "queue_id \<Rightarrow> cint"
  outbox :: "(fd \<times> string) list"

definition abs_books :: "agent \<Rightarrow> books" where
  "abs_books st =
     \<lparr>waiting = (\<lambda>r. queue_list (get_queue r st)), free = (\<lambda>r. resources_left (get_queue r st)),
      lent = (\<lambda>r. granted_total r st), outbox = sent st\<rparr>"

definition drain_books :: "fd set \<Rightarrow> queue_id \<Rightarrow> books \<Rightarrow> books" where
  "drain_books opened q b =
     (let (g, w, l) = greedy (free b q) (waiting b q) in
      b\<lparr>waiting := (waiting b)(q := w), free := (free b)(q := l),
        lent := (lent b)(q := lent b q + sum_list (map rq_amount_requested g)),
        outbox := outbox b @ granted_msgs opened (rev g)\<rparr>)"

definition reserve_books :: "fd set \<Rightarrow> books \<Rightarrow> books" where
  "reserve_books opened b =
     drain_books opened GPU_Q (drain_books opened MEM_Q (drain_books opened CPU_Q b))"

definition wait_books :: "queue_id \<Rightarrow> request \<Rightarrow> books \<Rightarrow> books" where
  "wait_books q req b = b\<lparr>waiting := (waiting b)(q := waiting b q @ [req])\<rparr>"

definition return_books :: "(queue_id \<Rightarrow> cint) \<Rightarrow> books \<Rightarrow> books" where
  "return_books back b = b\<lparr>free := (\<lambda>r. free b r + back r), lent := (\<lambda>r. lent b r - back r)\<rparr>"

lemma drain_queue_refines:
  assumes inv: "server_inv st"
  obtains st' where "drain_queue st q (queue_type q) = Some st'" "server_inv st'" "open_fds st' = open_fds st"
    "abs_books st' = drain_books (open_fds st) q (abs_books st)"
proof -
  obtain g w l where g: "greedy (resources_left (get_queue q st)) (queue_list (get_queue q st)) = (g, w, l)"
    by (metis prod_cases3)
  have q: "queue_inv (get_queue q st)" "nodejobs_ok (table_nodejobs st)" using inv by (simp_all add: server_inv_def)
  obtain q' where q': "drain_queue st q (queue_type q) = Some (grant_ready (queue_type q) (rev g) (set_queue q q' st))"
    "queue_inv q'" "queue_list q' = w" "resources_left q' = l"
    by (rule drain_queue_spec [OF q(1) g])
  let ?st1 = "set_queue q q' st"
  let ?st = "grant_ready (queue_type q) (rev g) ?st1"
  have "granted_total r ?st1 = granted_total r st" for r by (simp add: granted_total_def)
  then have total: "granted_total r ?st = granted_total r st + (if r = q then sum_list (map rq_amount_requested g) else 0)" for r
    using grant_ready_total(2) [of ?st1 r "queue_type q" "rev g"] q(2) by (simp add: rev_map [symmetric] sum_list_rev)
  have "server_inv ?st"
    using inv q'(2) grant_ready_total(1) [of ?st1 "queue_type q" "rev g"] by (simp add: server_inv_def)
  moreover have "abs_books ?st = drain_books (open_fds st) q (abs_books st)"
    using q'(3,4) g total by (auto simp: abs_books_def drain_books_def sent_grant_ready fun_eq_iff)
  ultimately show ?thesis using q'(1) by (intro that [of ?st]) simp_all
qed

lemma reserve_elements_refines:
  assumes inv: "server_inv st"
  obtains st' where "reserve_elements st = Some st'" "server_inv st'" "open_fds st' = open_fds st"
    "abs_books st' = reserve_books (open_fds st) (abs_books st)"
proof -
  obtain s1 where 1: "drain_queue st CPU_Q (queue_type CPU_Q) = Some s1" "server_inv s1" "open_fds s1 = open_fds st"
    "abs_books s1 = drain_books (open_fds st) CPU_Q (abs_books st)"
    by (rule drain_queue_refines [OF inv])
  obtain s2 where 2: "drain_queue s1 MEM_Q (queue_type MEM_Q) = Some s2" "server_inv s2" "open_fds s2 = open_fds s1"
    "abs_books s2 = drain_books (open_fds s1) MEM_Q (abs_books s1)"
    by (rule drain_queue_refines [OF 1(2)])
  obtain s3 where 3: "drain_queue s2 GPU_Q (queue_type GPU_Q) = Some s3" "server_inv s3" "open_fds s3 = open_fds s2"
    "abs_books s3 = drain_books (open_fds s2) GPU_Q (abs_books s2)"
    by (rule drain_queue_refines [OF 2(2)])
  show ?thesis
    using 1 2 3 by (intro that [of s3]) (simp_all add: reserve_elements_def reserve_books_def)
qed

lemma enqueue_jobs_refines:
  assumes "server_inv st"
  obtains st' where "enqueue_jobs st res i n x = Some st'" "server_inv st'" "open_fds st' = open_fds st"
    "abs_books st' = reserve_books (open_fds st) (wait_books (resource_queue_of res) (make_request i x n) (abs_books st))"
proof -
  let ?q = "resource_queue_of res"
  obtain q' where q': "enqueue_request (get_queue ?q st) (make_request i x n) = Some q'"
    "server_inv (set_queue ?q q' st)" "queue_list q' = queue_list (get_queue ?q st) @ [make_request i x n]"
    "resources_left q' = resources_left (get_queue ?q st)"
    by (rule enqueue_jobs_step [OF assms, of res i x n])
  have b: "abs_books (set_queue ?q q' st) = wait_books ?q (make_request i x n) (abs_books st)"
    using q'(3,4) by (auto simp: abs_books_def wait_books_def granted_total_def fun_eq_iff)
  show ?thesis
    by (rule reserve_elements_refines [OF q'(2)])
      (use that q'(1) b in \<open>simp add: enqueue_jobs_def Let_def\<close>)
qed

lemma release_client_by_fd_refines:
  assumes inv: "server_inv st"
  obtains st' where "release_client_by_fd st x = Some st'" "server_inv st'"
    "swept_by x (table_data (table_nodejobs st)) = [] \<longrightarrow> st' = st"
    "swept_by x (table_data (table_nodejobs st)) \<noteq> [] \<longrightarrow>
       abs_books st' = reserve_books (open_fds st) (return_books (reclaimed st x) (abs_books st))"
proof (cases "swept_by x (table_data (table_nodejobs st)) = []")
  case True
  then show ?thesis using that [of st] inv filter_nothing [OF True] by (simp add: release_client_by_fd_spec)
next
  case False
  have "granted_total r (reclaim st x) + reclaimed st x r = granted_total r st" for r
    using reclaim_sum [of "granted_of r" st x] by (simp add: granted_total_def reclaimed_def)
  then have "granted_total r (reclaim st x) = granted_total r st - reclaimed st x r" for r
    by (metis add_diff_cancel_right')
  then have b: "abs_books (reclaim st x) = return_books (reclaimed st x) (abs_books st)"
    by (simp add: abs_books_def return_books_def) (simp add: reclaim_def)
  have o: "open_fds (reclaim st x) = open_fds st" by (simp add: reclaim_def)
  show ?thesis
    by (rule reserve_elements_refines [OF reclaim_server_inv [OF inv, of x]])
      (use that False b o in \<open>simp add: release_client_by_fd_spec\<close>)
qed

section \<open>What the books say of one reservation\<close>

definition blocked :: "books \<Rightarrow> queue_id \<Rightarrow> bool" where
  "blocked b r \<longleftrightarrow> head_waits (free b r) (waiting b r)"

lemma blocked_abs: "blocked (abs_books st) r = settled r st"
  by (simp add: blocked_def settled_def abs_books_def)

lemma drain_blocked: "blocked b q \<Longrightarrow> drain_books opened q b = b"
  using greedy_nothing [of "free b q" "waiting b q"] by (simp add: drain_books_def blocked_def granted_msgs_def)

lemma drain_books_other:
  assumes "r \<noteq> q"
  shows "blocked (drain_books opened q b) r = blocked b r"
  using assms by (simp add: drain_books_def blocked_def split: prod.split)

lemma drain_books_self: "blocked (drain_books opened q b) q"
  using greedy_stops by (auto simp: drain_books_def blocked_def split: prod.split)

text \<open>When only one queue may grant, draining the three of them is draining that one.\<close>

lemma reserve_books_one:
  assumes "\<And>r. r \<noteq> q \<Longrightarrow> blocked b r"
  shows "reserve_books opened b = drain_books opened q b"
  using assms
  by (cases q) (simp_all add: reserve_books_def drain_blocked drain_books_other)

lemma wait_books_other: "r \<noteq> q \<Longrightarrow> blocked (wait_books q req b) r = blocked b r"
  by (simp add: wait_books_def blocked_def)

lemma reserve_granted:
  assumes "\<And>r. blocked b r" "waiting b q = []" "rq_amount_requested req \<le>s free b q" "rq_origin_socket req \<in> opened"
  shows "reserve_books opened (wait_books q req b) =
    b\<lparr>free := (free b)(q := free b q - rq_amount_requested req),
      lent := (lent b)(q := lent b q + rq_amount_requested req),
      outbox := outbox b @ [(rq_origin_socket req, granted_text req)]\<rparr>"
  using assms reserve_books_one [of q "wait_books q req b" opened] wait_books_other [of _ q req b]
  by (simp add: drain_books_def wait_books_def granted_msgs_def fun_upd_idem)

lemma reserve_waits:
  assumes "\<And>r. blocked b r" "waiting b q \<noteq> [] \<or> \<not> rq_amount_requested req \<le>s free b q"
  shows "reserve_books opened (wait_books q req b) = wait_books q req b"
proof -
  have "blocked (wait_books q req b) r" for r
    using assms(1) [of r] assms(2) wait_books_other [of r q req b]
    by (cases "r = q"; cases "waiting b q") (auto simp: wait_books_def blocked_def)
  then show ?thesis by (simp add: reserve_books_def drain_blocked)
qed

lemma drain_books_frame:
  "r \<noteq> q \<Longrightarrow> waiting (drain_books opened q b) r = waiting b r" "r \<noteq> q \<Longrightarrow> free (drain_books opened q b) r = free b r"
  "\<exists>ms. outbox (drain_books opened q b) = outbox b @ ms" "\<exists>n. waiting (drain_books opened q b) q = drop n (waiting b q)"
proof -
  obtain g w l where g: "greedy (free b q) (waiting b q) = (g, w, l)" by (metis prod_cases3)
  show "r \<noteq> q \<Longrightarrow> waiting (drain_books opened q b) r = waiting b r" "r \<noteq> q \<Longrightarrow> free (drain_books opened q b) r = free b r"
    "\<exists>ms. outbox (drain_books opened q b) = outbox b @ ms"
    by (simp_all add: drain_books_def g)
  have "w = drop (length g) (waiting b q)" using greedy_split [OF g] by simp
  then show "\<exists>n. waiting (drain_books opened q b) q = drop n (waiting b q)" by (auto simp: drain_books_def g)
qed

text \<open>A head that fits is granted by the drain of its queue, and so by the three drains.\<close>

lemma drain_serves:
  assumes "waiting b q = head # rest" "rq_amount_requested head \<le>s free b q" "rq_origin_socket head \<in> opened"
  obtains n ms where "waiting (drain_books opened q b) q = drop n rest" "outbox (drain_books opened q b) = outbox b @ ms"
    "(rq_origin_socket head, granted_text head) \<in> set ms"
proof -
  obtain g w l where g: "greedy (free b q - rq_amount_requested head) rest = (g, w, l)" by (metis prod_cases3)
  have "greedy (free b q) (waiting b q) = (head # g, w, l)" using assms(1,2) g by simp
  moreover have "w = drop (length g) rest" using greedy_split [OF g] by simp
  ultimately show ?thesis
    using assms(3) by (intro that [of "length g" "granted_msgs opened (rev (head # g))"]) (auto simp: drain_books_def granted_msgs_def)
qed

lemma reserve_serves:
  assumes "waiting b q = head # rest" "rq_amount_requested head \<le>s free b q" "rq_origin_socket head \<in> opened"
  shows "\<exists>n ms. waiting (reserve_books opened b) q = drop n rest \<and> outbox (reserve_books opened b) = outbox b @ ms \<and>
    (rq_origin_socket head, granted_text head) \<in> set ms"
proof (cases q)
  case CPU_Q
  obtain n ms where "waiting (drain_books opened CPU_Q b) CPU_Q = drop n rest" "outbox (drain_books opened CPU_Q b) = outbox b @ ms"
    "(rq_origin_socket head, granted_text head) \<in> set ms"
    using drain_serves [of b CPU_Q] assms CPU_Q by metis
  then show ?thesis
    unfolding reserve_books_def CPU_Q
    using drain_books_frame(3) [of opened MEM_Q "drain_books opened CPU_Q b"]
      drain_books_frame(3) [of opened GPU_Q "drain_books opened MEM_Q (drain_books opened CPU_Q b)"]
    by (auto simp: drain_books_frame(1))
next
  case MEM_Q
  let ?b = "drain_books opened CPU_Q b"
  obtain ms0 where "outbox ?b = outbox b @ ms0" using drain_books_frame(3) by blast
  moreover obtain n ms where "waiting (drain_books opened MEM_Q ?b) MEM_Q = drop n rest" "outbox (drain_books opened MEM_Q ?b) = outbox ?b @ ms"
    "(rq_origin_socket head, granted_text head) \<in> set ms"
    using drain_serves [of ?b MEM_Q head rest opened] assms MEM_Q by (auto simp: drain_books_frame)
  ultimately show ?thesis
    unfolding reserve_books_def MEM_Q using drain_books_frame(3) [of opened GPU_Q "drain_books opened MEM_Q ?b"]
    by (auto simp: drain_books_frame(1))
next
  case GPU_Q
  let ?b = "drain_books opened MEM_Q (drain_books opened CPU_Q b)"
  obtain ms0 ms1 where "outbox ?b = (outbox b @ ms0) @ ms1"
    using drain_books_frame(3) [of opened CPU_Q b] drain_books_frame(3) [of opened MEM_Q "drain_books opened CPU_Q b"] by auto
  moreover obtain n ms where "waiting (drain_books opened GPU_Q ?b) GPU_Q = drop n rest" "outbox (drain_books opened GPU_Q ?b) = outbox ?b @ ms"
    "(rq_origin_socket head, granted_text head) \<in> set ms"
    using drain_serves [of ?b GPU_Q head rest opened] assms GPU_Q by (auto simp: drain_books_frame)
  ultimately show ?thesis unfolding reserve_books_def GPU_Q by auto
qed

section \<open>A contended server\<close>

text \<open>
  Two peers on 10 and 11: job 8 of peer 11 holds three of the four CPUs, job 7 of peer 10 waits
  for three.
\<close>

definition contended :: agent where
  "contended =
     (let st0 = (main_init [] [10 \<mapsto> (1, 5000), 11 \<mapsto> (2, 5001)] (\<lambda>_. 0))\<lparr>open_fds := {10, 11}\<rparr>
      in case Option.bind (enqueue_jobs st0 ''cpu'' 8 3 11) (\<lambda>st1. enqueue_jobs st1 ''cpu'' 7 3 10) of
           Some st \<Rightarrow> st | None \<Rightarrow> st0)"

lemma contended_inv: "server_inv contended"
proof -
  let ?st0 = "(main_init [] [10 \<mapsto> (1, 5000), 11 \<mapsto> (2, 5001)] (\<lambda>_. 0))\<lparr>open_fds := {10, 11}\<rparr>"
  have queues: "queue_inv (get_queue r ?st0)" for r by (cases r) (simp_all add: main_init_def make_queue_inv)
  have 0: "server_inv ?st0"
    using queues by (simp add: server_inv_def) (simp add: main_init_def create_tables_ok)
  obtain st1 where 1: "enqueue_jobs ?st0 ''cpu'' 8 3 11 = Some st1" "server_inv st1"
    by (rule enqueue_jobs_refines [OF 0, of "''cpu''" 8 3 11])
  obtain st2 where 2: "enqueue_jobs st1 ''cpu'' 7 3 10 = Some st2" "server_inv st2"
    by (rule enqueue_jobs_refines [OF 1(2), of "''cpu''" 7 3 10])
  show ?thesis using 1 2 by (simp add: contended_def)
qed

section \<open>Properties\<close>

lemma greedy_each_fits:
  "greedy left rs = (g, w, l) \<Longrightarrow> k < length g \<Longrightarrow>
     rq_amount_requested (g ! k) \<le>s left - sum_list (map rq_amount_requested (take k g))"
proof (induction left rs arbitrary: g w l k rule: greedy.induct)
  case (2 left r rs)
  show ?case
  proof (cases "rq_amount_requested r \<le>s left")
    case True
    then obtain g' where g': "greedy (left - rq_amount_requested r) rs = (g', w, l)" "g = r # g'"
      using 2(2) by (auto split: prod.splits)
    then show ?thesis using True 2(1) [OF True g'(1)] 2(3) by (cases k) (simp_all add: diff_diff_eq)
  next
    case False
    then show ?thesis using 2(2,3) by simp
  qed
qed simp

lemma new_agent_queue: "get_queue r new_agent = make_queue (case r of CPU_Q \<Rightarrow> 4 | MEM_Q \<Rightarrow> 8192 | GPU_Q \<Rightarrow> 1)"
  by (cases r) (simp_all add: new_agent_def main_init_def LOCAL_CPU_def LOCAL_MEM_def LOCAL_GPU_def)

lemma get_queue_opened [simp]: "get_queue r (st\<lparr>open_fds := s\<rparr>) = get_queue r st"
  by (cases r) simp_all

lemma new_agent_server: "server_inv (new_agent\<lparr>open_fds := s\<rparr>)" "settled r (new_agent\<lparr>open_fds := s\<rparr>)"
  by (simp_all add: server_inv_def settled_def new_agent_queue make_queue_inv)
    (simp add: new_agent_def main_init_def create_tables_ok)

text \<open>
  C13. The locked loop of \<open>drain_queue\<close> ends, follows no bad pointer, and takes from the queue the
  longest prefix of the waiting requests that the free amount pays for, in order: each one
  fits in what the ones before it left, the free amount drops by their sum, and the request
  now at the head, if any, does not fit. The requests are stashed last first.
\<close>

theorem drain_grants_longest_prefix:
  assumes "queue_inv q"
  shows "\<exists>g w q'. drain_loop q [] = Some (q', rev g) \<and> queue_inv q' \<and>
    queue_list q = g @ w \<and> queue_list q' = w \<and>
    resources_left q' = resources_left q - sum_list (map rq_amount_requested g) \<and>
    (\<forall>k < length g. rq_amount_requested (g ! k) \<le>s resources_left q - sum_list (map rq_amount_requested (take k g))) \<and>
    head_waits (resources_left q') w"
proof -
  obtain g w l where g: "greedy (resources_left q) (queue_list q) = (g, w, l)" by (metis prod_cases3)
  from drain_loop_greedy [OF assms g, of "[]"] obtain q' where
    "drain_loop q [] = Some (q', rev g)" "queue_inv q'" "queue_list q' = w" "resources_left q' = l" by auto
  then show ?thesis
    using greedy_split [OF g] greedy_left [OF g] greedy_stops [OF g] greedy_each_fits [OF g] by auto
qed

theorem drain_grants_longest_prefix_witness:
  "\<exists>q g w q'. run_queue [Enq 7 10 3, Enq 8 11 2] (make_queue 4) = Some (q, []) \<and>
     drain_loop q [] = Some (q', rev g) \<and> g @ w = [make_request 7 10 3, make_request 8 11 2] \<and> head_waits (resources_left q') w"
proof -
  let ?ops = "[Enq 7 10 3, Enq 8 11 2]"
  obtain q where q: "run_queue ?ops (make_queue 4) = Some (q, [])" "queue_inv q"
    "queue_list q = [make_request 7 10 3, make_request 8 11 2]"
    using run_queue_refines [OF make_queue_inv(1), of ?ops 4] make_queue_inv(2) [of 4] by auto
  from drain_grants_longest_prefix [OF q(2)] q(1,3) show ?thesis by metis
qed

text \<open>
  C14. The server refines its books: a \<open>RESERVE\<close> handled on the pointer queues and the hash
  table has, on the abstract books, the effect of appending the request to its FIFO and then
  granting greedily from the three queues; it always returns and keeps the invariant.
\<close>

theorem reserve_refines_books:
  assumes "server_inv st"
  shows "\<exists>st'. enqueue_jobs st res i n x = Some st' \<and> server_inv st' \<and>
    abs_books st' = reserve_books (open_fds st) (wait_books (resource_queue_of res) (make_request i x n) (abs_books st))"
  using enqueue_jobs_refines [OF assms, of res i n x] by metis

theorem reserve_refines_books_witness:
  "\<exists>st'. enqueue_jobs (new_agent\<lparr>open_fds := {10}\<rparr>) ''cpu'' 7 3 10 = Some st' \<and> server_inv st' \<and>
    abs_books st' = reserve_books {10} (wait_books CPU_Q (make_request 7 10 3) (abs_books (new_agent\<lparr>open_fds := {10}\<rparr>)))"
  using reserve_refines_books [OF new_agent_server(1) [of "{10}"], of "''cpu''" 7 3 10] by (simp add: resource_queue_of_def)

text \<open>
  C20. Granted at once or queued: when nobody waits for something that is free, a \<open>RESERVE\<close>
  on an open connection is granted immediately if its queue is empty and the amount is free
  (the pool drops by the amount, the ledger grows by it, one \<open>GRANTED\<close> is sent on that
  connection), and else only waits at the end of its queue, with nothing sent.
\<close>

theorem reserve_granted_or_queued:
  assumes "server_inv st" "\<forall>r. settled r st" "x \<in> open_fds st"
  shows "\<exists>st'. enqueue_jobs st res i n x = Some st' \<and>
    abs_books st' =
      (let q = resource_queue_of res; b = abs_books st; req = make_request i x n in
       if waiting b q = [] \<and> n \<le>s free b q
       then b\<lparr>free := (free b)(q := free b q - n), lent := (lent b)(q := lent b q + n),
              outbox := outbox b @ [(x, granted_text req)]\<rparr>
       else wait_books q req b)"
proof -
  let ?q = "resource_queue_of res" and ?req = "make_request i x n" and ?b = "abs_books st"
  obtain st' where st': "enqueue_jobs st res i n x = Some st'"
    "abs_books st' = reserve_books (open_fds st) (wait_books ?q ?req ?b)"
    by (rule enqueue_jobs_refines [OF assms(1), of res i n x])
  have all: "\<And>r. blocked ?b r" using assms(2) by (simp add: blocked_abs)
  have req: "rq_amount_requested ?req = n" "rq_origin_socket ?req = x" by (simp_all add: make_request_def)
  show ?thesis
  proof (cases "waiting ?b ?q = [] \<and> n \<le>s free ?b ?q")
    case True
    then show ?thesis using st' reserve_granted [of ?b ?q ?req "open_fds st"] all req assms(3) by (simp add: Let_def)
  next
    case False
    then have "reserve_books (open_fds st) (wait_books ?q ?req ?b) = wait_books ?q ?req ?b"
      using req by (intro reserve_waits [OF all]) auto
    then show ?thesis using st' False by (auto simp: Let_def)
  qed
qed

theorem reserve_granted_or_queued_witness:
  "\<exists>st'. enqueue_jobs (new_agent\<lparr>open_fds := {10}\<rparr>) ''cpu'' 7 3 10 = Some st' \<and>
     resources_left (get_queue CPU_Q st') = 1 \<and> sent st' = [(10, granted_text (make_request 7 10 3))]"
proof -
  let ?st = "new_agent\<lparr>open_fds := {10}\<rparr>"
  have left: "free (abs_books ?st) CPU_Q = 4" "waiting (abs_books ?st) CPU_Q = []" "outbox (abs_books ?st) = []"
    by (simp_all add: abs_books_def new_agent_queue [of CPU_Q, simplified] make_queue_inv)
      (simp add: new_agent_def main_init_def)
  obtain st' where st': "enqueue_jobs ?st ''cpu'' 7 3 10 = Some st'"
    "free (abs_books st') CPU_Q = 1" "outbox (abs_books st') = [(10, granted_text (make_request 7 10 3))]"
    using reserve_granted_or_queued [OF new_agent_server(1), of "{10}" 10 "''cpu''" 7 3] new_agent_server(2) left
    by (auto simp: resource_queue_of_def Let_def word_sle_eq)
  then show ?thesis by (intro exI [of _ st']) (simp add: abs_books_def)
qed

text \<open>
  C15. Reclaiming: \<open>RELEASE\<close> or a disconnect returns, per resource, exactly what is recorded
  for that connection to the pool and takes it off the ledger, then serves the queues; with
  nothing recorded for the connection it changes nothing at all.
\<close>

theorem release_refines_books:
  assumes "server_inv st"
  shows "\<exists>st'. release_client_by_fd st x = Some st' \<and> server_inv st' \<and>
    (if swept_by x (table_data (table_nodejobs st)) = [] then st' = st
     else abs_books st' = reserve_books (open_fds st) (return_books (reclaimed st x) (abs_books st)))"
  using release_client_by_fd_refines [OF assms, of x] by metis

theorem release_refines_books_witness:
  "\<exists>st'. release_client_by_fd contended 11 = Some st' \<and> server_inv st' \<and>
     resources_left (get_queue CPU_Q st') = 1 \<and> queue_list (get_queue CPU_Q st') = []"
proof -
  let ?b = "reserve_books (open_fds contended) (return_books (reclaimed contended 11) (abs_books contended))"
  have "(swept_by 11 (table_data (table_nodejobs contended)) \<noteq> [], free ?b CPU_Q, waiting ?b CPU_Q) = (True, 1, [])"
    by code_simp
  then have b: "swept_by 11 (table_data (table_nodejobs contended)) \<noteq> []" "free ?b CPU_Q = 1" "waiting ?b CPU_Q = []" by simp_all
  obtain st' where st': "release_client_by_fd contended 11 = Some st'" "server_inv st'" "abs_books st' = ?b"
    using release_refines_books [OF contended_inv, of 11] b(1) by auto
  have "resources_left (get_queue CPU_Q st') = free (abs_books st') CPU_Q" "queue_list (get_queue CPU_Q st') = waiting (abs_books st') CPU_Q"
    by (simp_all add: abs_books_def)
  then show ?thesis using st' b(2,3) by auto
qed

end
