(* ===== verification/Server_Threads.thy ===== *)
theory Server_Threads
  imports Pool_Safety Server_Behaviour Loopfunc
begin

text \<open>
  The server side of \<open>utils.c\<close> under the worker threads of \<open>agent.c\<close>. Four workers run the
  handlers of different descriptors at the same time, on the queues and \<open>table_nodejobs\<close> they
  share. The code of a handler is cut where it takes or drops a mutex: each section under one
  mutex is one \<open>action\<close>, and so is each system call between two sections. No section of these
  functions takes a second mutex, so that actions are what can be interleaved. \<open>record_granted\<close>
  is four of them: the peer's address, the lookup, the copy of the entry through the pointer that the
  lookup returned, if it found one, and the insertion; the table is unlocked in between. The copy is
  \<open>None\<close> when the entry has been freed since the lookup (\<open>Entry_Pointers\<close>).

  A worker is the list of actions it still has to run. \<open>run_thread\<close> runs one worker alone and
  gives the sequential operations of \<open>Utils\<close>; \<open>workers\<close> is any interleaving.
\<close>

section \<open>Actions\<close>

datatype action =
  Enqueue queue_id request
| Drain queue_id
| RecordPeer queue_id request
| RecordFind queue_id request "cint \<times> cint"
| RecordRead queue_id request "cint \<times> cint" "received_job \<times> nat"
| RecordInsert queue_id request "cint \<times> cint" "received_job option"
| SendGranted request
| Sweep fd
| GiveBack queue_id cint
| CloseFd fd

definition reserve_code :: "action list" where
  "reserve_code = [Drain CPU_Q, Drain MEM_Q, Drain GPU_Q]"

definition enqueue_jobs_code :: "string \<Rightarrow> cint \<Rightarrow> cint \<Rightarrow> fd \<Rightarrow> action list" where
  "enqueue_jobs_code resource job_id amount current_fd =
     Enqueue (resource_queue_of resource) (make_request job_id current_fd amount) # reserve_code"

definition release_code :: "fd \<Rightarrow> action list" where
  "release_code x = [Sweep x]"

text \<open>The part of the disconnect path that concerns the server side.\<close>

definition hang_up_code :: "fd \<Rightarrow> action list" where
  "hang_up_code x = release_code x @ [CloseFd x]"

definition grant_code :: "queue_id \<Rightarrow> request \<Rightarrow> action list" where
  "grant_code q req = [RecordPeer q req, SendGranted req]"

definition peer_key :: "request \<Rightarrow> cint \<times> cint \<Rightarrow> received_job" where
  "peer_key req peer = received_job_key (rq_job_id req) (fst peer) (snd peer)"

definition recorded :: "queue_id \<Rightarrow> request \<Rightarrow> cint \<times> cint \<Rightarrow> received_job option \<Rightarrow> received_job" where
  "recorded q req peer existing =
     (let rj = (case existing of Some e \<Rightarrow> e | None \<Rightarrow> peer_key req peer)\<lparr>original_socket := rq_origin_socket req\<rparr>;
          amount = rq_amount_requested req
      in case q of
           CPU_Q \<Rightarrow> rj\<lparr>cpu_granted := cpu_granted rj + amount\<rparr>
         | MEM_Q \<Rightarrow> rj\<lparr>mem_granted := mem_granted rj + amount\<rparr>
         | GPU_Q \<Rightarrow> rj\<lparr>gpu_granted := gpu_granted rj + amount\<rparr>)"

definition sweep_section :: "fd \<Rightarrow> agent \<Rightarrow> action list \<times> agent" where
  "sweep_section x st =
     (let t = table_nodejobs st;
          (buckets, acc) = sweep_buckets x (elems t) sweep_start;
          st1 = st\<lparr>table_nodejobs := t\<lparr>elems := buckets,
                     numElems := numElems t - of_nat (length (swept acc)),
                     destroyed := destroyed t @ swept acc\<rparr>\<rparr>
      in (if found_any acc
          then [GiveBack CPU_Q (add_cpu acc), GiveBack MEM_Q (add_mem acc), GiveBack GPU_Q (add_gpu acc)] @ reserve_code
          else [], st1))"

text \<open>Running an action gives the actions it leads to, which the worker runs next.\<close>

fun exec_action :: "action \<Rightarrow> agent \<Rightarrow> (action list \<times> agent) option" where
  "exec_action (Enqueue q rq) st = map_option (\<lambda>q'. ([], set_queue q q' st)) (enqueue_request (get_queue q st) rq)"
| "exec_action (Drain q) st =
     map_option (\<lambda>(q', ready). (concat (map (grant_code q) ready), set_queue q q' st)) (drain_loop (get_queue q st) [])"
| "exec_action (RecordPeer q req) st = Some ([RecordFind q req (peer_of st (rq_origin_socket req))], st)"
| "exec_action (RecordFind q req peer) st =
     Some ([case find_entry (table_nodejobs st) (peer_key req peer) of
              None \<Rightarrow> RecordInsert q req peer None | Some p \<Rightarrow> RecordRead q req peer p], st)"
| "exec_action (RecordRead q req peer p) st =
     map_option (\<lambda>e. ([RecordInsert q req peer (Some e)], st)) (read_entry (table_nodejobs st) p)"
| "exec_action (RecordInsert q req peer existing) st =
     Some ([], st\<lparr>table_nodejobs := tablahash_insert (table_nodejobs st) (recorded q req peer existing)\<rparr>)"
| "exec_action (SendGranted req) st = Some ([], sys_send st (rq_origin_socket req) (granted_text req))"
| "exec_action (Sweep x) st = Some (sweep_section x st)"
| "exec_action (GiveBack q n) st = Some ([], set_queue q (give_back n (get_queue q st)) st)"
| "exec_action (CloseFd x) st = Some ([], sys_close (epoll_ctl_del st x) x)"

section \<open>Schedules\<close>

text \<open>A schedule names the worker that runs its next action; it fails where \<open>guard\<close> forbids the action.\<close>

fun run_schedule ::
  "(action \<Rightarrow> agent \<Rightarrow> bool) \<Rightarrow> nat list \<Rightarrow> action list list \<times> agent \<Rightarrow> (action list list \<times> agent) option" where
  "run_schedule guard [] s = Some s"
| "run_schedule guard (i # is) (ts, st) =
     (if i < length ts then
        (case ts ! i of
           [] \<Rightarrow> None
         | a # rest \<Rightarrow>
             if guard a st then
               (case exec_action a st of
                  None \<Rightarrow> None
                | Some (bs, st') \<Rightarrow> run_schedule guard is (ts[i := bs @ rest], st'))
             else None)
      else None)"

section \<open>One worker alone\<close>

partial_function (option) run_thread :: "action list \<Rightarrow> agent \<Rightarrow> agent option" where
  "run_thread code st =
     (case code of
        [] \<Rightarrow> Some st
      | a # rest \<Rightarrow>
          (case exec_action a st of
             None \<Rightarrow> None
           | Some (next_actions, st') \<Rightarrow> run_thread (next_actions @ rest) st'))"

declare run_thread.simps [code]

lemma run_thread_Nil [simp]: "run_thread [] st = Some st"
  by (simp add: run_thread.simps)

lemma run_thread_Cons:
  "run_thread (a # rest) st =
     (case exec_action a st of None \<Rightarrow> None | Some (bs, st') \<Rightarrow> run_thread (bs @ rest) st')"
  by (subst run_thread.simps) simp

lemma recorded_add_grant:
  "recorded q req peer existing =
     add_grant (queue_type q) (rq_amount_requested req) (rq_origin_socket req)
       (case existing of Some e \<Rightarrow> e | None \<Rightarrow> peer_key req peer)"
  by (cases q) (simp_all add: recorded_def add_grant_def Let_def)

lemma record_granted_sections:
  "record_granted st (rq_job_id req) (rq_origin_socket req) (queue_type q) (rq_amount_requested req) =
     (let peer = peer_of st (rq_origin_socket req) in
      st\<lparr>table_nodejobs := tablahash_insert (table_nodejobs st)
           (recorded q req peer (tablahash_find (table_nodejobs st) (peer_key req peer)))\<rparr>)"
  by (cases q)
    (auto simp: record_granted_def recorded_def peer_of_def peer_key_def Let_def split: prod.split option.split)

text \<open>Without another worker the copy is that of the entry found.\<close>

lemma run_grant_code:
  assumes ok: "nodejobs_ok (table_nodejobs st)"
  shows "run_thread (grant_code q req @ rest) st = run_thread rest (grant_one (queue_type q) req st)"
proof (cases "find_entry (table_nodejobs st) (peer_key req (peer_of st (rq_origin_socket req)))")
  case None
  then show ?thesis
    by (simp add: grant_code_def run_thread_Cons grant_one_def record_granted_sections Let_def find_entry_def)
next
  case (Some p)
  then show ?thesis
    using nodejobs.find_entry_good(1) [OF ok Some]
    by (auto simp: grant_code_def run_thread_Cons grant_one_def record_granted_sections Let_def find_entry_def)
qed

lemma run_grant_codes:
  assumes "nodejobs_ok (table_nodejobs st)"
  shows "run_thread (concat (map (grant_code q) ready) @ rest) st = run_thread rest (grant_ready (queue_type q) ready st)"
  using assms
proof (induction ready arbitrary: st)
  case (Cons req ready)
  then show ?case
    using Cons.IH [of "grant_one (queue_type q) req st"] grant_ready_total(1) [of st "queue_type q" "[req]"]
    by (simp add: run_grant_code)
qed simp

lemma drain_queue_nodejobs:
  assumes "nodejobs_ok (table_nodejobs st)" "drain_queue st q type = Some st'"
  shows "nodejobs_ok (table_nodejobs st')"
  using assms grant_ready_total(1) [of "set_queue q q' st" type ready for q' ready]
  by (auto simp: drain_queue_def split: option.splits)

lemma run_Drain:
  assumes "nodejobs_ok (table_nodejobs st)"
  shows "run_thread (Drain q # rest) st = Option.bind (drain_queue st q (queue_type q)) (run_thread rest)"
  using assms by (auto simp: run_thread_Cons drain_queue_def run_grant_codes split: option.split)

lemma bind_run_Nil [simp]: "Option.bind x (run_thread []) = x"
  by (cases x) simp_all

lemma run_reserve_code:
  assumes "nodejobs_ok (table_nodejobs st)"
  shows "run_thread (reserve_code @ rest) st = Option.bind (reserve_elements st) (run_thread rest)"
proof -
  have step: "Option.bind (drain_queue st1 q (queue_type q)) (run_thread (Drain r # code)) =
      Option.bind (drain_queue st1 q (queue_type q)) (\<lambda>st2. Option.bind (drain_queue st2 r (queue_type r)) (run_thread code))"
    if "nodejobs_ok (table_nodejobs st1)" for st1 q r code
    using drain_queue_nodejobs [OF that, of q "queue_type q"]
    by (cases "drain_queue st1 q (queue_type q)") (simp_all add: run_Drain)
  have last: "Option.bind (drain_queue st1 MEM_Q ''mem'') (run_thread (Drain GPU_Q # rest)) =
      Option.bind (drain_queue st1 MEM_Q ''mem'') (\<lambda>st2. Option.bind (drain_queue st2 GPU_Q ''gpu'') (run_thread rest))"
    if "drain_queue st CPU_Q ''cpu'' = Some st1" for st1
    using step [OF drain_queue_nodejobs [OF assms that], of MEM_Q GPU_Q rest] by simp
  show ?thesis
    using run_Drain [OF assms, of CPU_Q] step [OF assms, of CPU_Q MEM_Q "Drain GPU_Q # rest"] last
    by (cases "drain_queue st CPU_Q ''cpu''") (simp_all add: reserve_code_def reserve_elements_def)
qed

lemma run_enqueue_code:
  assumes "nodejobs_ok (table_nodejobs st)"
  shows "run_thread (enqueue_jobs_code res i n x) st = enqueue_jobs st res i n x"
  using assms run_reserve_code [of "set_queue q q' st" "[]" for q q']
  by (auto simp: enqueue_jobs_code_def enqueue_jobs_def run_thread_Cons Let_def split: option.split)

lemma sweep_section_spec:
  "sweep_section x st =
     (if swept_by x (table_data (table_nodejobs st)) = [] then []
      else [GiveBack CPU_Q (reclaimed st x CPU_Q), GiveBack MEM_Q (reclaimed st x MEM_Q),
            GiveBack GPU_Q (reclaimed st x GPU_Q)] @ reserve_code,
      st\<lparr>table_nodejobs := table_filter (\<lambda>j. original_socket j \<noteq> x) (table_nodejobs st)\<rparr>)"
  by (simp add: sweep_section_def sweep_buckets_spec sweep_start_def Let_def swept_destroyed
      reclaimed_def granted_of_eta table_data_def [symmetric])

lemma run_release_code:
  assumes "nodejobs_ok (table_nodejobs st)"
  shows "run_thread (release_code x @ rest) st = Option.bind (release_client_by_fd st x) (run_thread rest)"
proof -
  have give: "table_nodejobs (set_queue q (give_back n (get_queue q st1)) st1) = table_nodejobs st1" for q n st1
    by (cases q) simp_all
  obtain bs st1 where s: "sweep_section x st = (bs, st1)" by fastforce
  have ok: "nodejobs_ok (table_nodejobs st1)"
    using s table_filter_ok [OF assms] by (auto simp: sweep_section_spec)
  show ?thesis
    using s run_reserve_code [of _ rest] ok
    by (auto simp: release_code_def release_client_by_fd_def run_thread_Cons sweep_section_def Let_def
        split: prod.splits if_splits)
qed

section \<open>Interleavings\<close>

definition NUM_WORKERS :: nat where "NUM_WORKERS = 4"

text \<open>
  The states the workers reach from \<open>st0\<close>. An idle worker starts the handler of an event: a
  \<open>RESERVE\<close> of an amount that satisfies \<open>ok\<close>, a \<open>RELEASE\<close>, a disconnect or a new connection; a busy
  worker runs its next action where \<open>guard\<close> allows it.
\<close>

inductive workers ::
  "(cint \<Rightarrow> bool) \<Rightarrow> (action \<Rightarrow> agent \<Rightarrow> bool) \<Rightarrow> agent \<Rightarrow> action list list \<Rightarrow> agent \<Rightarrow> bool"
  for ok guard st0 where
  workers_idle: "workers ok guard st0 (replicate NUM_WORKERS []) st0"
| workers_reserve: "workers ok guard st0 (ts[i := enqueue_jobs_code res job_id amount x]) st"
    if "workers ok guard st0 ts st" "i < length ts" "ts ! i = []" "ok amount"
| workers_release: "workers ok guard st0 (ts[i := release_code x]) st"
    if "workers ok guard st0 ts st" "i < length ts" "ts ! i = []"
| workers_hang_up: "workers ok guard st0 (ts[i := hang_up_code x]) st"
    if "workers ok guard st0 ts st" "i < length ts" "ts ! i = []"
| workers_accept: "workers ok guard st0 ts (connect_client st x peer epoll_ok)"
    if "workers ok guard st0 ts st" "i < length ts" "ts ! i = []"
| workers_step: "workers ok guard st0 (ts[i := bs @ rest]) st'"
    if "workers ok guard st0 ts st" "i < length ts" "ts ! i = a # rest" "guard a st" "exec_action a st = Some (bs, st')"

text \<open>
  A grant is recorded undisturbed when the entry of its key is, at the insertion, still what the
  lookup found.
\<close>

fun undisturbed :: "action \<Rightarrow> agent \<Rightarrow> bool" where
  "undisturbed (RecordInsert q req peer existing) st \<longleftrightarrow>
     tablahash_find (table_nodejobs st) (peer_key req peer) = existing"
| "undisturbed _ st \<longleftrightarrow> True"

text \<open>What an action of a worker has taken from the pool or the ledger and not yet put back.\<close>

fun carried :: "queue_id \<Rightarrow> action \<Rightarrow> cint" where
  "carried r (RecordPeer q req) = (if q = r then rq_amount_requested req else 0)"
| "carried r (RecordFind q req peer) = (if q = r then rq_amount_requested req else 0)"
| "carried r (RecordRead q req peer p) = (if q = r then rq_amount_requested req else 0)"
| "carried r (RecordInsert q req peer existing) = (if q = r then rq_amount_requested req else 0)"
| "carried r (GiveBack q n) = (if q = r then n else 0)"
| "carried r _ = 0"

definition carried_sum :: "queue_id \<Rightarrow> action list \<Rightarrow> int" where
  "carried_sum r code = sum_list (map (\<lambda>a. sint (carried r a)) code)"

definition in_flight :: "queue_id \<Rightarrow> action list list \<Rightarrow> int" where
  "in_flight r ts = sum_list (map (carried_sum r) ts)"

lemma carried_sum_simps [simp]:
  "carried_sum r [] = 0" "carried_sum r (a # as) = sint (carried r a) + carried_sum r as"
  "carried_sum r (as @ bs) = carried_sum r as + carried_sum r bs"
  by (simp_all add: carried_sum_def)

section \<open>No interleaving breaks the data structures\<close>

lemma server_inv_set_queue: "server_inv st \<Longrightarrow> queue_inv q' \<Longrightarrow> server_inv (set_queue q q' st)"
  by (simp add: server_inv_def)

lemma drain_section:
  assumes "server_inv st"
  obtains g w l q' where "greedy (resources_left (get_queue q st)) (queue_list (get_queue q st)) = (g, w, l)"
    "exec_action (Drain q) st = Some (concat (map (grant_code q) (rev g)), set_queue q q' st)"
    "queue_inv q'" "queue_list q' = w" "resources_left q' = l"
proof -
  obtain g w l where g: "greedy (resources_left (get_queue q st)) (queue_list (get_queue q st)) = (g, w, l)"
    by (metis prod_cases3)
  have "queue_inv (get_queue q st)" using assms by (simp add: server_inv_def)
  from drain_loop_greedy [OF this g, of "[]"] show ?thesis using that [OF g] by auto
qed

lemma enqueue_section:
  assumes "server_inv st"
  obtains q' where "exec_action (Enqueue q rq) st = Some ([], set_queue q q' st)" "queue_inv q'"
    "queue_list q' = queue_list (get_queue q st) @ [unlinked rq]" "resources_left q' = resources_left (get_queue q st)"
proof -
  have inv: "queue_inv (get_queue q st)" using assms by (simp add: server_inv_def)
  obtain q' where q': "enqueue_request (get_queue q st) rq = Some q'"
    using rq.enq_spec [OF inv] by blast
  show ?thesis
    using that q' rq.enq_inv [OF inv q'] rq.enq_items [OF inv q'] enqueue_left [OF q'] by simp
qed







lemma connect_client_frame:
  "table_nodejobs (connect_client st x p e) = table_nodejobs st" "get_queue r (connect_client st x p e) = get_queue r st"
  by (cases r; simp add: connect_client_def Let_def)+





section \<open>The signed reading of an action\<close>

fun action_ok :: "action \<Rightarrow> bool" where
  "action_ok (Enqueue q rq) \<longleftrightarrow> 0 \<le> sint (rq_amount_requested rq)"
| "action_ok (RecordPeer q req) \<longleftrightarrow> 0 \<le> sint (rq_amount_requested req)"
| "action_ok (RecordFind q req peer) \<longleftrightarrow> 0 \<le> sint (rq_amount_requested req)"
| "action_ok (RecordRead q req peer p) \<longleftrightarrow> 0 \<le> sint (rq_amount_requested req)"
| "action_ok (RecordInsert q req peer existing) \<longleftrightarrow> 0 \<le> sint (rq_amount_requested req)"
| "action_ok (GiveBack q n) \<longleftrightarrow> 0 \<le> sint n"
| "action_ok _ \<longleftrightarrow> True"

definition agent_nonneg :: "agent \<Rightarrow> bool" where
  "agent_nonneg st \<longleftrightarrow> server_inv st \<and> entries_nonneg st \<and>
     (\<forall>r. 0 \<le> sint (resources_left (get_queue r st)) \<and>
       (\<forall>q \<in> set (queue_list (get_queue r st)). 0 \<le> sint (rq_amount_requested q)))"

text \<open>Free, in the hands of the code given, and recorded as granted.\<close>

definition total_with :: "queue_id \<Rightarrow> action list \<Rightarrow> agent \<Rightarrow> int" where
  "total_with r code st = sint (resources_left (get_queue r st)) + carried_sum r code + granted_sum r st"

definition keeps_total :: "action \<Rightarrow> agent \<Rightarrow> action list \<Rightarrow> agent \<Rightarrow> bool" where
  "keeps_total a st bs st' \<longleftrightarrow> agent_nonneg st' \<and> (\<forall>b \<in> set bs. action_ok b) \<and>
     (\<forall>r. total_with r bs st' = total_with r [a] st)"

lemma granted_sum_cong: "table_nodejobs st' = table_nodejobs st \<Longrightarrow> granted_sum r st' = granted_sum r st"
  by (simp add: granted_sum_def)

lemma entries_nonneg_cong: "table_nodejobs st' = table_nodejobs st \<Longrightarrow> entries_nonneg st' = entries_nonneg st"
  by (simp add: entries_nonneg_def)

lemma keeps_total_frame:
  assumes "agent_nonneg st" "table_nodejobs st' = table_nodejobs st" "\<And>r. get_queue r st' = get_queue r st"
    "\<forall>b \<in> set bs. action_ok b" "\<And>r. carried_sum r bs = sint (carried r a)"
  shows "keeps_total a st bs st'"
  using assms server_inv_cong [of st' st] granted_sum_cong [of st' st] entries_nonneg_cong [of st' st]
  by (simp add: keeps_total_def agent_nonneg_def total_with_def)

lemma carried_grant_codes:
  "carried_sum r (concat (map (grant_code q) gs)) =
     (if q = r then sum_list (map (\<lambda>q. sint (rq_amount_requested q)) gs) else 0)"
  by (induction gs) (simp_all add: grant_code_def)

lemma keeps_total_enqueue:
  assumes nn: "agent_nonneg st" and a: "action_ok (Enqueue q rq)"
    and ex: "exec_action (Enqueue q rq) st = Some (bs, st')"
  shows "keeps_total (Enqueue q rq) st bs st'"
proof -
  have inv: "server_inv st" using nn by (simp add: agent_nonneg_def)
  obtain q' where q': "exec_action (Enqueue q rq) st = Some ([], set_queue q q' st)" "queue_inv q'"
    "queue_list q' = queue_list (get_queue q st) @ [unlinked rq]" "resources_left q' = resources_left (get_queue q st)"
    by (rule enqueue_section [OF inv])
  have "bs = []" "st' = set_queue q q' st" using ex q'(1) by (simp_all del: exec_action.simps)
  then show ?thesis
    using nn a q'(2,3,4) server_inv_set_queue [OF inv q'(2), of q]
    by (auto simp: keeps_total_def agent_nonneg_def total_with_def unlinked_def)
qed

lemma keeps_total_drain:
  assumes nn: "agent_nonneg st" and ex: "exec_action (Drain q) st = Some (bs, st')"
  shows "keeps_total (Drain q) st bs st'"
proof -
  let ?amt = "\<lambda>q. sint (rq_amount_requested q)"
  have inv: "server_inv st" using nn by (simp add: agent_nonneg_def)
  obtain g w l q' where g: "greedy (resources_left (get_queue q st)) (queue_list (get_queue q st)) = (g, w, l)"
    and q': "exec_action (Drain q) st = Some (concat (map (grant_code q) (rev g)), set_queue q q' st)"
      "queue_inv q'" "queue_list q' = w" "resources_left q' = l"
    by (rule drain_section [OF inv])
  have eq: "bs = concat (map (grant_code q) (rev g))" "st' = set_queue q q' st" using ex q'(1) by (simp_all del: exec_action.simps)
  have "\<forall>x \<in> set (queue_list (get_queue q st)). 0 \<le> ?amt x" using nn unfolding agent_nonneg_def by blast
  then have nnq: "\<forall>x \<in> set (g @ w). 0 \<le> ?amt x" "0 \<le> sint (resources_left (get_queue q st))"
    using nn greedy_split [OF g] by (simp_all add: agent_nonneg_def)
  then have l: "sint l = sint (resources_left (get_queue q st)) - sum_list (map ?amt g) \<and> 0 \<le> sint l"
    using greedy_split [OF g] by (intro greedy_signed [OF g]) simp_all
  have "sum_list (map ?amt (rev g)) = sum_list (map ?amt g)" by (simp add: rev_map [symmetric])
  then have "carried_sum r bs = (if q = r then sum_list (map ?amt g) else 0)" for r
    by (simp only: eq(1) carried_grant_codes)
  moreover have "\<forall>b \<in> set bs. action_ok b" using nnq(1) by (auto simp: eq(1) grant_code_def)
  moreover have "agent_nonneg st'"
    using nn l nnq(1) q'(2-4) server_inv_set_queue [OF inv q'(2), of q] by (auto simp: eq(2) agent_nonneg_def)
  ultimately show ?thesis
    using l q'(4) by (auto simp: keeps_total_def total_with_def eq(2))
qed

text \<open>An undisturbed insertion is \<open>record_granted\<close> as a whole, for the address read before.\<close>

lemma insertion_records:
  assumes "undisturbed (RecordInsert q req peer existing) st"
  shows "tablahash_insert (table_nodejobs st) (recorded q req peer existing) =
    table_nodejobs (record_granted (st\<lparr>open_fds := UNIV, os_peername := \<lambda>_. Some peer\<rparr>)
      (rq_job_id req) (rq_origin_socket req) (queue_type q) (rq_amount_requested req))"
  using assms
  by (simp add: record_granted_sections Let_def) (simp add: peer_of_def getpeername_def)

lemma keeps_total_insert:
  assumes nn: "agent_nonneg st" and a: "action_ok (RecordInsert q req peer existing)"
    and un: "undisturbed (RecordInsert q req peer existing) st"
    and room: "total_with q [RecordInsert q req peer existing] st < 2147483648"
    and ex: "exec_action (RecordInsert q req peer existing) st = Some (bs, st')"
  shows "keeps_total (RecordInsert q req peer existing) st bs st'"
proof -
  let ?s = "st\<lparr>open_fds := UNIV, os_peername := \<lambda>_. Some peer\<rparr>"
  let ?s' = "record_granted ?s (rq_job_id req) (rq_origin_socket req) (queue_type q) (rq_amount_requested req)"
  have eq: "bs = []" "st' = st\<lparr>table_nodejobs := table_nodejobs ?s'\<rparr>"
    using ex insertion_records [OF un] by simp_all
  have ok: "nodejobs_ok (table_nodejobs ?s)" "entries_nonneg ?s"
    using nn entries_nonneg_cong [of ?s st] by (simp_all add: agent_nonneg_def server_inv_def)
  have "granted_sum q ?s + sint (rq_amount_requested req) < 2147483648"
    using room nn granted_sum_cong [of ?s st] by (auto simp: total_with_def agent_nonneg_def) (smt (verit))
  then have safe: "granted_sum r ?s' = granted_sum r st + (if r = q then sint (rq_amount_requested req) else 0)"
    "entries_nonneg ?s'" for r
    using record_granted_safe [OF ok, of "rq_amount_requested req" "queue_type q"] a granted_sum_cong [of ?s st]
    by simp_all
  have "granted_sum r st' = granted_sum r ?s'" "entries_nonneg st' = entries_nonneg ?s'" for r
    by (rule granted_sum_cong entries_nonneg_cong; simp add: eq(2))+
  moreover have "nodejobs_ok (table_nodejobs ?s')" by (rule nodejobs_ok_record [OF ok(1)])
  ultimately show ?thesis
    using nn safe by (auto simp: keeps_total_def agent_nonneg_def server_inv_def total_with_def eq)
qed

lemma keeps_total_sweep:
  assumes nn: "agent_nonneg st" and room: "\<And>r. total_with r [Sweep x] st < 2147483648"
    and ex: "exec_action (Sweep x) st = Some (bs, st')"
  shows "keeps_total (Sweep x) st bs st'"
proof (cases "swept_by x (table_data (table_nodejobs st)) = []")
  case True
  then have "bs = []" "st' = st" using ex filter_nothing [OF True] by (simp_all add: sweep_section_spec)
  then show ?thesis using nn by (simp add: keeps_total_def total_with_def)
next
  case False
  have en: "entries_nonneg st" and r: "granted_sum r st < 2147483648" for r
    using nn room [of r] by (auto simp: agent_nonneg_def total_with_def) (smt (verit))
  note back_sum = sint_reclaimed [OF en r]
  have eq: "bs = [GiveBack CPU_Q (reclaimed st x CPU_Q), GiveBack MEM_Q (reclaimed st x MEM_Q),
      GiveBack GPU_Q (reclaimed st x GPU_Q)] @ reserve_code"
    "st' = st\<lparr>table_nodejobs := table_nodejobs (reclaim st x)\<rparr>"
    using ex False by (simp_all add: sweep_section_spec)
  have "carried_sum r bs = sint (reclaimed st x r)" for r
    by (cases r) (simp_all add: eq(1) reserve_code_def)
  moreover have "granted_sum r st' = granted_sum r (reclaim st x)" for r
    by (rule granted_sum_cong) (simp add: eq(2))
  moreover have "agent_nonneg st'"
    using nn by (auto simp: agent_nonneg_def server_inv_def entries_nonneg_def eq(2) table_filter_ok)
  moreover have "\<forall>b \<in> set bs. action_ok b" using back_sum(2) by (auto simp: eq(1) reserve_code_def)
  ultimately show ?thesis using back_sum(1) by (simp add: keeps_total_def total_with_def eq(2))
qed

lemma keeps_total_give_back:
  assumes nn: "agent_nonneg st" and a: "action_ok (GiveBack q n)" and room: "total_with q [GiveBack q n] st < 2147483648"
    and ex: "exec_action (GiveBack q n) st = Some (bs, st')"
  shows "keeps_total (GiveBack q n) st bs st'"
proof -
  have eq: "bs = []" "st' = set_queue q (give_back n (get_queue q st)) st" using ex by simp_all
  have "0 \<le> granted_sum q st"
    using nn by (auto simp: agent_nonneg_def entries_nonneg_def granted_sum_def intro!: sum_list_nonneg_int)
  moreover have "0 \<le> sint (resources_left (get_queue q st))" using nn by (simp add: agent_nonneg_def)
  ultimately have "sint (resources_left (get_queue q st) + n) = sint (resources_left (get_queue q st)) + sint n"
    using a room by (intro sint32_add) (simp_all add: total_with_def)
  then show ?thesis
    using nn a by (auto simp: keeps_total_def agent_nonneg_def total_with_def eq server_inv_def)
qed

lemma exec_action_keeps_total:
  assumes "agent_nonneg st" "action_ok a" "undisturbed a st" "\<And>r. total_with r [a] st < 2147483648"
    "exec_action a st = Some (bs, st')"
  shows "keeps_total a st bs st'"
proof (cases a)
  case (RecordPeer q req)
  then show ?thesis using assms by (auto intro!: keeps_total_frame)
next
  case (RecordFind q req peer)
  then show ?thesis using assms by (auto intro!: keeps_total_frame split: option.split)
next
  case (RecordRead q req peer p)
  then show ?thesis using assms by (auto intro!: keeps_total_frame)
next
  case (SendGranted req)
  then show ?thesis using assms by (auto intro!: keeps_total_frame)
next
  case (CloseFd x)
  then show ?thesis using assms by (auto intro!: keeps_total_frame)
qed (use assms keeps_total_enqueue keeps_total_drain keeps_total_insert keeps_total_sweep keeps_total_give_back in \<open>simp_all only:\<close>)

section \<open>Every interleaving\<close>

definition threads_safe :: "(queue_id \<Rightarrow> int) \<Rightarrow> action list list \<Rightarrow> agent \<Rightarrow> bool" where
  "threads_safe cap ts st \<longleftrightarrow> agent_nonneg st \<and> (\<forall>code \<in> set ts. \<forall>a \<in> set code. action_ok a) \<and>
     (\<forall>r. cap r < 2147483648 \<and>
       sint (resources_left (get_queue r st)) + in_flight r ts + granted_sum r st = cap r)"

lemma sum_list_map_update:
  "i < length xs \<Longrightarrow> sum_list (map f (xs[i := y])) = sum_list (map f xs) - f (xs ! i) + (f y :: int)"
  by (induction xs arbitrary: i) (auto split: nat.split)

lemma in_flight_update:
  "i < length ts \<Longrightarrow> in_flight r (ts[i := code]) = in_flight r ts - carried_sum r (ts ! i) + carried_sum r code"
  unfolding in_flight_def by (rule sum_list_map_update)

lemma action_ok_carried: "action_ok a \<Longrightarrow> 0 \<le> sint (carried r a)"
  by (cases a) simp_all

lemma carried_sum_nonneg: "\<forall>a \<in> set code. action_ok a \<Longrightarrow> 0 \<le> carried_sum r code"
  unfolding carried_sum_def by (intro sum_list_nonneg_int) (auto intro: action_ok_carried)

lemma in_flight_at:
  assumes "\<forall>code \<in> set ts. \<forall>a \<in> set code. action_ok a" "i < length ts"
  shows "carried_sum r (ts ! i) \<le> in_flight r ts"
  unfolding in_flight_def using assms by (intro member_le_sum_list_int) (auto intro: carried_sum_nonneg)

lemma set_update_ok:
  "\<forall>code \<in> set ts. \<forall>a \<in> set code. action_ok a \<Longrightarrow> \<forall>a \<in> set new. action_ok a \<Longrightarrow>
   \<forall>code \<in> set (ts[i := new]). \<forall>a \<in> set code. action_ok a"
  using set_update_subset_insert [of ts i new] by blast

lemma threads_safe_start:
  assumes "threads_safe cap ts st" "i < length ts" "ts ! i = []" "\<forall>a \<in> set code. action_ok a"
    "\<And>r. carried_sum r code = 0"
  shows "threads_safe cap (ts[i := code]) st"
  using assms set_update_ok [of ts code i] by (simp add: threads_safe_def in_flight_update)

lemma threads_safe_step:
  assumes safe: "threads_safe cap ts st" and i: "i < length ts" "ts ! i = a # rest"
    and un: "undisturbed a st" and ex: "exec_action a st = Some (bs, st')"
  shows "threads_safe cap (ts[i := bs @ rest]) st'"
proof -
  have ok: "\<forall>code \<in> set ts. \<forall>a \<in> set code. action_ok a" and nn: "agent_nonneg st"
    and cap: "cap r < 2147483648" "sint (resources_left (get_queue r st)) + in_flight r ts + granted_sum r st = cap r" for r
    using safe by (simp_all add: threads_safe_def)
  have acts: "\<forall>b \<in> set (a # rest). action_ok b" using ok i nth_mem by metis
  have "total_with r [a] st < 2147483648" for r
    using cap [of r] in_flight_at [OF ok i(1), of r] carried_sum_nonneg [of rest r] acts i(2)
    by (simp add: total_with_def)
  then have keeps: "keeps_total a st bs st'"
    using acts by (intro exec_action_keeps_total [OF nn _ un _ ex]) simp_all
  have "sint (resources_left (get_queue r st')) + in_flight r (ts[i := bs @ rest]) + granted_sum r st' = cap r" for r
    using cap(2) [of r] keeps in_flight_update [OF i(1), of r "bs @ rest"] i(2)
    by (auto simp: keeps_total_def total_with_def dest!: spec [of _ r])
  then show ?thesis
    using keeps cap(1) acts set_update_ok [OF ok, of "bs @ rest" i]
    by (auto simp: threads_safe_def keeps_total_def)
qed

lemma reserve_code_simps [simp]: "\<forall>a \<in> set reserve_code. action_ok a" "carried_sum r reserve_code = 0"
  by (simp_all add: reserve_code_def)

lemma workers_threads_safe:
  assumes "workers (\<lambda>amount. 0 \<le>s amount) undisturbed st0 ts st" "pool_safe cap st0"
  shows "threads_safe cap ts st"
  using assms
proof (induction rule: workers.induct)
  case workers_idle
  then show ?case by (simp add: threads_safe_def pool_safe_def agent_nonneg_def in_flight_def sum_list_replicate)
next
  case (workers_reserve ts st i amount res job_id x)
  then show ?case
    by (intro threads_safe_start) (auto simp: enqueue_jobs_code_def make_request_def word_sle_eq)
next
  case (workers_release ts st i x)
  then show ?case by (intro threads_safe_start) (auto simp: release_code_def)
next
  case (workers_hang_up ts st i x)
  then show ?case by (intro threads_safe_start) (auto simp: release_code_def hang_up_code_def)
next
  case (workers_accept ts st i x peer epoll_ok)
  then show ?case
    by (simp add: threads_safe_def agent_nonneg_def server_inv_def entries_nonneg_def granted_sum_def connect_client_frame)
next
  case (workers_step ts st i a rest bs st')
  then show ?case by (blast intro: threads_safe_step)
qed

lemma run_schedule_workers:
  "run_schedule guard is (ts, st) = Some (ts', st') \<Longrightarrow> workers ok guard st0 ts st \<Longrightarrow> workers ok guard st0 ts' st'"
proof (induction guard "is" "(ts, st)" arbitrary: ts st rule: run_schedule.induct)
  case (2 guard i "is" ts st)
  obtain a rest bs st1 where step: "i < length ts" "ts ! i = a # rest" "guard a st" "exec_action a st = Some (bs, st1)"
    "run_schedule guard is (ts[i := bs @ rest], st1) = Some (ts', st')"
    using 2(2) by (auto split: if_splits list.splits option.splits prod.splits)
  show ?case
    by (rule 2(1) [OF step(1-4) refl step(5) workers_step [OF 2(3) step(1-4)]])
qed simp

lemma start_reserve:
  "ok n \<Longrightarrow> workers ok guard st [enqueue_jobs_code res i n x, [], [], []] st"
  using workers_reserve [OF workers_idle, of 0 ok n guard st res i x] by (simp add: NUM_WORKERS_def eval_nat_numeral)

lemma new_agent_safe: "pool_safe (\<lambda>r. sint (resources_left (get_queue r new_agent))) new_agent"
  using new_agent_server(1) [of "open_fds new_agent"]
  by (simp add: pool_safe_def entries_nonneg_def granted_sum_def new_agent_queue make_queue_inv split: queue_id.split)
    (simp add: new_agent_def main_init_def created_empty)

section \<open>Properties\<close>

text \<open>
  A worker that runs without interference computes what the sequential operation computes: the
  sections into which \<open>enqueue_jobs\<close> and \<open>release_client_by_fd\<close> are cut at their locks, one after the
  other, give the same result.
\<close>

theorem sections_compose_to_handlers:
  assumes "nodejobs_ok (table_nodejobs st)"
  shows "run_thread (enqueue_jobs_code res job_id amount x) st = enqueue_jobs st res job_id amount x \<and>
   run_thread (release_code x) st = release_client_by_fd st x \<and>
   run_thread (hang_up_code x) st =
     map_option (\<lambda>st'. sys_close (epoll_ctl_del st' x) x) (release_client_by_fd st x)"
  using run_release_code [OF assms, of x "[]"] run_release_code [OF assms, of x "[CloseFd x]"] run_enqueue_code [OF assms]
  by (cases "release_client_by_fd st x") (simp_all add: hang_up_code_def run_thread_Cons)




text \<open>
  C16. The workers together never over-commit: in every interleaving in which peers ask for amounts
  that are not negative, and the entry that \<open>record_granted\<close> replaces is at the insertion
  still the one it copied, the free amount of each resource is never negative, and
  together with what the workers have in hand and what is recorded as granted it is the
  capacity, as integers. When all workers are idle nothing is missing.
\<close>

theorem workers_never_overcommit:
  assumes "pool_safe cap st0" "workers (\<lambda>amount. 0 \<le>s amount) undisturbed st0 ts st"
  shows "0 \<le> sint (resources_left (get_queue r st)) \<and> 0 \<le> in_flight r ts \<and>
    sint (resources_left (get_queue r st)) + in_flight r ts + granted_sum r st = cap r \<and>
    (ts = replicate NUM_WORKERS [] \<longrightarrow> pool_safe cap st)"
proof -
  have safe: "threads_safe cap ts st" by (rule workers_threads_safe [OF assms(2,1)])
  have "0 \<le> in_flight r ts"
    using safe unfolding in_flight_def
    by (intro sum_list_nonneg_int) (auto simp: threads_safe_def intro: carried_sum_nonneg)
  moreover have "in_flight q (replicate NUM_WORKERS []) = 0" for q
    by (simp add: in_flight_def sum_list_replicate)
  ultimately show ?thesis
    using safe by (auto simp: threads_safe_def agent_nonneg_def pool_safe_def)
qed

theorem workers_never_overcommit_witness:
  "\<exists>ts st. run_schedule undisturbed (replicate 3 0) ([enqueue_jobs_code ''cpu'' 7 3 10, [], [], []], new_agent) =
       Some (ts, st) \<and> in_flight CPU_Q ts = 3 \<and> sint (resources_left (cpu_queue st)) + 3 + granted_sum CPU_Q st = 4"
proof -
  have "map_option (\<lambda>(ts, st). in_flight CPU_Q ts)
      (run_schedule undisturbed (replicate 3 0) ([enqueue_jobs_code ''cpu'' 7 3 10, [], [], []], new_agent)) = Some 3"
    by code_simp
  then obtain ts st where run: "run_schedule undisturbed (replicate 3 0)
      ([enqueue_jobs_code ''cpu'' 7 3 10, [], [], []], new_agent) = Some (ts, st)" "in_flight CPU_Q ts = 3"
    by auto
  have "workers (\<lambda>amount. 0 \<le>s amount) undisturbed new_agent ts st"
    by (rule run_schedule_workers [OF run(1)], rule start_reserve) (simp add: word_sle_eq)
  from workers_never_overcommit [OF new_agent_safe this, of CPU_Q] run show ?thesis
    by (simp add: new_agent_queue [of CPU_Q, simplified] make_queue_inv)
qed

text \<open>
  Two workers that record grants for the same key at the same time lose one of them: one
  worker grants the CPUs that peer 11 returns to the waiting job 7 of peer 10, another grants
  100 MB to the same job, and both look the entry up before either inserts. In the end the pool
  lacks three CPUs and 100 MB, no worker has anything in hand, and the entry of the job records the
  CPUs only, so that the memory can never be reclaimed.
\<close>

theorem concurrent_grants_lose_memory:
  "map_option (\<lambda>(ts, st). (map (\<lambda>r. (resources_left (get_queue r st), in_flight r ts)) [CPU_Q, MEM_Q],
       map (\<lambda>j. (rj_id j, cpu_granted j, mem_granted j)) (table_data (table_nodejobs st))))
     (run_schedule (\<lambda>_ _. True) (replicate 7 0 @ replicate 6 1 @ [0])
       ([release_code 11, enqueue_jobs_code ''mem'' 7 100 10, [], []], contended)) =
   Some ([(1, 0), (8092, 0)], [(7, 3, 0)])"
  by code_simp

text \<open>
  A grant in flight outlives its peer: a worker takes the waiting request of peer 10 from the
  queue; before it records the grant, another worker handles the disconnect of peer 10 and finds
  nothing to reclaim. The three CPUs then stay recorded for a closed descriptor.
\<close>

theorem grant_in_flight_outlives_peer:
  "map_option (\<lambda>(ts, st). (resources_left (cpu_queue st), in_flight CPU_Q ts, 10 \<in> open_fds st,
       map (\<lambda>j. (rj_id j, cpu_granted j, original_socket j)) (table_data (table_nodejobs st))))
     (run_schedule (\<lambda>_ _. True) (replicate 5 0 @ replicate 2 1 @ replicate 3 0)
       ([release_code 11, hang_up_code 10, [], []], contended)) =
   Some (1, 0, False, [(7, 3, 10)])"
  by code_simp

end
