(* ===== verification/Client_Threads.thy ===== *)
theory Client_Threads
  imports Job_Lifecycle Server_Threads
begin

text \<open>
  The client side of \<open>communications.c\<close>, \<open>utils.c\<close>, \<open>timer.c\<close> and \<open>loopfunc.c\<close> under the worker
  threads. The handlers are cut where they take or drop the mutex of a table: a program counter
  \<open>client_pc\<close> is where a worker stands between two sections, with the local variables it still
  needs. A lookup in the descriptor index and the reading of the entry through the pointer it
  returned are two steps (\<open>Entry_Pointers\<close>), and so are a lookup of a job and what is done through the
  pointer to it; what a handler does with a job between two locks is one step.

  The timeout sweep collects the ids of the expired jobs under the mutex and then ends them one by
  one; \<open>Timed_out ids\<close> carries the ids that are still to come. \<open>JOB_REQUEST\<close> starts at the insertion of
  the job it has built; that it reads the ports of the destinations in \<open>table_nodes\<close> before is not
  cut further.
\<close>

section \<open>Sections\<close>

text \<open>Why a job ends: the timeout sweep, a refusal or a lost provider, or a \<open>JOB_RELEASE\<close>.\<close>

datatype ending = Timed_out "cint list" | Rejected | By_scheduler

text \<open>How a provider is lost: by a \<open>DENIED\<close>, or by the end of its connection.\<close>

datatype loss = Denied | Disconnected

datatype client_pc =
    Idle
  | Granted_find fd cint time_t
  | Granted_read "fd_job_entry \<times> nat" fd cint time_t
  | Granted_move address fd cint time_t
  | Granted_unindex address fd
  | Granted_unwatch address fd
  | Ask address
  | Ask_index address outbound
  | Ask_watch address outbound
  | Ask_undo address outbound
  | Ask_close fd
  | Send_find fd
  | Send_read "fd_job_entry \<times> nat" fd
  | Send_line address fd
  | Insert_job local_job_t
  | Lost_find loss fd
  | Lost_read loss "fd_job_entry \<times> nat" fd
  | Lost_id address fd
  | Lost_unindex address fd
  | Collect time_t
  | Expire "cint list"
  | Find_job cint ending
  | Teardown address ending
  | Teardown_unindex address fd ending
  | Teardown_close address ending
  | Release_job address ending
  | Tell address cint ending
  | Free_job address ending
  | Status_find string
  | Status_read address string
  | Report string string

definition move_head :: "fd \<Rightarrow> time_t \<Rightarrow> local_job_t \<Rightarrow> local_job_t" where
  "move_head x now j =
     (case lj_next_req j of
        [] \<Rightarrow> j
      | req # rest \<Rightarrow> j\<lparr>lj_next_req := rest, lj_granted_reqs := req\<lparr>pr_provider_fd := x\<rparr> # lj_granted_reqs j\<rparr>)\<lparr>lj_timer := now\<rparr>"

definition unindex :: "agent \<Rightarrow> fd_job_entry \<Rightarrow> agent" where
  "unindex st k = st\<lparr>table_ourjobs := tablahash_remove_lock (table_ourjobs st) k\<rparr>"

text \<open>\<open>ask_for_next_resource\<close> up to the insertion into the descriptor index.\<close>

definition ask_section :: "address \<Rightarrow> local_job_t \<Rightarrow> agent \<Rightarrow> client_pc \<times> agent" where
  "ask_section a job st =
     (case lj_next_req job of
        [] \<Rightarrow> (Idle, C_to_erlang st ''granted'' (id_str (lj_job_id job)))
      | req # _ \<Rightarrow>
          (case os_outbound st of
             [] \<Rightarrow> (Idle, st)
           | ob # obs \<Rightarrow>
               (let remote_fd = ob_fd ob; st0 = st\<lparr>os_outbound := obs\<rparr> in
                if remote_fd <s 0 then (Idle, st0)
                else
                  (let st1 = st0\<lparr>open_fds := insert remote_fd (open_fds st0),
                               os_peername := (os_peername st0)(remote_fd \<mapsto> dest_addr st0 req),
                               connects := connects st0 @ [(remote_fd, pr_dest_ip req, pr_dest_port req)]\<rparr> in
                   if \<not> ob_connect_ok ob then (Idle, sys_close st1 remote_fd)
                   else (Ask_index a ob, write_job st1 a (\<lambda>j. j\<lparr>lj_origin_socket := remote_fd\<rparr>))))))"

fun ending_text :: "ending \<Rightarrow> string" where
  "ending_text (Timed_out ids) = ''timeout''"
| "ending_text _ = ''rejected''"

text \<open>What follows when a job is over: the sweep goes on with its next id.\<close>

fun resume :: "ending \<Rightarrow> client_pc" where
  "resume (Timed_out ids) = Expire ids"
| "resume _ = Idle"

text \<open>
  One section; \<open>None\<close> where it would read through a pointer to a freed entry or job. \<open>JOB_RELEASE\<close>
  tells the scheduler nothing; a lost connection reads the id of the job before it touches the index.
\<close>

fun exec_pc :: "client_pc \<Rightarrow> agent \<Rightarrow> (client_pc \<times> agent) option" where
  "exec_pc Idle st = Some (Idle, st)"
| "exec_pc (Granted_find x i now) st =
     Some (case find_entry (table_ourjobs st) (fd_key x) of None \<Rightarrow> Idle | Some p \<Rightarrow> Granted_read p x i now, st)"
| "exec_pc (Granted_read p x i now) st =
     map_option (\<lambda>found. (Granted_move (entry_job found) x i now, st)) (read_entry (table_ourjobs st) p)"
| "exec_pc (Granted_move a x i now) st =
     Option.bind (deref_job st a) (\<lambda>job.
       if lj_job_id job \<noteq> i then Some (Idle, st) else Some (Granted_unindex a x, write_job st a (move_head x now)))"
| "exec_pc (Granted_unindex a x) st = Some (Granted_unwatch a x, unindex st (fd_key x))"
| "exec_pc (Granted_unwatch a x) st = Some (Ask a, epoll_ctl_del st x)"
| "exec_pc (Ask a) st = Option.bind (deref_job st a) (\<lambda>job. Some (ask_section a job st))"
| "exec_pc (Ask_index a ob) st =
     Some (Ask_watch a ob,
       st\<lparr>table_ourjobs := tablahash_insert (table_ourjobs st) \<lparr>entry_fd = ob_fd ob, entry_job = a\<rparr>\<rparr>)"
| "exec_pc (Ask_watch a ob) st =
     Some (if ob_epoll_ok ob then (Idle, epoll_ctl_add st (ob_fd ob) reg_out_oneshot) else (Ask_undo a ob, st))"
| "exec_pc (Ask_undo a ob) st = Some (Ask_close (ob_fd ob), unindex st \<lparr>entry_fd = ob_fd ob, entry_job = a\<rparr>)"
| "exec_pc (Ask_close x) st = Some (Idle, sys_close st x)"
| "exec_pc (Send_find x) st =
     Some (case find_entry (table_ourjobs st) (fd_key x) of None \<Rightarrow> Idle | Some p \<Rightarrow> Send_read p x, st)"
| "exec_pc (Send_read p x) st =
     map_option (\<lambda>found. (Send_line (entry_job found) x, st)) (read_entry (table_ourjobs st) p)"
| "exec_pc (Send_line a x) st =
     Option.bind (deref_job st a) (\<lambda>job. Some (Idle,
       case lj_next_req job of
         [] \<Rightarrow> st
       | req # _ \<Rightarrow> epoll_ctl_mod (sys_send st x (reserve_text job req)) x reg_in_et_oneshot))"
| "exec_pc (Insert_job job) st =
     (let a = fresh_job st in
      Some (Ask a, st\<lparr>table_localjobs := tablahash_insert (table_localjobs st) (job\<lparr>lj_self := a\<rparr>), fresh_job := Suc a\<rparr>))"
| "exec_pc (Lost_find l x) st =
     Some (case find_entry (table_ourjobs st) (fd_key x) of None \<Rightarrow> Idle | Some p \<Rightarrow> Lost_read l p x, st)"
| "exec_pc (Lost_read l p x) st =
     map_option (\<lambda>found. (if l = Denied then Lost_unindex (entry_job found) x else Lost_id (entry_job found) x, st))
       (read_entry (table_ourjobs st) p)"
| "exec_pc (Lost_id a x) st = map_option (\<lambda>job. (Lost_unindex a x, st)) (deref_job st a)"
| "exec_pc (Lost_unindex a x) st = Some (Release_job a Rejected, unindex st (fd_key x))"
| "exec_pc (Collect now) st = Some (Expire (expired_buckets now (elems (table_localjobs st)) []), st)"
| "exec_pc (Expire ids) st = Some (case ids of [] \<Rightarrow> Idle | i # is \<Rightarrow> Find_job i (Timed_out is), st)"
| "exec_pc (Find_job i e) st =
     Some (case tablahash_find (table_localjobs st) (localjob_key i) of
             None \<Rightarrow> resume e | Some job \<Rightarrow> Teardown (lj_self job) e, st)"
| "exec_pc (Teardown a e) st =
     Option.bind (deref_job st a) (\<lambda>job.
       let x = lj_origin_socket job in
       Some (if 0 \<le>s x \<and> tablahash_find (table_ourjobs st) (fd_key x) \<noteq> None
             then Teardown_unindex a x e else Release_job a e, st))"
| "exec_pc (Teardown_unindex a x e) st = Some (Teardown_close a e, unindex st (fd_key x))"
| "exec_pc (Teardown_close a e) st =
     Option.bind (deref_job st a) (\<lambda>job.
       let x = lj_origin_socket job in Some (Release_job a e, sys_close (epoll_ctl_del st x) x))"
| "exec_pc (Release_job a e) st =
     Option.bind (deref_job st a) (\<lambda>job.
       map_option (Pair (if e = By_scheduler then Free_job a e else Tell a (lj_job_id job) e)) (release_resources st a))"
| "exec_pc (Tell a i e) st = Some (Free_job a e, C_to_erlang st (ending_text e) (id_str i))"
| "exec_pc (Free_job a e) st =
     Option.bind (deref_job st a) (\<lambda>job.
       Some (resume e, st\<lparr>table_localjobs := tablahash_remove_lock (table_localjobs st) job\<rparr>))"
| "exec_pc (Status_find s) st =
     Some (case tablahash_find (table_localjobs st) (localjob_key (atoi s)) of
             None \<Rightarrow> Report ''timeout'' s | Some job \<Rightarrow> Status_read (lj_self job) s, st)"
| "exec_pc (Status_read a s) st =
     map_option (\<lambda>job. (Report (if lj_next_req job = [] then ''granted'' else ''waiting'') s, st)) (deref_job st a)"
| "exec_pc (Report w s) st = Some (Idle, C_to_erlang st w s)"

section \<open>One worker alone\<close>

partial_function (option) run_client :: "client_pc \<Rightarrow> agent \<Rightarrow> agent option" where
  "run_client pc st =
     (if pc = Idle then Some st
      else case exec_pc pc st of None \<Rightarrow> None | Some (pc', st') \<Rightarrow> run_client pc' st')"

declare run_client.simps [code]

lemma run_client_Idle [simp]: "run_client Idle st = Some st"
  by (simp add: run_client.simps)

lemma run_client_step:
  "pc \<noteq> Idle \<Longrightarrow> run_client pc st = Option.bind (exec_pc pc st) (\<lambda>(pc', st'). run_client pc' st')"
  by (subst run_client.simps) (auto split: option.split)

lemma bind_run_Idle [simp]: "Option.bind x (run_client Idle) = x"
  by (cases x) simp_all

lemma run_ask: "run_client (Ask a) st = ask_for_next_resource st a"
proof (cases "deref_job st a")
  case (Some job)
  then show ?thesis
    by (simp add: run_client_step ask_for_next_resource_def ask_section_def unindex_def Let_def split: list.split)
qed (simp add: run_client_step ask_for_next_resource_def)

lemma run_granted:
  assumes ok: "ourjobs_ok (table_ourjobs st)"
  shows "run_client (Granted_find x i now) st = handle_granted st x i now"
  using ok
proof (cases rule: ourjobs.find_entry_cases [of "table_ourjobs st" "fd_key x"])
  case absent
  then show ?thesis by (simp add: run_client_step handle_granted_def)
next
  case (present p)
  have f: "move_head x now = (\<lambda>j. (case lj_next_req j of [] \<Rightarrow> j
      | req # rest \<Rightarrow> j\<lparr>lj_next_req := rest, lj_granted_reqs := req\<lparr>pr_provider_fd := x\<rparr> # lj_granted_reqs j\<rparr>)\<lparr>lj_timer := now\<rparr>)"
    by (simp add: fun_eq_iff move_head_def)
  show ?thesis
    using present
    by (cases "deref_job st (entry_job (fst p))") (simp_all add: run_client_step handle_granted_def run_ask unindex_def f)
qed

lemma run_send:
  assumes ok: "ourjobs_ok (table_ourjobs st)"
  shows "run_client (Send_find x) st = send_request st x"
  using ok
proof (cases rule: ourjobs.find_entry_cases [of "table_ourjobs st" "fd_key x"])
  case (present p)
  then show ?thesis
    by (auto simp: run_client_step send_request_def split: option.split list.split bind_split)
qed (simp add: run_client_step send_request_def)

text \<open>The tail that all endings share.\<close>

definition end_job :: "agent \<Rightarrow> address \<Rightarrow> ending \<Rightarrow> agent option" where
  "end_job st a e =
     Option.bind (deref_job st a) (\<lambda>job.
     Option.bind (release_resources st a) (\<lambda>st2.
       let st3 = (if e = By_scheduler then st2 else C_to_erlang st2 (ending_text e) (id_str (lj_job_id job))) in
       Some (st3\<lparr>table_localjobs := tablahash_remove_lock (table_localjobs st3) job\<rparr>)))"

lemma remove_same_id:
  assumes ok: "localjobs_ok t" and id: "lj_job_id j = lj_job_id k"
  shows "tablahash_remove_lock t j = tablahash_remove_lock t k"
proof -
  have "unlink comp_localjob xs j = unlink comp_localjob xs k" for xs
    using id by (induction xs) (simp_all add: comp_localjob_def)
  then show ?thesis
    using localjobs.ok_facts(3) [OF ok] localjobs.bucket_key [OF ok id]
    by (simp add: tablahash_remove_lock_def tablahash_remove_def)
qed

lemma run_release:
  assumes ok: "localjobs_ok (table_localjobs st)"
  shows "run_client (Release_job a e) st = Option.bind (end_job st a e) (run_client (resume e))"
proof (cases "deref_job st a")
  case None
  then show ?thesis by (simp add: run_client_step end_job_def)
next
  case (Some job)
  obtain s o' es gs where r: "release_resources st a =
      Some (write_job (st\<lparr>sent := s, open_fds := o', epoll_set := es\<rparr>) a (\<lambda>j. j\<lparr>lj_granted_reqs := gs\<rparr>))"
    by (rule release_resources_shape [OF Some])
  let ?st = "write_job (st\<lparr>sent := s, open_fds := o', epoll_set := es\<rparr>) a (\<lambda>j. j\<lparr>lj_granted_reqs := gs\<rparr>)"
  have "deref_job (st\<lparr>sent := s, open_fds := o', epoll_set := es\<rparr>) a = Some job" using Some by (simp add: deref_job_def)
  then have d: "deref_job ?st a = Some (job\<lparr>lj_granted_reqs := gs\<rparr>)" by (subst deref_write) simp_all
  have ok2: "localjobs_ok (table_localjobs ?st)" using ok by (intro write_job_ok) simp_all
  have free: "run_client (Free_job a e) st3 =
      run_client (resume e) (st3\<lparr>table_localjobs := tablahash_remove_lock (table_localjobs st3) job\<rparr>)"
    if "table_localjobs st3 = table_localjobs ?st" for st3
    using d deref_cong [OF that] remove_same_id [OF ok2, of "job\<lparr>lj_granted_reqs := gs\<rparr>" job] that
    by (simp add: run_client_step [of "Free_job a e"])
  show ?thesis
    using Some r free
    by (cases "e = By_scheduler")
      (simp_all add: run_client_step [of "Release_job a e'" for e'] run_client_step [of "Tell a i e" for i] end_job_def Let_def)
qed

lemma run_lost:
  assumes "localjobs_ok (table_localjobs st)" "ourjobs_ok (table_ourjobs st)"
  shows "run_client (Lost_find Denied x) st = handle_denied st x"
    "run_client (Lost_find Disconnected x) st = handle_outbound_disconnect st x"
proof -
  have r: "run_client (Release_job a Rejected) (unindex st k) = end_job (unindex st k) a Rejected" for a k
    using assms(1) run_release [of "unindex st k" a Rejected] by (simp add: unindex_def)
  have d: "deref_job (unindex st k) a = deref_job st a" for a k by (simp add: deref_job_def unindex_def)
  note steps = run_client_step [of "Lost_find l x" for l] run_client_step [of "Lost_read l p x" for l p]
    run_client_step [of "Lost_id a x" for a] run_client_step [of "Lost_unindex a x" for a] r
    handle_denied_def [folded unindex_def] handle_outbound_disconnect_def [folded unindex_def] end_job_def d Let_def
  from assms(2) show "run_client (Lost_find Denied x) st = handle_denied st x"
    "run_client (Lost_find Disconnected x) st = handle_outbound_disconnect st x"
    by (cases rule: ourjobs.find_entry_cases [of "table_ourjobs st" "fd_key x"]; simp add: steps split: option.split)+
qed

lemma run_teardown:
  assumes inv: "client_inv st" and job: "tablahash_find (table_localjobs st) (localjob_key i) = Some job"
  shows "run_client (Find_job i e) st = Option.bind (end_job (teardown_outbound st job) (lj_self job) e) (run_client (resume e))"
    "deref_job (teardown_outbound st job) (lj_self job) = Some job"
proof -
  have "job \<in> set (table_data (table_localjobs st))"
    using job table_map_SomeD by (fastforce simp: localjobs.find_map [OF client_invD(1) [OF inv]])
  then have d: "deref_job st (lj_self job) = Some job" by (rule deref_live [OF inv])
  have d': "deref_job st' (lj_self job) = Some job" if "table_localjobs st' = table_localjobs st" for st'
    using d deref_cong [OF that] by simp
  have t: "table_localjobs (teardown_outbound st job) = table_localjobs st"
    by (simp add: teardown_outbound_def sys_close_def epoll_ctl_del_def)
  have r: "run_client (Release_job a e) (teardown_outbound st job) =
      Option.bind (end_job (teardown_outbound st job) a e) (run_client (resume e))" for a
    using client_invD(1) [OF inv] t by (intro run_release) simp
  show "deref_job (teardown_outbound st job) (lj_self job) = Some job" by (rule d' [OF t])
  let ?x = "lj_origin_socket job"
  show "run_client (Find_job i e) st = Option.bind (end_job (teardown_outbound st job) (lj_self job) e) (run_client (resume e))"
  proof (cases "0 \<le>s ?x \<and> tablahash_find (table_ourjobs st) (fd_key ?x) \<noteq> None")
    case True
    then have "teardown_outbound st job = sys_close (epoll_ctl_del (unindex st (fd_key ?x)) ?x) ?x"
      by (simp add: teardown_outbound_def unindex_def)
    moreover have "deref_job (unindex st k) (lj_self job) = Some job" for k by (rule d') (simp add: unindex_def)
    ultimately show ?thesis
      using job d r True
      by (simp add: run_client_step [of "Find_job i e"] run_client_step [of "Teardown a e" for a]
          run_client_step [of "Teardown_unindex a x e" for a x] run_client_step [of "Teardown_close a e" for a] Let_def)
  next
    case False
    then have "teardown_outbound st job = st" unfolding teardown_outbound_def by auto
    then show ?thesis
      using job d r False by (auto simp: run_client_step [of "Find_job i e"] run_client_step [of "Teardown a e" for a] Let_def)
  qed
qed

lemma run_timeout:
  assumes "client_inv st"
  shows "run_client (Find_job i (Timed_out is)) st = Option.bind (timeout_job st i) (run_client (Expire is))"
proof (cases "tablahash_find (table_localjobs st) (localjob_key i)")
  case None
  then show ?thesis by (simp add: run_client_step [of "Find_job i (Timed_out is)"] timeout_job_def)
next
  case (Some job)
  then show ?thesis
    using run_teardown(1) [OF assms Some, of "Timed_out is"] run_teardown(2) [OF assms Some]
    by (simp add: timeout_job_def end_job_def Let_def)
qed

lemma run_expire: "client_inv st \<Longrightarrow> run_client (Expire ids) st = timeout_jobs st ids"
proof (induction ids arbitrary: st)
  case Nil
  then show ?case by (simp add: run_client_step)
next
  case (Cons i ids)
  obtain st' where "timeout_job st i = Some st'" "client_inv st'"
    by (rule client_stepE [OF timeout_job_step [OF Cons.prems, of "{}" i]])
  then show ?case using Cons.IH run_timeout [OF Cons.prems] by (simp add: run_client_step [of "Expire (i # ids)"])
qed

lemma run_collect: "client_inv st \<Longrightarrow> run_client (Collect now) st = check_ourjob_timeouts st now"
  by (simp add: run_client_step [of "Collect now"] run_expire check_ourjob_timeouts_def)

lemma run_status:
  assumes inv: "client_inv st" and n: "2 \<le> length tokens"
  shows "run_client (Status_find (tokens ! 1)) st = Some (job_status st tokens)"
proof (cases "tablahash_find (table_localjobs st) (localjob_key (atoi (tokens ! 1)))")
  case None
  then show ?thesis using n by (simp add: run_client_step job_status_def)
next
  case (Some job)
  have "deref_job st (lj_self job) = Some job" by (rule deref_live [OF inv]) (use find_job_live(1) [OF inv Some] in \<open>simp add: live_job_def\<close>)
  then show ?thesis using Some n by (simp add: run_client_step job_status_def)
qed

lemma run_job_release:
  assumes "client_inv st" "2 \<le> length tokens"
  shows "run_client (Find_job (atoi (tokens ! 1)) By_scheduler) st = job_release st tokens"
proof (cases "tablahash_find (table_localjobs st) (localjob_key (atoi (tokens ! 1)))")
  case None
  then show ?thesis using assms(2) by (simp add: run_client_step job_release_def)
next
  case (Some job)
  then show ?thesis
    using run_teardown(1) [OF assms(1) Some, of By_scheduler] run_teardown(2) [OF assms(1) Some] assms(2) by (simp add: job_release_def end_job_def)
qed

text \<open>The job that \<open>JOB_REQUEST\<close> builds before it takes the mutex of the table.\<close>

definition parsed_job :: "agent \<Rightarrow> string list \<Rightarrow> time_t \<Rightarrow> local_job_t" where
  "parsed_job st tokens now =
     \<lparr>lj_self = 0, lj_job_id = atoi (tokens ! 1), lj_erlang_socket = erlangfd st, lj_origin_socket = -1,
      lj_next_req = parse_dests st (drop 2 tokens), lj_granted_reqs = [], lj_timer = now\<rparr>"

lemma run_job_request:
  "3 \<le> length tokens \<Longrightarrow> run_client (Insert_job (parsed_job st tokens now)) st = job_request st tokens now"
  by (simp add: run_client_step [of "Insert_job j" for j] run_ask job_request_def parsed_job_def Let_def)

section \<open>Jobs in hand\<close>

text \<open>The job a worker still has a pointer to, and the job that its lookup would give it.\<close>

fun hand :: "client_pc \<Rightarrow> address option" where
  "hand (Granted_read p x i now) = Some (entry_job (fst p))"
| "hand (Send_read p x) = Some (entry_job (fst p))"
| "hand (Lost_read l p x) = Some (entry_job (fst p))"
| "hand (Lost_id a x) = Some a"
| "hand (Status_read a s) = Some a"
| "hand (Granted_move a x i now) = Some a"
| "hand (Granted_unindex a x) = Some a"
| "hand (Granted_unwatch a x) = Some a"
| "hand (Ask a) = Some a"
| "hand (Ask_index a ob) = Some a"
| "hand (Send_line a x) = Some a"
| "hand (Lost_unindex a x) = Some a"
| "hand (Teardown a e) = Some a"
| "hand (Teardown_unindex a x e) = Some a"
| "hand (Teardown_close a e) = Some a"
| "hand (Release_job a e) = Some a"
| "hand (Tell a i e) = Some a"
| "hand (Free_job a e) = Some a"
| "hand _ = None"

fun lookup :: "client_pc \<Rightarrow> agent \<Rightarrow> address option" where
  "lookup (Granted_find x i now) st = map_option entry_job (tablahash_find (table_ourjobs st) (fd_key x))"
| "lookup (Send_find x) st = map_option entry_job (tablahash_find (table_ourjobs st) (fd_key x))"
| "lookup (Lost_find l x) st = map_option entry_job (tablahash_find (table_ourjobs st) (fd_key x))"
| "lookup (Find_job i e) st = map_option lj_self (tablahash_find (table_localjobs st) (localjob_key i))"
| "lookup (Status_find s) st = map_option lj_self (tablahash_find (table_localjobs st) (localjob_key (atoi s)))"
| "lookup _ st = None"

text \<open>The descriptor whose entry of the index a worker is about to read, and the one whose entry a section removes or replaces.\<close>

fun reading :: "client_pc \<Rightarrow> fd option" where
  "reading (Granted_read p x i now) = Some (entry_fd (fst p))"
| "reading (Send_read p x) = Some (entry_fd (fst p))"
| "reading (Lost_read l p x) = Some (entry_fd (fst p))"
| "reading _ = None"

fun touches :: "client_pc \<Rightarrow> fd option" where
  "touches (Granted_unindex a x) = Some x"
| "touches (Lost_unindex a x) = Some x"
| "touches (Teardown_unindex a x e) = Some x"
| "touches (Ask_index a ob) = Some (ob_fd ob)"
| "touches (Ask_undo a ob) = Some (ob_fd ob)"
| "touches _ = None"

definition waits_on :: "agent \<Rightarrow> address \<Rightarrow> fd \<Rightarrow> bool" where
  "waits_on st a x \<longleftrightarrow> (\<exists>j. live_job st j \<and> lj_self j = a \<and> lj_origin_socket j = x)"

text \<open>The tables between two sections: each pointer of the index leads to a job that waits on that descriptor.\<close>

definition tables_inv :: "agent \<Rightarrow> bool" where
  "tables_inv st \<longleftrightarrow>
     localjobs_ok (table_localjobs st) \<and> ourjobs_ok (table_ourjobs st) \<and>
     distinct (map lj_self (table_data (table_localjobs st))) \<and>
     (\<forall>j. live_job st j \<longrightarrow> lj_self j < fresh_job st) \<and>
     (\<forall>e \<in> set (table_data (table_ourjobs st)). 0 \<le>s entry_fd e \<and> waits_on st (entry_job e) (entry_fd e))"

definition good_ptr :: "agent \<Rightarrow> fd_job_entry \<times> nat \<Rightarrow> fd \<Rightarrow> bool" where
  "good_ptr st p x \<longleftrightarrow>
     read_entry (table_ourjobs st) p = Some (fst p) \<and> entry_fd (fst p) = x \<and> waits_on st (entry_job (fst p)) x"

fun pc_ok :: "agent \<Rightarrow> client_pc \<Rightarrow> bool" where
  "pc_ok st (Granted_read p x i now) \<longleftrightarrow> good_ptr st p x"
| "pc_ok st (Send_read p x) \<longleftrightarrow> good_ptr st p x"
| "pc_ok st (Lost_read l p x) \<longleftrightarrow> good_ptr st p x"
| "pc_ok st (Lost_id a x) \<longleftrightarrow> waits_on st a x"
| "pc_ok st (Status_read a s) \<longleftrightarrow> (\<exists>y. waits_on st a y)"
| "pc_ok st (Granted_move a x i now) \<longleftrightarrow> waits_on st a x"
| "pc_ok st (Granted_unindex a x) \<longleftrightarrow> waits_on st a x"
| "pc_ok st (Lost_unindex a x) \<longleftrightarrow> waits_on st a x"
| "pc_ok st (Teardown_unindex a x e) \<longleftrightarrow> waits_on st a x"
| "pc_ok st (Send_line a x) \<longleftrightarrow> (\<exists>y. waits_on st a y)"
| "pc_ok st (Teardown a e) \<longleftrightarrow> (\<exists>y. waits_on st a y)"
| "pc_ok st (Ask_index a ob) \<longleftrightarrow> waits_on st a (ob_fd ob) \<and> unindexed st a \<and> 0 \<le>s ob_fd ob"
| "pc_ok st pc \<longleftrightarrow> (\<forall>a. hand pc = Some a \<longrightarrow> (\<exists>y. waits_on st a y) \<and> unindexed st a)"

lemma tables_invD:
  assumes "tables_inv st"
  shows "localjobs_ok (table_localjobs st)" "ourjobs_ok (table_ourjobs st)"
    "distinct (map lj_self (table_data (table_localjobs st)))" "live_job st j \<Longrightarrow> lj_self j < fresh_job st"
    "e \<in> set (table_data (table_ourjobs st)) \<Longrightarrow> 0 \<le>s entry_fd e \<and> waits_on st (entry_job e) (entry_fd e)"
  using assms by (simp_all add: tables_inv_def)

lemma client_tables_inv: "client_inv st \<Longrightarrow> tables_inv st"
  by (fastforce simp: client_inv_def tables_inv_def index_sound_def waits_on_def live_job_def)

lemma tables_cong:
  assumes "table_localjobs st' = table_localjobs st" "table_ourjobs st' = table_ourjobs st"
  shows "waits_on st' = waits_on st" "unindexed st' = unindexed st" "good_ptr st' = good_ptr st"
    "fresh_job st' = fresh_job st \<Longrightarrow> tables_inv st' = tables_inv st"
  using assms by (auto simp: waits_on_def live_job_def unindexed_def tables_inv_def good_ptr_def fun_eq_iff)

lemma pc_ok_cong:
  assumes "table_localjobs st' = table_localjobs st" "table_ourjobs st' = table_ourjobs st"
  shows "pc_ok st' pc = pc_ok st pc"
  using tables_cong(1-3) [OF assms] by (cases pc) auto

lemma waits_deref:
  assumes "tables_inv st" "waits_on st a x"
  obtains j where "deref_job st a = Some j" "live_job st j" "lj_self j = a" "lj_origin_socket j = x"
proof -
  obtain j where j: "live_job st j" "lj_self j = a" "lj_origin_socket j = x" using assms(2) by (auto simp: waits_on_def)
  have "deref_job st (lj_self j) = Some j"
    unfolding deref_job_def using tables_invD(3) [OF assms(1)] j(1) by (intro find_unique) (simp_all add: live_job_def)
  then show ?thesis using that j by simp
qed

lemma waits_unique: "tables_inv st \<Longrightarrow> waits_on st a x \<Longrightarrow> waits_on st a y \<Longrightarrow> x = y"
  by (metis waits_deref option.inject)

lemma find_index:
  assumes "tables_inv st" "find_entry (table_ourjobs st) (fd_key x) = Some p"
  shows "good_ptr st p x" "tablahash_find (table_ourjobs st) (fd_key x) = Some (fst p)"
proof -
  note ok = tables_invD(2) [OF assms(1)]
  show f: "tablahash_find (table_ourjobs st) (fd_key x) = Some (fst p)" using assms(2) by (auto simp: find_entry_def)
  have "fst p \<in> set (table_data (table_ourjobs st))" "entry_fd (fst p) = x"
    using ourjobs.found_key [OF ok f] by simp_all
  then show "good_ptr st p x"
    using ourjobs.find_entry_good(1) [OF ok assms(2)] tables_invD(5) [OF assms(1), of "fst p"] by (auto simp: good_ptr_def)
qed

text \<open>Removing an entry of the index.\<close>

lemma unindex_keeps:
  assumes inv: "tables_inv st"
  shows "tables_inv (unindex st k)" "waits_on (unindex st k) = waits_on st" "unindexed st a \<Longrightarrow> unindexed (unindex st k) a"
    "waits_on st a x \<Longrightarrow> unindexed (unindex st (fd_key x)) a"
    "entry_fd (fst p) \<noteq> entry_fd k \<Longrightarrow> read_entry (table_ourjobs (unindex st k)) p = read_entry (table_ourjobs st) p"
proof -
  show "entry_fd (fst p) \<noteq> entry_fd k \<Longrightarrow> read_entry (table_ourjobs (unindex st k)) p = read_entry (table_ourjobs st) p"
    using ourjobs.remove_other [OF tables_invD(2) [OF inv], of p k] by (simp add: unindex_def tablahash_remove_lock_def)
  have set: "set (table_data (table_ourjobs (unindex st k))) = {e \<in> set (table_data (table_ourjobs st)). entry_fd e \<noteq> entry_fd k}" for k
    using ourjobs.remove_set [OF tables_invD(2) [OF inv], of k] by (simp add: unindex_def tablahash_remove_lock_def)
  have same: "waits_on (unindex st k) = waits_on st" "live_job (unindex st k) = live_job st" for k
    by (simp_all add: waits_on_def live_job_def unindex_def fun_eq_iff)
  show "waits_on (unindex st k) = waits_on st" by (rule same)
  have "ourjobs_ok (table_ourjobs (unindex st k))"
    using ourjobs.remove_ok [OF tables_invD(2) [OF inv], of k] by (simp add: unindex_def tablahash_remove_lock_def)
  then show "tables_inv (unindex st k)"
    using inv unfolding tables_inv_def same set by (simp add: unindex_def)
  show "unindexed st a \<Longrightarrow> unindexed (unindex st k) a" unfolding unindexed_def set by simp
  show "unindexed (unindex st (fd_key x)) a" if "waits_on st a x"
    unfolding unindexed_def set
    using tables_invD(5) [OF inv] waits_unique [OF inv that] by (auto simp: fd_key_def)
qed

text \<open>Writing a job.\<close>

lemma write_waits:
  assumes f: "\<And>j. lj_self (f j) = lj_self j" "(\<forall>j. lj_origin_socket (f j) = lj_origin_socket j) \<or> a \<noteq> b"
  shows "waits_on (write_job st a f) b x = waits_on st b x"
proof -
  let ?g = "\<lambda>j. if lj_self j = a then f j else j" and ?A = "set (table_data (table_localjobs st))"
  have g: "lj_self (?g j) = lj_self j" "lj_self j = b \<Longrightarrow> lj_origin_socket (?g j) = lj_origin_socket j" for j
    using f by auto
  have "waits_on (write_job st a f) b x \<longleftrightarrow> (\<exists>j \<in> ?A. lj_self (?g j) = b \<and> lj_origin_socket (?g j) = x)"
    unfolding waits_on_def live_job_def write_job_data set_map by blast
  also have "\<dots> \<longleftrightarrow> (\<exists>j \<in> ?A. lj_self j = b \<and> lj_origin_socket j = x)" using g by metis
  finally show ?thesis by (auto simp: waits_on_def live_job_def)
qed

lemma write_keeps:
  assumes inv: "tables_inv st" and f: "\<And>j. lj_self (f j) = lj_self j" "\<And>j. lj_job_id (f j) = lj_job_id j"
    and origin: "(\<forall>j. lj_origin_socket (f j) = lj_origin_socket j) \<or> unindexed st a"
  shows "tables_inv (write_job st a f)" "unindexed (write_job st a f) = unindexed st"
proof -
  let ?st = "write_job st a f"
  show "unindexed ?st = unindexed st" by (simp add: unindexed_def fun_eq_iff)
  have selfs: "map lj_self (table_data (table_localjobs ?st)) = map lj_self (table_data (table_localjobs st))"
    using f(1) by (rule write_job_selfs)
  have "\<forall>j. live_job ?st j \<longrightarrow> lj_self j < fresh_job ?st"
    using f(1) tables_invD(4) [OF inv] by (auto simp: live_job_def)
  moreover have "waits_on ?st (entry_job e) (entry_fd e)" if "e \<in> set (table_data (table_ourjobs st))" for e
    using tables_invD(5) [OF inv that] write_waits [of f a "entry_job e" st "entry_fd e"] f(1) origin that
    by (auto simp: unindexed_def)
  ultimately show "tables_inv ?st"
    using inv write_job_ok [OF tables_invD(1) [OF inv] f(2)] tables_invD(3) [OF inv]
    unfolding tables_inv_def selfs by simp
qed

text \<open>Adding an entry, adding a job, freeing a job.\<close>

lemma index_keeps:
  assumes inv: "tables_inv st" and a: "waits_on st a x" "0 \<le>s x"
    and st': "st' = st\<lparr>table_ourjobs := tablahash_insert (table_ourjobs st) \<lparr>entry_fd = x, entry_job = a\<rparr>\<rparr>"
  shows "tables_inv st'" "waits_on st' = waits_on st" "b \<noteq> a \<Longrightarrow> unindexed st b \<Longrightarrow> unindexed st' b"
    "entry_fd (fst p) \<noteq> x \<Longrightarrow> read_entry (table_ourjobs st') p = read_entry (table_ourjobs st) p"
proof -
  show "entry_fd (fst p) \<noteq> x \<Longrightarrow> read_entry (table_ourjobs st') p = read_entry (table_ourjobs st) p"
    using ourjobs.insert_other [OF tables_invD(2) [OF inv], of p "\<lparr>entry_fd = x, entry_job = a\<rparr>"] by (simp add: st')
  let ?e = "\<lparr>entry_fd = x, entry_job = a\<rparr>"
  have set: "set (table_data (table_ourjobs st')) = insert ?e {e \<in> set (table_data (table_ourjobs st)). entry_fd e \<noteq> x}"
    using ourjobs.insert_set [OF tables_invD(2) [OF inv], of ?e] st' by (simp add: copy_fd_def)
  show same: "waits_on st' = waits_on st" by (simp add: st' waits_on_def live_job_def fun_eq_iff)
  have jobs: "live_job st' = live_job st" by (simp add: st' live_job_def fun_eq_iff)
  have "ourjobs_ok (table_ourjobs st')" using ourjobs.insert_ok [OF tables_invD(2) [OF inv], of ?e] st' by simp
  then show "tables_inv st'"
    using inv a unfolding tables_inv_def same jobs set by (simp add: st')
  show "b \<noteq> a \<Longrightarrow> unindexed st b \<Longrightarrow> unindexed st' b" unfolding unindexed_def set by auto
qed

lemma insert_keeps:
  assumes inv: "tables_inv st" and fresh: "\<And>j. live_job st j \<Longrightarrow> lj_job_id j \<noteq> lj_job_id job"
    and st': "st' = st\<lparr>table_localjobs := tablahash_insert (table_localjobs st) (job\<lparr>lj_self := fresh_job st\<rparr>), fresh_job := Suc (fresh_job st)\<rparr>"
  shows "tables_inv st'" "waits_on st a x \<Longrightarrow> waits_on st' a x" "waits_on st' (fresh_job st) (lj_origin_socket job)"
    "unindexed st' = unindexed st" "unindexed st (fresh_job st)"
proof -
  let ?job = "job\<lparr>lj_self := fresh_job st\<rparr>" and ?t = "table_localjobs st"
  note ok = tables_invD(1) [OF inv]
  have none: "table_map lj_job_id ?t (lj_job_id ?job) = None"
    using fresh by (auto simp: table_map_def find_None_iff live_job_def)
  have m: "mset (table_data (tablahash_insert ?t ?job)) = mset (?job # table_data ?t)"
    using localjobs.insert_mset_add [OF ok, of ?job] none by (simp add: copy_localjob_def)
  have live: "live_job st' j \<longleftrightarrow> j = ?job \<or> live_job st j" for j
    using set_mset_cong [OF m] by (auto simp: st' live_job_def)
  show un: "unindexed st' = unindexed st" by (simp add: st' unindexed_def fun_eq_iff)
  show w: "waits_on st a x \<Longrightarrow> waits_on st' a x" for a x by (auto simp: waits_on_def live)
  show "waits_on st' (fresh_job st) (lj_origin_socket job)" by (auto simp: waits_on_def live)
  have "distinct (map lj_self (?job # table_data ?t))"
    using tables_invD(3,4) [OF inv] by (fastforce simp: live_job_def)
  then have "distinct (map lj_self (table_data (tablahash_insert ?t ?job)))"
    using distinct_map_mset_cong [OF m, of lj_self] by blast
  moreover have "lj_self j < fresh_job st'" if "live_job st' j" for j
    using that tables_invD(4) [OF inv, of j] by (auto simp: live) (auto simp: st')
  moreover have "\<forall>e \<in> set (table_data (table_ourjobs st')). 0 \<le>s entry_fd e \<and> waits_on st' (entry_job e) (entry_fd e)"
    using tables_invD(5) [OF inv] w by (auto simp: st')
  ultimately show "tables_inv st'"
    using localjobs.insert_ok [OF ok, of ?job] tables_invD(2) [OF inv] unfolding tables_inv_def by (simp add: st')
  show "unindexed st (fresh_job st)"
    using tables_invD(4,5) [OF inv] by (fastforce simp: unindexed_def waits_on_def)
qed

lemma free_keeps:
  assumes inv: "tables_inv st" and a: "deref_job st a = Some job" "unindexed st a"
    and st': "st' = st\<lparr>table_localjobs := tablahash_remove_lock (table_localjobs st) job\<rparr>"
  shows "tables_inv st'" "b \<noteq> a \<Longrightarrow> waits_on st b x \<Longrightarrow> waits_on st' b x" "unindexed st' = unindexed st"
proof -
  let ?t = "table_localjobs st"
  note ok = tables_invD(1) [OF inv]
  have job: "live_job st job" "lj_self job = a" using deref_jobD [OF a(1)] by (simp_all add: live_job_def)
  have ids: "inj_on lj_job_id (set (table_data ?t))" using localjobs.ok_facts(7) [OF ok] by (simp add: distinct_map)
  have selfs: "inj_on lj_self (set (table_data ?t))" using tables_invD(3) [OF inv] by (simp add: distinct_map)
  have live: "live_job st' j \<longleftrightarrow> live_job st j \<and> lj_self j \<noteq> a" for j
    using localjobs.remove_set [OF ok, of job] job ids selfs
    by (auto simp: st' live_job_def tablahash_remove_lock_def dest: inj_onD)
  show "unindexed st' = unindexed st" by (simp add: st' unindexed_def fun_eq_iff)
  show w: "b \<noteq> a \<Longrightarrow> waits_on st b x \<Longrightarrow> waits_on st' b x" for b x by (auto simp: waits_on_def live)
  have "distinct (map lj_self (table_data (tablahash_remove ?t job)))"
    using ok
  proof (cases rule: localjobs.remove_mset [of ?t job])
    case absent
    then show ?thesis using tables_invD(3) [OF inv] by simp
  next
    case (present e)
    then show ?thesis using tables_invD(3) [OF inv] distinct_map_mset_cong [OF present(2), of lj_self] by simp
  qed
  moreover have "\<forall>e \<in> set (table_data (table_ourjobs st')). 0 \<le>s entry_fd e \<and> waits_on st' (entry_job e) (entry_fd e)"
    using tables_invD(5) [OF inv] w a(2) by (auto simp: st' unindexed_def)
  moreover have "\<forall>j. live_job st' j \<longrightarrow> lj_self j < fresh_job st'"
    using live tables_invD(4) [OF inv] by (simp add: st')
  ultimately show "tables_inv st'"
    using localjobs.remove_ok [OF ok, of job] tables_invD(2) [OF inv]
    unfolding tables_inv_def by (simp add: st' tablahash_remove_lock_def)
qed

section \<open>The workers\<close>

text \<open>Where a handler starts: an event on a descriptor, a command of the scheduler, the timeout timer.\<close>

fun entry_point :: "client_pc \<Rightarrow> bool" where
  "entry_point (Granted_find x i now) = True"
| "entry_point (Send_find x) = True"
| "entry_point (Lost_find l x) = True"
| "entry_point (Collect now) = True"
| "entry_point (Find_job i e) \<longleftrightarrow> e = By_scheduler"
| "entry_point (Insert_job job) = True"
| "entry_point (Status_find s) = True"
| "entry_point _ = False"

text \<open>
  Two workers clash when a lookup gives one of them a job that a worker has in hand, or when a
  section removes or replaces the entry of a descriptor that another worker is about to read; so
  does a \<open>JOB_REQUEST\<close> for an id that is live. Nothing in the code prevents it.
\<close>

definition clash :: "client_pc list \<Rightarrow> nat \<Rightarrow> agent \<Rightarrow> bool" where
  "clash pcs w st \<longleftrightarrow>
     (\<exists>v < length pcs. \<exists>a. lookup (pcs ! w) st = Some a \<and> hand (pcs ! v) = Some a) \<or>
     (\<exists>v < length pcs. v \<noteq> w \<and> (\<exists>x. touches (pcs ! w) = Some x \<and> reading (pcs ! v) = Some x)) \<or>
     (\<exists>job j. pcs ! w = Insert_job job \<and> live_job st j \<and> lj_job_id j = lj_job_id job)"

text \<open>
  Any interleaving, with a record of whether two workers have clashed so far; in between anything
  may happen to the rest of the state: the server side, the descriptors, what the kernel answers.
\<close>

inductive client_workers :: "agent \<Rightarrow> client_pc list \<Rightarrow> agent \<Rightarrow> bool \<Rightarrow> bool"
  for st0 :: agent where
  start: "client_workers st0 (replicate NUM_WORKERS Idle) st0 False"
| handler: "client_workers st0 pcs st c \<Longrightarrow> w < length pcs \<Longrightarrow> pcs ! w = Idle \<Longrightarrow> entry_point pc \<Longrightarrow>
    client_workers st0 (pcs[w := pc]) st c"
| runs: "client_workers st0 pcs st c \<Longrightarrow> w < length pcs \<Longrightarrow> exec_pc (pcs ! w) st = Some (pc, st') \<Longrightarrow>
    client_workers st0 (pcs[w := pc]) st' (c \<or> clash pcs w st)"
| other: "client_workers st0 pcs st c \<Longrightarrow> table_localjobs st' = table_localjobs st \<Longrightarrow>
    table_ourjobs st' = table_ourjobs st \<Longrightarrow> fresh_job st' = fresh_job st \<Longrightarrow> client_workers st0 pcs st' c"

definition hands_inv :: "client_pc list \<Rightarrow> agent \<Rightarrow> bool" where
  "hands_inv pcs st \<longleftrightarrow>
     tables_inv st \<and> (\<forall>v < length pcs. pc_ok st (pcs ! v)) \<and>
     (\<forall>v w a. v < length pcs \<longrightarrow> w < length pcs \<longrightarrow> v \<noteq> w \<longrightarrow> hand (pcs ! v) = Some a \<longrightarrow> hand (pcs ! w) \<noteq> Some a)"

text \<open>What a section of a worker leaves to the others.\<close>

definition keeps_others :: "client_pc \<Rightarrow> agent \<Rightarrow> agent \<Rightarrow> bool" where
  "keeps_others pc st st' \<longleftrightarrow>
     (\<forall>a. hand pc \<noteq> Some a \<longrightarrow> (\<forall>x. waits_on st a x \<longrightarrow> waits_on st' a x) \<and> (unindexed st a \<longrightarrow> unindexed st' a)) \<and>
     (\<forall>p. touches pc \<noteq> Some (entry_fd (fst p)) \<longrightarrow> read_entry (table_ourjobs st') p = read_entry (table_ourjobs st) p)"

lemma pc_ok_hand: "pc_ok st pc \<Longrightarrow> hand pc = Some a \<Longrightarrow> \<exists>y. waits_on st a y"
  by (cases pc) (auto simp: good_ptr_def)

lemma pc_ok_others:
  assumes "pc_ok st pc'" "keeps_others pc st st'" "\<And>a. hand pc' = Some a \<Longrightarrow> hand pc \<noteq> Some a"
    "\<And>x. reading pc' = Some x \<Longrightarrow> touches pc \<noteq> Some x"
  shows "pc_ok st' pc'"
proof -
  have k: "waits_on st a x \<Longrightarrow> waits_on st' a x" "unindexed st a \<Longrightarrow> unindexed st' a" if "hand pc' = Some a" for a x
    using assms(2) assms(3) [OF that] by (simp_all add: keeps_others_def)
  have p: "good_ptr st p x \<Longrightarrow> good_ptr st' p x" if "reading pc' = Some (entry_fd (fst p))" "hand pc' = Some (entry_job (fst p))" for p x
  proof -
    have "read_entry (table_ourjobs st') p = read_entry (table_ourjobs st) p"
      using assms(2) assms(4) [OF that(1)] unfolding keeps_others_def by blast
    then show "good_ptr st p x \<Longrightarrow> good_ptr st' p x" using k(1) [OF that(2)] by (simp add: good_ptr_def)
  qed
  show ?thesis
  proof (cases "reading pc'")
    case None
    then show ?thesis using assms(1) k by (cases pc') (simp_all, blast+)
  next
    case (Some x)
    then show ?thesis using assms(1) p by (cases pc') simp_all
  qed
qed

text \<open>The outcome of a section: it returns, and its worker may hold what it held, looked up or created.\<close>

definition section_ok :: "client_pc \<Rightarrow> agent \<Rightarrow> (client_pc \<times> agent) option \<Rightarrow> bool" where
  "section_ok pc st r \<longleftrightarrow>
     (\<exists>pc' st'. r = Some (pc', st') \<and> tables_inv st' \<and> pc_ok st' pc' \<and> keeps_others pc st st' \<and>
        (\<forall>a. hand pc' = Some a \<longrightarrow> hand pc = Some a \<or> lookup pc st = Some a \<or> a = fresh_job st))"

lemma section_okI:
  assumes "r = Some (pc', st')" "tables_inv st'" "pc_ok st' pc'"
    "\<And>a x. hand pc \<noteq> Some a \<Longrightarrow> waits_on st a x \<Longrightarrow> waits_on st' a x"
    "\<And>a. hand pc \<noteq> Some a \<Longrightarrow> unindexed st a \<Longrightarrow> unindexed st' a"
    "\<And>p. touches pc \<noteq> Some (entry_fd (fst p)) \<Longrightarrow> read_entry (table_ourjobs st') p = read_entry (table_ourjobs st) p"
    "\<And>a. hand pc' = Some a \<Longrightarrow> hand pc = Some a \<or> lookup pc st = Some a \<or> a = fresh_job st"
  shows "section_ok pc st r"
  using assms by (auto simp: section_ok_def keeps_others_def)

text \<open>Sections that only touch descriptors and messages.\<close>

lemma section_quiet:
  assumes inv: "tables_inv st" and r: "r = Some (pc', st')"
    and same: "table_localjobs st' = table_localjobs st" "table_ourjobs st' = table_ourjobs st" "fresh_job st' = fresh_job st"
    and pc': "pc_ok st pc'" "\<And>a. hand pc' = Some a \<Longrightarrow> hand pc = Some a \<or> lookup pc st = Some a"
  shows "section_ok pc st r"
proof -
  note c = tables_cong [OF same(1,2)]
  have "pc_ok st' pc'" using pc'(1) pc_ok_cong [OF same(1,2)] by blast
  then show ?thesis using inv c same pc'(2) by (intro section_okI [OF r]) auto
qed

text \<open>Either the job now waits on a new descriptor, or nothing of the tables has changed.\<close>

lemma ask_section_cases:
  obtains (connected) ob st1 where "ask_section a job st = (Ask_index a ob, write_job st1 a (\<lambda>j. j\<lparr>lj_origin_socket := ob_fd ob\<rparr>))"
      "0 \<le>s ob_fd ob" "table_localjobs st1 = table_localjobs st" "table_ourjobs st1 = table_ourjobs st" "fresh_job st1 = fresh_job st"
  | (idle) st1 where "ask_section a job st = (Idle, st1)" "table_localjobs st1 = table_localjobs st"
      "table_ourjobs st1 = table_ourjobs st" "fresh_job st1 = fresh_job st"
proof (cases "lj_next_req job")
  case Nil
  then show ?thesis
    by (intro idle [of "C_to_erlang st ''granted'' (id_str (lj_job_id job))"]) (simp_all add: ask_section_def)
next
  case (Cons req rest)
  show ?thesis
  proof (cases "os_outbound st")
    case Nil
    then show ?thesis using Cons by (intro idle [of st]) (simp_all add: ask_section_def)
  next
    case (Cons ob obs)
    let ?st1 = "st\<lparr>os_outbound := obs, open_fds := insert (ob_fd ob) (open_fds st),
      os_peername := (os_peername st)(ob_fd ob \<mapsto> dest_addr (st\<lparr>os_outbound := obs\<rparr>) req),
      connects := connects st @ [(ob_fd ob, pr_dest_ip req, pr_dest_port req)]\<rparr>"
    note s = Cons \<open>lj_next_req job = req # rest\<close>
    consider "ob_fd ob <s 0" | "\<not> ob_fd ob <s 0" "\<not> ob_connect_ok ob" | "\<not> ob_fd ob <s 0" "ob_connect_ok ob" by blast
    then show ?thesis
    proof cases
      case 1
      then show ?thesis using s by (intro idle [of "st\<lparr>os_outbound := obs\<rparr>"]) (simp_all add: ask_section_def Let_def)
    next
      case 2
      then show ?thesis using s by (intro idle [of "sys_close ?st1 (ob_fd ob)"]) (simp_all add: ask_section_def Let_def sys_close_def)
    next
      case 3
      have "0 \<le>s ob_fd ob" using 3(1) by (simp add: word_sle_eq word_sless_alt)
      then show ?thesis using s 3 by (intro connected [of ob ?st1]) (simp_all add: ask_section_def Let_def)
    qed
  qed
qed

lemma ask_section_ok:
  assumes inv: "tables_inv st" and pc: "pc_ok st (Ask a)"
  shows "section_ok (Ask a) st (exec_pc (Ask a) st)"
proof -
  obtain y where y: "waits_on st a y" and un: "unindexed st a" using pc by auto
  obtain job where d: "deref_job st a = Some job" by (rule waits_deref [OF inv y])
  show ?thesis
  proof (cases rule: ask_section_cases [of a job st])
    case (connected ob st1)
    let ?f = "\<lambda>j. j\<lparr>lj_origin_socket := ob_fd ob\<rparr>"
    let ?st = "write_job st1 a ?f"
    note c = tables_cong [OF connected(3,4)]
    have inv1: "tables_inv st1" "unindexed st1 a" using inv un c(2) c(4) [OF connected(5)] by simp_all
    have w: "waits_on ?st b x = waits_on st b x" if "b \<noteq> a" for b x
      using write_waits [of ?f a b st1 x] that c(1) by simp
    have "waits_on ?st a (ob_fd ob)"
      using y connected(3) by (auto simp: waits_on_def live_job_def)
    moreover have "tables_inv ?st" "unindexed ?st = unindexed st" using write_keeps [OF inv1(1), of ?f a] inv1(2) c(2) by simp_all
    ultimately show ?thesis
      using d connected(1,2,4) w un by (intro section_okI [of _ "Ask_index a ob" ?st]) auto
  next
    case (idle st1)
    then show ?thesis using d by (intro section_quiet [OF inv, of _ Idle st1]) auto
  qed
qed

lemma granted_move_ok:
  assumes inv: "tables_inv st" and pc: "pc_ok st (Granted_move a x i now)"
  shows "section_ok (Granted_move a x i now) st (exec_pc (Granted_move a x i now) st)"
proof -
  have x: "waits_on st a x" using pc by simp
  obtain job where d: "deref_job st a = Some job" by (rule waits_deref [OF inv x])
  show ?thesis
  proof (cases "lj_job_id job = i")
    case True
    have f: "lj_self (move_head x now j) = lj_self j" "lj_job_id (move_head x now j) = lj_job_id j"
      "lj_origin_socket (move_head x now j) = lj_origin_socket j" for j by (simp_all add: move_head_def split: list.split)
    show ?thesis
      using True d x f write_keeps [OF inv, of "move_head x now" a] write_waits [of "move_head x now" a _ st]
      by (intro section_okI [of _ "Granted_unindex a x" "write_job st a (move_head x now)"]) auto
  next
    case False
    then show ?thesis using d by (intro section_quiet [OF inv, of _ Idle st]) auto
  qed
qed

lemma send_line_ok:
  assumes inv: "tables_inv st" and pc: "pc_ok st (Send_line a x)"
  shows "section_ok (Send_line a x) st (exec_pc (Send_line a x) st)"
proof -
  obtain y where y: "waits_on st a y" using pc by auto
  obtain job where d: "deref_job st a = Some job" by (rule waits_deref [OF inv y])
  let ?st = "case lj_next_req job of [] \<Rightarrow> st
    | req # _ \<Rightarrow> epoll_ctl_mod (sys_send st x (reserve_text job req)) x reg_in_et_oneshot"
  show ?thesis
    using d
    by (intro section_quiet [OF inv, of _ Idle ?st]) (auto simp: epoll_ctl_mod_def epoll_ctl_add_def split: list.split)
qed

lemma teardown_ok:
  assumes inv: "tables_inv st" and pc: "pc_ok st (Teardown a e)"
  shows "section_ok (Teardown a e) st (exec_pc (Teardown a e) st)"
proof -
  obtain y where y: "waits_on st a y" using pc by auto
  obtain job where d: "deref_job st a = Some job" "live_job st job" "lj_self job = a" "lj_origin_socket job = y"
    by (rule waits_deref [OF inv y])
  have "unindexed st a" if "\<not> (0 \<le>s y \<and> tablahash_find (table_ourjobs st) (fd_key y) \<noteq> None)"
    unfolding unindexed_def
  proof (intro ballI notI)
    fix en
    assume en: "en \<in> set (table_data (table_ourjobs st))" "entry_job en = a"
    then have "0 \<le>s entry_fd en" "entry_fd en = y" using tables_invD(5) [OF inv en(1)] waits_unique [OF inv y] by auto
    moreover have "tablahash_find (table_ourjobs st) (fd_key y) \<noteq> None"
      using en(1) \<open>entry_fd en = y\<close> table_map_NoneD [of entry_fd "table_ourjobs st" y en]
      by (auto simp: ourjobs.find_map [OF tables_invD(2) [OF inv]])
    ultimately show False using that by simp
  qed
  then show ?thesis
    using d y
    by (intro section_quiet [OF inv, of _ "if 0 \<le>s y \<and> tablahash_find (table_ourjobs st) (fd_key y) \<noteq> None
          then Teardown_unindex a y e else Release_job a e" st]) (auto simp: Let_def split: if_splits)
qed

lemma teardown_close_ok:
  assumes inv: "tables_inv st" and pc: "pc_ok st (Teardown_close a e)"
  shows "section_ok (Teardown_close a e) st (exec_pc (Teardown_close a e) st)"
proof -
  obtain y where y: "waits_on st a y" "unindexed st a" using pc by auto
  obtain job where d: "deref_job st a = Some job" by (rule waits_deref [OF inv y(1)])
  show ?thesis
    using d y
    by (intro section_quiet [OF inv, of _ "Release_job a e" "sys_close (epoll_ctl_del st (lj_origin_socket job)) (lj_origin_socket job)"])
      (auto simp: Let_def sys_close_def epoll_ctl_del_def)
qed

lemma release_ok:
  assumes inv: "tables_inv st" and pc: "pc_ok st (Release_job a e)"
  shows "section_ok (Release_job a e) st (exec_pc (Release_job a e) st)"
proof -
  obtain y where y: "waits_on st a y" "unindexed st a" using pc by auto
  obtain job where d: "deref_job st a = Some job" by (rule waits_deref [OF inv y(1)])
  obtain s o' es gs where r: "release_resources st a =
      Some (write_job (st\<lparr>sent := s, open_fds := o', epoll_set := es\<rparr>) a (\<lambda>j. j\<lparr>lj_granted_reqs := gs\<rparr>))"
    by (rule release_resources_shape [OF d])
  let ?st1 = "st\<lparr>sent := s, open_fds := o', epoll_set := es\<rparr>" and ?f = "\<lambda>j. j\<lparr>lj_granted_reqs := gs\<rparr>"
  note c = tables_cong [of ?st1 st, simplified]
  have k: "tables_inv (write_job ?st1 a ?f)" "unindexed (write_job ?st1 a ?f) = unindexed st"
    using write_keeps [of ?st1 ?f a] inv c(2,4) by simp_all
  have w: "waits_on (write_job ?st1 a ?f) = waits_on st"
    using write_waits [of ?f a _ ?st1] c by (simp add: fun_eq_iff)
  show ?thesis
    using d r k w y
    by (intro section_okI [of _ "if e = By_scheduler then Free_job a e else Tell a (lj_job_id job) e" "write_job ?st1 a ?f"]) (auto split: if_splits)
qed

lemma resume_ok: "pc_ok st (resume e)" "hand (resume e) = None"
  by (cases e; simp)+

lemma free_ok:
  assumes inv: "tables_inv st" and pc: "pc_ok st (Free_job a e)"
  shows "section_ok (Free_job a e) st (exec_pc (Free_job a e) st)"
proof -
  obtain y where y: "waits_on st a y" "unindexed st a" using pc by auto
  obtain job where d: "deref_job st a = Some job" by (rule waits_deref [OF inv y(1)])
  note k = free_keeps [OF inv d y(2) refl]
  show ?thesis
    using d k resume_ok
    by (intro section_okI [of _ "resume e" "st\<lparr>table_localjobs := tablahash_remove_lock (table_localjobs st) job\<rparr>"]) auto
qed

text \<open>A lookup in the index, the reading of the entry found, and a lookup in the table of the jobs.\<close>

lemma index_lookup_ok:
  assumes inv: "tables_inv st"
    and r: "exec_pc pc st = Some (case find_entry (table_ourjobs st) (fd_key x) of None \<Rightarrow> Idle | Some p \<Rightarrow> f p, st)"
    and l: "lookup pc st = map_option entry_job (tablahash_find (table_ourjobs st) (fd_key x))"
    and f: "\<And>p. hand (f p) = Some (entry_job (fst p))" "\<And>p. good_ptr st p x \<Longrightarrow> pc_ok st (f p)"
  shows "section_ok pc st (exec_pc pc st)"
  using find_index [OF inv, of x] l f by (intro section_quiet [OF inv r]) (auto split: option.splits)

lemma index_read_ok:
  assumes inv: "tables_inv st" and p: "good_ptr st p x"
    and r: "exec_pc pc st = map_option (\<lambda>found. (f (entry_job found), st)) (read_entry (table_ourjobs st) p)"
    and f: "\<And>a. hand (f a) = Some a" "\<And>a. waits_on st a x \<Longrightarrow> pc_ok st (f a)" and h: "hand pc = Some (entry_job (fst p))"
  shows "section_ok pc st (exec_pc pc st)"
proof -
  have "exec_pc pc st = Some (f (entry_job (fst p)), st)" using r p by (simp add: good_ptr_def)
  then show ?thesis using p f h by (intro section_quiet [OF inv]) (auto simp: good_ptr_def)
qed

lemma found_waits:
  assumes inv: "tables_inv st" and "tablahash_find (table_localjobs st) (localjob_key i) = Some job"
  shows "\<exists>y. waits_on st (lj_self job) y"
  using localjobs.found_key [OF tables_invD(1) [OF inv] assms(2)] by (auto simp: waits_on_def live_job_def)

lemma job_lookup_ok:
  assumes inv: "tables_inv st"
    and r: "exec_pc pc st = Some (case tablahash_find (table_localjobs st) (localjob_key i) of
        None \<Rightarrow> missing | Some job \<Rightarrow> f (lj_self job), st)"
    and l: "lookup pc st = map_option lj_self (tablahash_find (table_localjobs st) (localjob_key i))"
    and f: "\<And>a. hand (f a) = Some a" "\<And>a. (\<exists>y. waits_on st a y) \<Longrightarrow> pc_ok st (f a)" and missing: "pc_ok st missing" "hand missing = None"
  shows "section_ok pc st (exec_pc pc st)"
  using found_waits [OF inv, of i] l f missing by (intro section_quiet [OF inv r]) (auto split: option.splits)

lemma job_read_ok:
  assumes inv: "tables_inv st"
  shows "pc_ok st (Status_read a s) \<Longrightarrow> section_ok (Status_read a s) st (exec_pc (Status_read a s) st)"
    "pc_ok st (Lost_id a x) \<Longrightarrow> section_ok (Lost_id a x) st (exec_pc (Lost_id a x) st)"
proof -
  assume "pc_ok st (Status_read a s)"
  then obtain y where y: "waits_on st a y" by auto
  obtain job where d: "deref_job st a = Some job" by (rule waits_deref [OF inv y])
  then show "section_ok (Status_read a s) st (exec_pc (Status_read a s) st)"
    by (intro section_quiet [OF inv, of _ "Report (if lj_next_req job = [] then ''granted'' else ''waiting'') s" st]) auto
next
  assume pc: "pc_ok st (Lost_id a x)"
  then have x: "waits_on st a x" by simp
  obtain job where d: "deref_job st a = Some job" by (rule waits_deref [OF inv x])
  then show "section_ok (Lost_id a x) st (exec_pc (Lost_id a x) st)"
    using x by (intro section_quiet [OF inv, of _ "Lost_unindex a x" st]) auto
qed

text \<open>The sections that remove an entry of the index.\<close>

lemma unindex_ok:
  assumes inv: "tables_inv st" and r: "exec_pc pc st = Some (pc', unindex st k)" and hand: "hand pc' = hand pc \<or> hand pc' = None"
    and ok: "\<And>a. hand pc' = Some a \<Longrightarrow> (\<exists>y. waits_on st a y) \<Longrightarrow> unindexed (unindex st k) a \<Longrightarrow> pc_ok (unindex st k) pc'"
      "hand pc' = None \<Longrightarrow> pc_ok (unindex st k) pc'"
    and touch: "touches pc = Some (entry_fd k)"
    and x: "\<And>a. hand pc' = Some a \<Longrightarrow> waits_on st a (entry_fd k) \<and> k = fd_key (entry_fd k)"
  shows "section_ok pc st (exec_pc pc st)"
proof -
  have "pc_ok (unindex st k) pc'"
  proof (cases "hand pc'")
    case (Some a)
    then show ?thesis using ok(1) x [OF Some] unindex_keeps(4) [OF inv, of a "entry_fd k"] by metis
  qed (rule ok(2))
  then show ?thesis
    using hand touch unindex_keeps(1-3,5) [OF inv, where k = k] by (intro section_okI [OF r]) auto
qed

lemma exec_pc_ok:
  assumes inv: "tables_inv st" and pc: "pc_ok st pc"
    and new: "\<And>job j. pc = Insert_job job \<Longrightarrow> live_job st j \<Longrightarrow> lj_job_id j \<noteq> lj_job_id job"
  shows "section_ok pc st (exec_pc pc st)"
proof (cases pc)
  case Idle
  then show ?thesis by (intro section_quiet [OF inv, of _ Idle st]) auto
next
  case (Granted_find x i now)
  then show ?thesis by (intro index_lookup_ok [OF inv, where x = x and f = "\<lambda>p. Granted_read p x i now"]) auto
next
  case (Send_find x)
  then show ?thesis by (intro index_lookup_ok [OF inv, where x = x and f = "\<lambda>p. Send_read p x"]) auto
next
  case (Lost_find l x)
  then show ?thesis by (intro index_lookup_ok [OF inv, where x = x and f = "\<lambda>p. Lost_read l p x"]) auto
next
  case (Granted_read p x i now)
  then show ?thesis using pc by (intro index_read_ok [OF inv, where p = p and x = x and f = "\<lambda>a. Granted_move a x i now"]) auto
next
  case (Send_read p x)
  then show ?thesis using pc by (intro index_read_ok [OF inv, where p = p and x = x and f = "\<lambda>a. Send_line a x"]) auto
next
  case (Lost_read l p x)
  then show ?thesis
    using pc by (intro index_read_ok [OF inv, where p = p and x = x and f = "\<lambda>a. if l = Denied then Lost_unindex a x else Lost_id a x"]) auto
next
  case (Lost_id a x)
  then show ?thesis using job_read_ok(2) [OF inv] pc by simp
next
  case (Status_read a s)
  then show ?thesis using job_read_ok(1) [OF inv] pc by simp
next
  case (Find_job i e)
  show ?thesis unfolding Find_job
    by (rule job_lookup_ok [OF inv, where i = i and missing = "resume e" and f = "\<lambda>a. Teardown a e"]) (auto simp: resume_ok)
next
  case (Status_find s)
  show ?thesis unfolding Status_find
    by (rule job_lookup_ok [OF inv, where i = "atoi s" and missing = "Report ''timeout'' s" and f = "\<lambda>a. Status_read a s"]) auto
next
  case (Report w s)
  then show ?thesis by (intro section_quiet [OF inv, of _ Idle "C_to_erlang st w s"]) auto
next
  case (Collect now)
  then show ?thesis
    by (intro section_quiet [OF inv, of _ "Expire (expired_buckets now (elems (table_localjobs st)) [])" st]) auto
next
  case (Expire ids)
  then show ?thesis
    by (intro section_quiet [OF inv, of _ "case ids of [] \<Rightarrow> Idle | i # is \<Rightarrow> Find_job i (Timed_out is)" st]) (auto split: list.splits)
next
  case (Granted_move a x i now)
  then show ?thesis using granted_move_ok [OF inv] pc by simp
next
  case (Granted_unindex a x)
  then show ?thesis
    using pc unindex_keeps(2) [OF inv] by (intro unindex_ok [OF inv, of _ "Granted_unwatch a x" "fd_key x"]) (auto simp: fd_key_def)
next
  case (Lost_unindex a x)
  then show ?thesis
    using pc unindex_keeps(2) [OF inv] by (intro unindex_ok [OF inv, of _ "Release_job a Rejected" "fd_key x"]) (auto simp: fd_key_def)
next
  case (Teardown_unindex a x e)
  then show ?thesis
    using pc unindex_keeps(2) [OF inv] by (intro unindex_ok [OF inv, of _ "Teardown_close a e" "fd_key x"]) (auto simp: fd_key_def)
next
  case (Ask_undo a ob)
  then show ?thesis
    using unindex_keeps(1-3,5) [OF inv, where k = "\<lparr>entry_fd = ob_fd ob, entry_job = a\<rparr>"]
    by (intro section_okI [of _ "Ask_close (ob_fd ob)" "unindex st \<lparr>entry_fd = ob_fd ob, entry_job = a\<rparr>"]) auto
next
  case (Granted_unwatch a x)
  then show ?thesis using pc by (intro section_quiet [OF inv, of _ "Ask a" "epoll_ctl_del st x"]) (auto simp: epoll_ctl_del_def)
next
  case (Ask a)
  then show ?thesis using ask_section_ok [OF inv] pc by simp
next
  case (Ask_index a ob)
  let ?st = "st\<lparr>table_ourjobs := tablahash_insert (table_ourjobs st) \<lparr>entry_fd = ob_fd ob, entry_job = a\<rparr>\<rparr>"
  have "waits_on st a (ob_fd ob)" "0 \<le>s ob_fd ob" using pc Ask_index by simp_all
  note k = index_keeps [OF inv this, of ?st]
  show ?thesis using Ask_index k by (intro section_okI [of _ "Ask_watch a ob" ?st]) auto
next
  case (Ask_watch a ob)
  then show ?thesis
    by (intro section_quiet [OF inv, of _ "if ob_epoll_ok ob then Idle else Ask_undo a ob"
          "if ob_epoll_ok ob then epoll_ctl_add st (ob_fd ob) reg_out_oneshot else st"]) (auto simp: epoll_ctl_add_def split: if_splits)
next
  case (Ask_close x)
  then show ?thesis by (intro section_quiet [OF inv, of _ Idle "sys_close st x"]) (auto simp: sys_close_def)
next
  case (Send_line a x)
  then show ?thesis using send_line_ok [OF inv] pc by simp
next
  case (Insert_job job)
  let ?st = "st\<lparr>table_localjobs := tablahash_insert (table_localjobs st) (job\<lparr>lj_self := fresh_job st\<rparr>), fresh_job := Suc (fresh_job st)\<rparr>"
  note k = insert_keeps [OF inv new [OF Insert_job], of ?st]
  show ?thesis
    using Insert_job k by (intro section_okI [of _ "Ask (fresh_job st)" ?st]) (auto simp: Let_def)
next
  case (Teardown a e)
  then show ?thesis using teardown_ok [OF inv] pc by simp
next
  case (Teardown_close a e)
  then show ?thesis using teardown_close_ok [OF inv] pc by simp
next
  case (Release_job a e)
  then show ?thesis using release_ok [OF inv] pc by simp
next
  case (Tell a i e)
  then show ?thesis
    using pc by (intro section_quiet [OF inv, of _ "Free_job a e" "C_to_erlang st (ending_text e) (id_str i)"]) auto
next
  case (Free_job a e)
  then show ?thesis using free_ok [OF inv] pc by simp
qed

lemma hands_invD:
  assumes "hands_inv pcs st"
  shows "tables_inv st" "v < length pcs \<Longrightarrow> pc_ok st (pcs ! v)"
    "v < length pcs \<Longrightarrow> w < length pcs \<Longrightarrow> v \<noteq> w \<Longrightarrow> hand (pcs ! v) = Some a \<Longrightarrow> hand (pcs ! w) \<noteq> Some a"
  using assms by (simp_all add: hands_inv_def)

lemma hands_update:
  assumes inv: "hands_inv pcs st" and st': "tables_inv st'" "\<And>v. v < length pcs \<Longrightarrow> v \<noteq> w \<Longrightarrow> pc_ok st' (pcs ! v)" "pc_ok st' pc"
    and apart: "\<And>v a. v < length pcs \<Longrightarrow> v \<noteq> w \<Longrightarrow> hand pc = Some a \<Longrightarrow> hand (pcs ! v) \<noteq> Some a"
  shows "hands_inv (pcs[w := pc]) st'"
  unfolding hands_inv_def
proof (intro conjI allI impI)
  show "tables_inv st'" by (rule st'(1))
  show "pc_ok st' (pcs[w := pc] ! v)" if "v < length (pcs[w := pc])" for v
    using that st'(2,3) by (cases "v = w") simp_all
  show "hand (pcs[w := pc] ! u) \<noteq> Some a"
    if "v < length (pcs[w := pc])" "u < length (pcs[w := pc])" "v \<noteq> u" "hand (pcs[w := pc] ! v) = Some a" for v u a
    using that apart [of u a] apart [of v a] hands_invD(3) [OF inv, of v u a] by (cases "v = w"; cases "u = w") auto
qed

lemma hand_fresh: "tables_inv st \<Longrightarrow> pc_ok st pc \<Longrightarrow> hand pc \<noteq> Some (fresh_job st)"
  using pc_ok_hand [of st pc "fresh_job st"] tables_invD(4) [of st] by (fastforce simp: waits_on_def)

lemma hands_step:
  assumes inv: "hands_inv pcs st" and w: "w < length pcs" "\<not> clash pcs w st" and ex: "exec_pc (pcs ! w) st = Some (pc, st')"
  shows "hands_inv (pcs[w := pc]) st'"
proof -
  have i: "tables_inv st" "pc_ok st (pcs ! w)" using inv w(1) by (simp_all add: hands_inv_def)
  have "section_ok (pcs ! w) st (exec_pc (pcs ! w) st)"
    using w(2) by (intro exec_pc_ok [OF i]) (auto simp: clash_def)
  then have s: "tables_inv st'" "pc_ok st' pc" "keeps_others (pcs ! w) st st'"
    "\<And>a. hand pc = Some a \<Longrightarrow> hand (pcs ! w) = Some a \<or> lookup (pcs ! w) st = Some a \<or> a = fresh_job st"
    using ex by (auto simp: section_ok_def)
  have apart: "hand (pcs ! v) \<noteq> Some a" if "v < length pcs" "v \<noteq> w" "hand pc = Some a" for v a
    using s(4) [OF that(3)]
  proof (elim disjE)
    assume "hand (pcs ! w) = Some a"
    then show ?thesis using hands_invD(3) [OF inv w(1) that(1)] that(2) by blast
  next
    assume "lookup (pcs ! w) st = Some a"
    then show ?thesis using w(2) that(1) unfolding clash_def by blast
  next
    assume "a = fresh_job st"
    then show ?thesis using hand_fresh [OF i(1) hands_invD(2) [OF inv that(1)]] by simp
  qed
  have "pc_ok st' (pcs ! v)" if "v < length pcs" "v \<noteq> w" for v
  proof (rule pc_ok_others [OF _ s(3)])
    show "pc_ok st (pcs ! v)" by (rule hands_invD(2) [OF inv that(1)])
    show "hand (pcs ! v) = Some a \<Longrightarrow> hand (pcs ! w) \<noteq> Some a" for a using hands_invD(3) [OF inv that(1) w(1) that(2)] .
    show "reading (pcs ! v) = Some x \<Longrightarrow> touches (pcs ! w) \<noteq> Some x" for x using w(2) that unfolding clash_def by blast
  qed
  then show ?thesis by (intro hands_update [OF inv s(1) _ s(2) apart]) auto
qed

lemma workers_hands_inv: "client_workers st0 pcs st c \<Longrightarrow> client_inv st0 \<Longrightarrow> \<not> c \<Longrightarrow> hands_inv pcs st"
proof (induction rule: client_workers.induct)
  case start
  then show ?case using client_tables_inv by (simp add: hands_inv_def)
next
  case (handler pcs st c w pc)
  have inv: "hands_inv pcs st" using handler by blast
  have "pc_ok st pc" "hand pc = None" using handler(4) by (cases pc; simp)+
  then show ?case using hands_invD [OF inv] by (intro hands_update [OF inv]) auto
next
  case (runs pcs st c w pc st')
  then show ?case using hands_step [of pcs st w pc st'] by blast
next
  case (other pcs st c st')
  then show ?case using tables_cong(4) [OF other(2,3)] pc_ok_cong [OF other(2,3)] by (simp add: hands_inv_def)
qed

text \<open>A section that a worker may run, by the invariant, does not fail.\<close>

lemma exec_pc_runs:
  assumes "tables_inv st" "pc_ok st pc"
  shows "exec_pc pc st \<noteq> None"
proof (cases "\<exists>job. pc = Insert_job job")
  case False
  then show ?thesis using exec_pc_ok [OF assms] by (auto simp: section_ok_def)
qed (auto simp: Let_def)

text \<open>A worker that runs its handler to the end is one of the interleavings.\<close>

lemma run_client_workers:
  assumes "run_client pc st = Some st'" "client_workers st0 pcs st c" "w < length pcs" "pcs ! w = pc"
  shows "\<exists>c'. client_workers st0 (pcs[w := Idle]) st' c'"
  using assms
proof (induction arbitrary: pcs c rule: run_client.raw_induct [rotated, consumes 1, case_names step])
  case (step run pc st st')
  show ?case
  proof (cases "pc = Idle")
    case True
    then show ?thesis using step(2-5) list_update_id [of pcs w] by auto
  next
    case False
    then obtain pc1 st1 where s: "exec_pc pc st = Some (pc1, st1)" "run pc1 st1 = Some st'"
      using step(2) by (auto split: option.splits)
    have "client_workers st0 (pcs[w := pc1]) st1 (c \<or> clash pcs w st)"
      using client_workers.runs [OF step(3,4), of pc1 st1] step(5) s(1) by simp
    from step(1) [OF s(2) this] show ?thesis using step(4) by simp
  qed
qed

section \<open>A race\<close>

text \<open>
  Nothing in the code keeps two workers off one job. Here one worker has found the job of the
  descriptor 30 and is about to book the \<open>GRANTED\<close> it read; the worker of the timeout timer ends
  and frees the job; the first worker then reads the freed job.
\<close>

lemma race_run:
  obtains pcs st c where "client_workers (example_agent [example_req] []) pcs st c" "0 < length pcs" "exec_pc (pcs ! 0) st = None"
proof -
  let ?st = "example_agent [example_req] []" and ?w = "client_workers (example_agent [example_req] [])"
  let ?e = "\<lparr>entry_fd = 30, entry_job = 0\<rparr>"
  let ?m = "Granted_move 0 30 7 5"
  have run: "map_option (\<lambda>st'. Option.is_none (exec_pc ?m st')) (run_client (Collect 30) ?st) = Some True"
    by code_simp
  then obtain st' where st': "run_client (Collect 30) ?st = Some st'" "exec_pc ?m st' = None"
    by (auto simp: Option.is_none_def)
  let ?idle = "replicate NUM_WORKERS Idle"
  have n: "0 < length ?idle" "1 < length ?idle" by (simp_all add: NUM_WORKERS_def)
  have f: "find_entry (table_ourjobs ?st) (fd_key 30) = Some (?e, freed_count (table_ourjobs ?st) ?e)"
    using example_lookup(2) by (simp add: find_entry_def)
  note r = ourjobs.find_entry_good(1) [OF client_invD(2) [OF example_inv] f]
  have "?w (?idle[0 := Granted_find 30 7 5]) ?st False"
    by (rule client_workers.handler [OF client_workers.start n(1)]) (use n in simp_all)
  from client_workers.runs [OF this, of 0 "Granted_read (?e, freed_count (table_ourjobs ?st) ?e) 30 7 5" ?st] n(1) f
  obtain c1 where "?w (?idle[0 := Granted_read (?e, freed_count (table_ourjobs ?st) ?e) 30 7 5]) ?st c1" by auto
  from client_workers.runs [OF this, of 0 ?m ?st] n(1) r
  obtain c2 where "?w (?idle[0 := ?m]) ?st c2" by auto
  from client_workers.handler [OF this, of 1 "Collect 30"] n
  have "?w ((?idle[0 := ?m])[1 := Collect 30]) ?st c2" by simp
  from run_client_workers [OF st'(1) this, of 1] n
  obtain c3 where "?w ((?idle[0 := ?m])[1 := Idle]) st' c3" by auto
  moreover have "((?idle[0 := ?m])[1 := Idle]) ! 0 = ?m" using n by simp
  ultimately show ?thesis using that st'(2) n(1) by (metis length_list_update)
qed

theorem grant_races_timeout:
  "\<exists>pcs st c. client_workers (example_agent [example_req] []) pcs st c \<and> 0 < length pcs \<and> exec_pc (pcs ! 0) st = None"
  by (rule race_run) blast

text \<open>
  The sections are the handlers: a worker that runs alone, section after section, computes what the
  sequential handlers compute, for \<open>GRANTED\<close>, \<open>DENIED\<close>, a lost provider, a writable socket, the
  timeout sweep, \<open>JOB_RELEASE\<close>, \<open>JOB_REQUEST\<close> and \<open>JOB_STATUS\<close>.
\<close>

theorem client_sections_compose:
  assumes "client_inv st"
  shows "run_client (Granted_find x i now) st = handle_granted st x i now \<and>
    run_client (Lost_find Denied x) st = handle_denied st x \<and>
    run_client (Lost_find Disconnected x) st = handle_outbound_disconnect st x \<and>
    run_client (Send_find x) st = send_request st x \<and> run_client (Collect now) st = check_ourjob_timeouts st now \<and>
    (2 \<le> length tokens \<longrightarrow> run_client (Find_job (atoi (tokens ! 1)) By_scheduler) st = job_release st tokens) \<and>
    (3 \<le> length tokens \<longrightarrow> run_client (Insert_job (parsed_job st tokens now)) st = job_request st tokens now) \<and>
    (2 \<le> length tokens \<longrightarrow> run_client (Status_find (tokens ! 1)) st = Some (job_status st tokens))"
  using run_granted run_lost [OF client_invD(1,2) [OF assms]] run_send [OF client_invD(2) [OF assms]] run_collect [OF assms]
    run_job_release [OF assms] run_job_request run_status [OF assms] client_invD(2) [OF assms]
  by blast

section \<open>Properties\<close>

text \<open>
  C19. What a dangling pointer takes: under every interleaving of the client handlers of the four
  workers, a worker reads a freed job or a freed entry of the index only if two workers have
  clashed before, that is, a lookup handed out a job that another worker was still using, or the entry of
  a descriptor was removed or replaced under a worker that was about to read it, or
  \<open>JOB_REQUEST\<close> asked for a live id. Without a clash each entry of the descriptor index leads to a live job
  that waits on the descriptor.
\<close>

theorem bad_pointer_needs_a_clash:
  assumes "client_inv st0" "client_workers st0 pcs st c" "w < length pcs"
  shows "(exec_pc (pcs ! w) st = None \<longrightarrow> c) \<and>
    (\<not> c \<longrightarrow> (\<forall>e \<in> set (table_data (table_ourjobs st)). \<exists>j. deref_job st (entry_job e) = Some j \<and> lj_origin_socket j = entry_fd e))"
proof -
  have inv: "hands_inv pcs st" if "\<not> c" by (rule workers_hands_inv [OF assms(2,1) that])
  have "\<exists>j. deref_job st (entry_job e) = Some j \<and> lj_origin_socket j = entry_fd e"
    if "\<not> c" "e \<in> set (table_data (table_ourjobs st))" for e
    using waits_deref [OF hands_invD(1) [OF inv [OF that(1)]]] tables_invD(5) [OF hands_invD(1) [OF inv [OF that(1)]] that(2)] by metis
  moreover have "exec_pc (pcs ! w) st \<noteq> None" if "\<not> c"
    using exec_pc_runs hands_invD(1,2) [OF inv [OF that]] assms(3) by blast
  ultimately show ?thesis by blast
qed

theorem bad_pointer_needs_a_clash_witness:
  "\<exists>pcs st c. client_workers (example_agent [example_req] []) pcs st c \<and> exec_pc (pcs ! 0) st = None \<and> c"
proof (rule race_run)
  fix pcs st c
  assume run: "client_workers (example_agent [example_req] []) pcs st c" "0 < length pcs" "exec_pc (pcs ! 0) st = None"
  have "client_inv (example_agent [example_req] [])" by (rule example_inv) simp
  from bad_pointer_needs_a_clash [OF this run(1,2)] run show ?thesis by blast
qed

end
