(* ===== verification/Two_Agents.thy ===== *)
theory Two_Agents
  imports Job_Lifecycle Server_Behaviour Protocol
begin

text \<open>
  Two agents and one connection between them: what the client's handlers print is given to the
  provider's handlers and back. The two ends have their own descriptors for the connection, \<open>x\<close>
  at the client and \<open>y\<close> at the provider.
\<close>

section \<open>The ledger of one connection\<close>

text \<open>When only one request of one queue can be granted, the table changes by that grant alone.\<close>

lemma drain_nothing:
  assumes "server_inv st" "settled r st"
  obtains q' where "drain_queue st r type = Some (set_queue r q' st)" "server_inv (set_queue r q' st)"
    "queue_list q' = queue_list (get_queue r st)" "resources_left q' = resources_left (get_queue r st)"
proof -
  have q: "queue_inv (get_queue r st)" using assms(1) by (simp add: server_inv_def)
  have g: "greedy (resources_left (get_queue r st)) (queue_list (get_queue r st)) =
      ([], queue_list (get_queue r st), resources_left (get_queue r st))"
    using assms(2) by (simp add: settled_def greedy_nothing)
  obtain q' where q': "drain_queue st r type = Some (grant_ready type (rev []) (set_queue r q' st))"
    "queue_inv q'" "queue_list q' = queue_list (get_queue r st)" "resources_left q' = resources_left (get_queue r st)"
    by (rule drain_queue_spec [OF q g])
  then show ?thesis using assms(1) by (intro that [of q']) (simp_all add: server_inv_def)
qed

definition same_books :: "agent \<Rightarrow> agent \<Rightarrow> bool" where
  "same_books st st' \<longleftrightarrow> server_inv st' \<and> table_nodejobs st' = table_nodejobs st \<and> open_fds st' = open_fds st
     \<and> os_peername st' = os_peername st \<and> (\<forall>s. queue_list (get_queue s st') = queue_list (get_queue s st)
     \<and> resources_left (get_queue s st') = resources_left (get_queue s st))"

lemma drain_nothing_frame:
  assumes "server_inv st" "settled r st"
  obtains st' where "drain_queue st r type = Some st'" "same_books st st'"
proof -
  obtain q' where q': "drain_queue st r type = Some (set_queue r q' st)" "server_inv (set_queue r q' st)"
    "queue_list q' = queue_list (get_queue r st)" "resources_left q' = resources_left (get_queue r st)"
    by (rule drain_nothing [OF assms])
  then show ?thesis by (intro that [OF q'(1)]) (auto simp: same_books_def)
qed

lemma same_books_settled: "same_books st st' \<Longrightarrow> settled r st' = settled r st"
  by (simp add: same_books_def settled_def)

lemma same_books_requests:
  "same_books st st' \<Longrightarrow> queue_list (get_queue r st') = queue_list (get_queue r st)"
  "same_books st st' \<Longrightarrow> resources_left (get_queue r st') = resources_left (get_queue r st)"
  by (simp_all add: same_books_def)

lemma record_granted_cong:
  assumes "table_nodejobs st' = table_nodejobs st" "open_fds st' = open_fds st" "os_peername st' = os_peername st"
  shows "table_nodejobs (record_granted st' i x type n) = table_nodejobs (record_granted st i x type n)"
  using assms by (simp add: record_granted_def getpeername_def Let_def split: prod.split)

lemma drain_one:
  assumes "server_inv st" "queue_list (get_queue q st) = [req]" "rq_amount_requested req \<le>s resources_left (get_queue q st)"
  shows "\<exists>st'. drain_queue st q type = Some st' \<and> server_inv st' \<and>
    table_nodejobs st' = table_nodejobs (record_granted st (rq_job_id req) (rq_origin_socket req) type (rq_amount_requested req)) \<and>
    (\<forall>s. s \<noteq> q \<longrightarrow> settled s st' = settled s st)"
proof -
  have q: "queue_inv (get_queue q st)" "nodejobs_ok (table_nodejobs st)" using assms(1) by (simp_all add: server_inv_def)
  have g: "greedy (resources_left (get_queue q st)) (queue_list (get_queue q st)) =
      ([req], [], resources_left (get_queue q st) - rq_amount_requested req)"
    using assms(2,3) by simp
  obtain q' where q': "drain_queue st q type = Some (grant_ready type (rev [req]) (set_queue q q' st))"
    "queue_inv q'" "queue_list q' = []"
    using drain_queue_spec [OF q(1) g, where type = type] by metis
  let ?st = "grant_ready type (rev [req]) (set_queue q q' st)"
  have "server_inv ?st"
    using assms(1) q'(2) grant_ready_total(1) [of "set_queue q q' st" type "rev [req]"] by (simp add: server_inv_def)
  moreover have "table_nodejobs ?st =
      table_nodejobs (record_granted st (rq_job_id req) (rq_origin_socket req) type (rq_amount_requested req))"
    using record_granted_cong [of "set_queue q q' st" st] by (simp add: grant_one_def)
  ultimately show ?thesis using q'(1) by (intro exI [of _ ?st]) (simp add: settled_def)
qed

lemma settled_empty: "queue_list (get_queue r st) = [] \<Longrightarrow> settled r st"
  by (simp add: settled_def)

text \<open>The whole of \<open>reserve_elements\<close> when the one request of \<open>q\<close> fits and the other queues are settled.\<close>

lemma reserve_one:
  assumes inv: "server_inv st" and req: "queue_list (get_queue q st) = [req]"
    "rq_amount_requested req \<le>s resources_left (get_queue q st)" and rest: "\<And>r. r \<noteq> q \<Longrightarrow> settled r st"
  obtains st' where "reserve_elements st = Some st'"
    "table_nodejobs st' = table_nodejobs (record_granted st (rq_job_id req) (rq_origin_socket req) (queue_type q) (rq_amount_requested req))"
proof (cases q)
  case CPU_Q
  obtain s1 where 1: "drain_queue st CPU_Q ''cpu'' = Some s1" "server_inv s1"
    "table_nodejobs s1 = table_nodejobs (record_granted st (rq_job_id req) (rq_origin_socket req) ''cpu'' (rq_amount_requested req))"
    "settled MEM_Q s1" "settled GPU_Q s1"
    using req CPU_Q rest drain_one [OF inv, of CPU_Q req "''cpu''"] by fastforce
  obtain s2 where 2: "drain_queue s1 MEM_Q ''mem'' = Some s2" "same_books s1 s2"
    by (rule drain_nothing_frame [OF 1(2,4)])
  then have "server_inv s2" "settled GPU_Q s2" using 1(5) same_books_settled [OF 2(2)] by (simp_all add: same_books_def)
  then obtain s3 where 3: "drain_queue s2 GPU_Q ''gpu'' = Some s3" "same_books s2 s3"
    by (rule drain_nothing_frame)
  show ?thesis using 1 2 3 CPU_Q by (intro that [of s3]) (simp_all add: reserve_elements_def same_books_def)
next
  case MEM_Q
  have "settled CPU_Q st" using rest MEM_Q by simp
  then obtain s1 where 1: "drain_queue st CPU_Q ''cpu'' = Some s1" "same_books st s1"
    by (rule drain_nothing_frame [OF inv])
  have i1: "server_inv s1" "settled GPU_Q s1" using 1(2) rest [of GPU_Q] MEM_Q same_books_settled [OF 1(2)]
    by (simp_all add: same_books_def)
  have r1: "queue_list (get_queue MEM_Q s1) = [req]" "rq_amount_requested req \<le>s resources_left (get_queue MEM_Q s1)"
    using req MEM_Q same_books_requests [OF 1(2), of MEM_Q] by simp_all
  obtain s2 where 2: "drain_queue s1 MEM_Q ''mem'' = Some s2" "server_inv s2"
    "table_nodejobs s2 = table_nodejobs (record_granted s1 (rq_job_id req) (rq_origin_socket req) ''mem'' (rq_amount_requested req))"
    "settled GPU_Q s2"
    using i1(2) drain_one [OF i1(1) r1, of "''mem''"] by fastforce
  then obtain s3 where 3: "drain_queue s2 GPU_Q ''gpu'' = Some s3" "same_books s2 s3"
    using drain_nothing_frame by blast
  show ?thesis using 1 2 3 MEM_Q record_granted_cong [of s1 st]
    by (intro that [of s3]) (simp_all add: reserve_elements_def same_books_def)
next
  case GPU_Q
  have "settled CPU_Q st" using rest GPU_Q by simp
  then obtain s1 where 1: "drain_queue st CPU_Q ''cpu'' = Some s1" "same_books st s1"
    by (rule drain_nothing_frame [OF inv])
  have i1: "server_inv s1" "settled MEM_Q s1" using 1(2) rest [of MEM_Q] GPU_Q same_books_settled [OF 1(2)]
    by (simp_all add: same_books_def)
  then obtain s2 where 2: "drain_queue s1 MEM_Q ''mem'' = Some s2" "same_books s1 s2"
    by (rule drain_nothing_frame)
  have i2: "server_inv s2" using 2(2) by (simp add: same_books_def)
  have r2: "queue_list (get_queue GPU_Q s2) = [req]" "rq_amount_requested req \<le>s resources_left (get_queue GPU_Q s2)"
    using req GPU_Q same_books_requests [OF 1(2), of GPU_Q] same_books_requests [OF 2(2), of GPU_Q] by simp_all
  obtain s3 where 3: "drain_queue s2 GPU_Q ''gpu'' = Some s3"
    "table_nodejobs s3 = table_nodejobs (record_granted s2 (rq_job_id req) (rq_origin_socket req) ''gpu'' (rq_amount_requested req))"
    using drain_one [OF i2 r2, of "''gpu''"] by blast
  show ?thesis using 1 2 3 GPU_Q record_granted_cong [of s2 st]
    by (intro that [of s3]) (simp_all add: reserve_elements_def same_books_def)
qed

text \<open>A request that is granted at once is recorded for its connection and nothing else changes in the table.\<close>

lemma enqueue_recorded:
  assumes inv: "server_inv st" and rest: "\<forall>r. settled r st"
    and fits: "queue_list (get_queue (resource_queue_of res) st) = []" "n \<le>s resources_left (get_queue (resource_queue_of res) st)"
    and st': "enqueue_jobs st res i n y = Some st'"
  shows "table_nodejobs st' = table_nodejobs (record_granted st i y (queue_type (resource_queue_of res)) n)"
proof -
  let ?q = "resource_queue_of res" and ?req = "make_request i y n"
  obtain q' where q': "enqueue_request (get_queue ?q st) ?req = Some q'" "server_inv (set_queue ?q q' st)"
    "queue_list q' = queue_list (get_queue ?q st) @ [?req]" "resources_left q' = resources_left (get_queue ?q st)"
    by (rule enqueue_jobs_step [OF inv, of res i y n])
  let ?st = "set_queue ?q q' st"
  have req: "rq_amount_requested ?req = n" "rq_origin_socket ?req = y" "rq_job_id ?req = i" by (simp_all add: make_request_def)
  have "queue_list (get_queue ?q ?st) = [?req]" "rq_amount_requested ?req \<le>s resources_left (get_queue ?q ?st)"
    using fits q'(3,4) req by simp_all
  moreover have "settled r ?st" if "r \<noteq> ?q" for r using rest that by (simp add: settled_def)
  ultimately obtain st1 where st1: "reserve_elements ?st = Some st1"
    "table_nodejobs st1 = table_nodejobs (record_granted ?st i y (queue_type ?q) n)"
    using reserve_one [OF q'(2), of ?q ?req] req by metis
  have "st1 = st'" using st1(1) st' q'(1) by (simp add: enqueue_jobs_def Let_def)
  then show ?thesis using st1(2) record_granted_cong [of ?st st] by simp
qed

lemma sum_swept:
  "sum_list (map f (swept_by y js)) = sum_list (map (\<lambda>j. if original_socket j = y then f j else 0) js)"
  for f :: "received_job \<Rightarrow> 'g :: ab_group_add"
  unfolding swept_by_def by (rule sum_list_map_filter')

text \<open>The first grant of a connection is all that a sweep for this connection finds.\<close>

lemma record_first:
  fixes f :: "received_job \<Rightarrow> 'g :: ab_group_add"
  assumes ok: "nodejobs_ok (table_nodejobs st)" and none: "swept_by y (table_data (table_nodejobs st)) = []"
    and new: "table_map rj_key (table_nodejobs st) (i, peer_of st y) = None"
  shows "sum_list (map f (swept_by y (table_data (table_nodejobs (record_granted st i y type n))))) =
    f (add_grant type n y (received_job_key i (fst (peer_of st y)) (snd (peer_of st y))))"
proof -
  let ?f = "\<lambda>j. if original_socket j = y then f j else 0"
  let ?new = "add_grant type n y (received_job_key i (fst (peer_of st y)) (snd (peer_of st y)))"
  have key: "rj_key ?new = (i, peer_of st y)" by simp
  have "sum_list (map ?f (table_data (table_nodejobs st))) = 0" using none sum_swept [of f y] by (metis list.map(1) sum_list.Nil)
  moreover have "record_granted st i y type n = st\<lparr>table_nodejobs := tablahash_insert (table_nodejobs st) ?new\<rparr>"
    using record_granted_insert [OF ok, of i y type n] new by simp
  ultimately show ?thesis
    using nodejobs.insert_sum [OF ok, of ?f ?new] new key unfolding sum_swept by (simp add: copy_job_def)
qed

lemma record_first_reclaimed:
  assumes "nodejobs_ok (table_nodejobs st)" "swept_by y (table_data (table_nodejobs st)) = []"
    "table_map rj_key (table_nodejobs st) (i, peer_of st y) = None"
    "table_nodejobs st' = table_nodejobs (record_granted st i y type n)"
  shows "swept_by y (table_data (table_nodejobs st')) \<noteq> []"
    "reclaimed st' y r = (if r = resource_queue_of type then n else 0)"
proof -
  have "sum_list (map (\<lambda>_. 1 :: int) (swept_by y (table_data (table_nodejobs st')))) = 1"
    unfolding assms(4) by (rule record_first [OF assms(1-3)])
  then show "swept_by y (table_data (table_nodejobs st')) \<noteq> []" by auto
  have "granted_of r (received_job_key i a b) = 0" for a b by (cases r) (simp_all add: received_job_key_def)
  then show "reclaimed st' y r = (if r = resource_queue_of type then n else 0)"
    unfolding reclaimed_def assms(4) using record_first [OF assms(1-3), of "granted_of r" type n] by simp
qed

section \<open>One request on its way\<close>

text \<open>
  When the socket of a waiting job becomes writable, the agent sends one line on it, and an
  agent that reads this line queues a request with the job's id and the resource and amount of
  the request at the head of the job's list. The socket is then re-armed for reading.
\<close>

lemma request_reaches_provider:
  assumes "tablahash_find (table_ourjobs st) (fd_key x) = Some e"
    "deref_job st (entry_job e) = Some job" "lj_next_req job = req # rest" "type_ok (pr_type req)" "x \<in> open_fds st"
  obtains st' where "send_request st x = Some st'" "sent st' = sent st @ [(x, reserve_text job req)]"
    "epoll_set st x \<noteq> None \<longrightarrow> epoll_set st' x = Some reg_in_et_oneshot"
    "table_ourjobs st' = table_ourjobs st" "table_localjobs st' = table_localjobs st" "client_inv st' = client_inv st"
    "open_fds st' = open_fds st" "erlangfd st' = erlangfd st"
proof -
  let ?st' = "epoll_ctl_mod (sys_send st x (reserve_text job req)) x reg_in_et_oneshot"
  have "send_request st x = Some ?st'" using assms by (simp add: send_request_def)
  then show ?thesis
    using assms(5) by (intro that [of ?st']) (simp_all add: sys_send_def epoll_ctl_mod_def epoll_ctl_add_def client_inv_def index_sound_def)
qed

section \<open>The end of a stuck job\<close>



section \<open>Properties\<close>

lemma new_agent_books:
  "free (abs_books (new_agent\<lparr>open_fds := s\<rparr>)) CPU_Q = 4" "waiting (abs_books (new_agent\<lparr>open_fds := s\<rparr>)) r = []"
  "outbox (abs_books (new_agent\<lparr>open_fds := s\<rparr>)) = []"
  by (simp add: abs_books_def new_agent_queue [of CPU_Q, simplified] make_queue_inv)
    (simp add: abs_books_def new_agent_queue make_queue_inv, simp add: abs_books_def new_agent_def main_init_def)

lemma example_type: "type_ok (pr_type example_req)"
  by (simp add: example_req_def type_ok_def token_ok_def token_delims_def)

text \<open>
  C23. The round trip of a reservation, over both ends of a connection that is descriptor \<open>x\<close> at
  the client and \<open>y\<close> at the provider, for a job with one request left, at a provider where no request
  waits for that resource, nobody waits for something free, and the amount is at hand: the client's socket becomes
  writable and one line is sent; the provider reads that line and answers on \<open>y\<close>, moving the amount from the free to the lent side of its
  books; the client reads that answer on \<open>x\<close>, holds the resource from \<open>x\<close>, has nothing left to
  ask for, and tells its scheduler \<open>JOB_GRANTED\<close> with the id of the job.
\<close>

theorem reservation_round_trip:
  assumes client: "client_inv c" "tablahash_find (table_ourjobs c) (fd_key x) = Some e"
      "deref_job c (entry_job e) = Some job" "lj_next_req job = [req]" "type_ok (pr_type req)"
      "x \<in> open_fds c" "erlangfd c \<in> open_fds c"
    and provider: "server_inv s" "\<forall>r. settled r s" "y \<in> open_fds s"
      "waiting (abs_books s) (resource_queue_of (pr_type req)) = []"
      "pr_amount req \<le>s free (abs_books s) (resource_queue_of (pr_type req))"
  shows "\<exists>c1 line s1 answer c2 job'.
    send_request c x = Some c1 \<and> sent c1 = sent c @ [(x, line)] \<and>
    client_to_myserver s y line now1 = Some s1 \<and>
    abs_books s1 = (let b = abs_books s; q = resource_queue_of (pr_type req); n = pr_amount req in
      b\<lparr>free := (free b)(q := free b q - n), lent := (lent b)(q := lent b q + n), outbox := outbox b @ [(y, answer)]\<rparr>) \<and>
    client_to_myserver c1 x answer now2 = Some c2 \<and> deref_job c2 (entry_job e) = Some job' \<and>
    lj_next_req job' = [] \<and> lj_granted_reqs job' = req\<lparr>pr_provider_fd := x\<rparr> # lj_granted_reqs job \<and>
    sent c2 = sent c1 @ [(erlangfd c, ''JOB_GRANTED '' @ fmt_d (lj_job_id job) @ [NEWLINE])]"
proof -
  let ?q = "resource_queue_of (pr_type req)" and ?req = "make_request (lj_job_id job) y (pr_amount req)"
  obtain c1 where c1: "send_request c x = Some c1" "sent c1 = sent c @ [(x, reserve_text job req)]"
    "epoll_set c x \<noteq> None \<longrightarrow> epoll_set c1 x = Some reg_in_et_oneshot"
    "table_ourjobs c1 = table_ourjobs c" "table_localjobs c1 = table_localjobs c" "client_inv c1 = client_inv c"
    "open_fds c1 = open_fds c" "erlangfd c1 = erlangfd c"
    by (rule request_reaches_provider [OF client(2,3,4,5,6)])
  obtain s1 where s1: "enqueue_jobs s (pr_type req) (lj_job_id job) (pr_amount req) y = Some s1"
    "abs_books s1 = reserve_books (open_fds s) (wait_books ?q ?req (abs_books s))"
    using enqueue_jobs_refines [OF provider(1), of "pr_type req" "lj_job_id job" "pr_amount req" y] by metis
  have req: "rq_amount_requested ?req = pr_amount req" "rq_origin_socket ?req = y" "rq_job_id ?req = lj_job_id job"
    by (simp_all add: make_request_def)
  have b: "abs_books s1 = (let b = abs_books s; n = pr_amount req in
      b\<lparr>free := (free b)(?q := free b ?q - n), lent := (lent b)(?q := lent b ?q + n), outbox := outbox b @ [(y, granted_text ?req)]\<rparr>)"
    using reserve_granted [of "abs_books s" ?q ?req "open_fds s"] provider req s1(2) by (simp add: blocked_abs Let_def)
  have "deref_job c1 (entry_job e) = Some job" using client(3) c1(5) by (simp add: deref_job_def)
  then obtain c2 job' where c2: "handle_granted c1 x (lj_job_id job) now2 = Some c2" "deref_job c2 (entry_job e) = Some job'"
    "lj_next_req job' = []" "lj_granted_reqs job' = req\<lparr>pr_provider_fd := x\<rparr> # lj_granted_reqs job"
    "sent c2 = sent c1 @ [(erlangfd c, ''JOB_GRANTED '' @ fmt_d (lj_job_id job) @ [NEWLINE])]"
    using handle_last_grant [of c1 x e job req now2] client c1(4-8) by auto
  have "client_to_myserver s y (reserve_text job req) now1 = Some s1"
    using s1(1) reserve_understood [OF client(5)] by simp
  moreover have "client_to_myserver c1 x (granted_text ?req) now2 = Some c2"
    using c2(1) granted_is_understood [of c1 x ?req] req(3) by simp
  ultimately show ?thesis using c1(1,2) b c2(2-5) by (auto simp: Let_def)
qed

theorem reservation_round_trip_witness:
  "\<exists>c1 line s1 answer c2. send_request (example_agent [example_req] []) 30 = Some c1 \<and> sent c1 = [(30, line)] \<and>
     client_to_myserver (new_agent\<lparr>open_fds := {10}\<rparr>) 10 line 0 = Some s1 \<and> sent s1 = [(10, answer)] \<and>
     resources_left (get_queue CPU_Q s1) = 2 \<and> client_to_myserver c1 30 answer 5 = Some c2 \<and>
     sent c2 = [(30, line), (20, ''JOB_GRANTED 7'' @ [NEWLINE])]"
proof -
  let ?c = "example_agent [example_req] []" and ?s = "new_agent\<lparr>open_fds := {10}\<rparr>"
  let ?e = "\<lparr>entry_fd = 30, entry_job = 0\<rparr>" and ?job = "example_job [example_req] []"
  have c: "deref_job ?c (entry_job ?e) = Some ?job" "type_ok (pr_type example_req)"
    "30 \<in> open_fds ?c" "erlangfd ?c \<in> open_fds ?c" "sent ?c = []" "erlangfd ?c = 20"
    using example_lookup(1) [of "[example_req]" "[]"] example_type by (simp_all add: example_agent_def new_agent_def main_init_def)
  have n: "resource_queue_of (pr_type example_req) = CPU_Q" "pr_amount example_req = 2" "fmt_d 7 = ''7''"
    by (simp add: example_req_def resource_queue_of_def) (simp add: example_req_def, code_simp)
  obtain c1 line s1 answer c2 where r: "send_request ?c 30 = Some c1" "sent c1 = sent ?c @ [(30, line)]"
    "client_to_myserver ?s 10 line 0 = Some s1"
    "abs_books s1 = (let b = abs_books ?s; q = resource_queue_of (pr_type example_req); n = pr_amount example_req in
      b\<lparr>free := (free b)(q := free b q - n), lent := (lent b)(q := lent b q + n), outbox := outbox b @ [(10, answer)]\<rparr>)"
    "client_to_myserver c1 30 answer 5 = Some c2"
    "sent c2 = sent c1 @ [(erlangfd ?c, ''JOB_GRANTED '' @ fmt_d (lj_job_id ?job) @ [NEWLINE])]"
    using reservation_round_trip [OF example_inv example_lookup(2) c(1) example_fields(2) c(2-4) new_agent_server(1),
        of "{10}" 10 0 5] new_agent_server(2) new_agent_books [of "{10}"] n by (force simp: word_sle_eq)
  have "sent s1 = outbox (abs_books s1)" "resources_left (get_queue CPU_Q s1) = free (abs_books s1) CPU_Q"
    by (simp_all add: abs_books_def)
  then have "sent s1 = [(10, answer)]" "resources_left (get_queue CPU_Q s1) = 2"
    using r(4) new_agent_books [of "{10}"] n by (simp_all add: Let_def)
  then show ?thesis
    using r c(5,6) n(3) by (intro exI [of _ c1] exI [of _ line] exI [of _ s1] exI [of _ answer] exI [of _ c2]) (simp add: example_fields)
qed

text \<open>
  C24. A reservation that is released leaves no trace: at a provider where nobody waits for
  something free and nothing is recorded for connection \<open>y\<close> nor for this job at its address, a
  \<open>RESERVE\<close> line that is granted followed by the client's \<open>RELEASE\<close> line brings all three
  queues, the free amounts and the lent amounts back to what they were; only the one answer has
  been sent.
\<close>

theorem reservation_is_returned:
  assumes inv: "server_inv s" "\<forall>r. settled r s" "y \<in> open_fds s"
      "waiting (abs_books s) (resource_queue_of (pr_type req)) = []"
      "pr_amount req \<le>s free (abs_books s) (resource_queue_of (pr_type req))"
    and types: "type_ok (pr_type req)" "type_ok (pr_type g)"
    and fresh: "swept_by y (table_data (table_nodejobs s)) = []"
      "table_map rj_key (table_nodejobs s) (lj_job_id job, peer_of s y) = None"
  shows "\<exists>s1 s2 answer. client_to_myserver s y (reserve_text job req) now1 = Some s1 \<and>
    client_to_myserver s1 y (release_text i g) now2 = Some s2 \<and>
    abs_books s2 = (abs_books s)\<lparr>outbox := outbox (abs_books s) @ [(y, answer)]\<rparr>"
proof -
  let ?q = "resource_queue_of (pr_type req)" and ?req = "make_request (lj_job_id job) y (pr_amount req)"
  let ?b = "abs_books s" and ?n = "pr_amount req"
  obtain s1 where s1: "enqueue_jobs s (pr_type req) (lj_job_id job) ?n y = Some s1" "server_inv s1"
    "open_fds s1 = open_fds s" "abs_books s1 = reserve_books (open_fds s) (wait_books ?q ?req ?b)"
    by (rule enqueue_jobs_refines [OF inv(1)])
  have req: "rq_amount_requested ?req = ?n" "rq_origin_socket ?req = y" by (simp_all add: make_request_def)
  have b1: "abs_books s1 = ?b\<lparr>free := (free ?b)(?q := free ?b ?q - ?n), lent := (lent ?b)(?q := lent ?b ?q + ?n),
      outbox := outbox ?b @ [(y, granted_text ?req)]\<rparr>"
    using reserve_granted [of ?b ?q ?req "open_fds s"] inv req s1(4) by (simp add: blocked_abs)
  have ok: "nodejobs_ok (table_nodejobs s)" using inv(1) by (simp add: server_inv_def)
  have "table_nodejobs s1 = table_nodejobs (record_granted s (lj_job_id job) y (queue_type ?q) ?n)"
    using enqueue_recorded [OF inv(1,2) _ _ s1(1)] inv(4,5) by (simp add: abs_books_def)
  note lent = record_first_reclaimed [OF ok fresh this]
  have "resource_queue_of (queue_type ?q) = ?q" by (cases ?q) (simp_all add: resource_queue_of_def)
  then have returned: "return_books (reclaimed s1 y) (abs_books s1) = ?b\<lparr>outbox := outbox ?b @ [(y, granted_text ?req)]\<rparr>"
    using lent(2) b1 by (auto simp: return_books_def fun_eq_iff)
  obtain s2 where s2: "release_client_by_fd s1 y = Some s2"
    "abs_books s2 = reserve_books (open_fds s) (return_books (reclaimed s1 y) (abs_books s1))"
    using release_client_by_fd_refines [OF s1(2), of y] lent(1) s1(3) by metis
  have "blocked (?b\<lparr>outbox := out\<rparr>) r" for r out using inv(2) blocked_abs [of s r] by (simp add: blocked_def)
  then have "abs_books s2 = ?b\<lparr>outbox := outbox ?b @ [(y, granted_text ?req)]\<rparr>"
    using s2(2) unfolding returned by (simp add: reserve_books_def drain_blocked)
  then show ?thesis
    using s1(1) s2(1) reserve_understood [OF types(1)] release_is_understood [OF types(2)] by auto
qed

theorem reservation_is_returned_witness:
  "\<exists>s1 s2 answer. client_to_myserver (new_agent\<lparr>open_fds := {10}\<rparr>) 10 (reserve_text (example_job [] []) example_req) 0 = Some s1 \<and>
     client_to_myserver s1 10 (release_text 7 example_req) 5 = Some s2 \<and>
     resources_left (get_queue CPU_Q s2) = 4 \<and> sent s2 = [(10, answer)]"
proof -
  let ?s = "new_agent\<lparr>open_fds := {10}\<rparr>"
  have n: "resource_queue_of (pr_type example_req) = CPU_Q" "pr_amount example_req = 2"
    by (simp_all add: example_req_def resource_queue_of_def)
  have d: "table_data (table_nodejobs ?s) = []" by (simp add: new_agent_def main_init_def created_empty)
  then have "swept_by 10 (table_data (table_nodejobs ?s)) = []"
    "table_map rj_key (table_nodejobs ?s) (lj_job_id (example_job [] []), peer_of ?s 10) = None"
    by (simp_all add: swept_by_def table_map_def)
  then obtain s1 s2 answer where r: "client_to_myserver ?s 10 (reserve_text (example_job [] []) example_req) 0 = Some s1"
    "client_to_myserver s1 10 (release_text 7 example_req) 5 = Some s2"
    "abs_books s2 = (abs_books ?s)\<lparr>outbox := outbox (abs_books ?s) @ [(10, answer)]\<rparr>"
    using reservation_is_returned [OF new_agent_server(1), of "{10}" 10 example_req example_req "example_job [] []" 0 7 5]
      new_agent_server(2) new_agent_books [of "{10}"] example_type n by (force simp: word_sle_eq)
  have "resources_left (get_queue CPU_Q s2) = free (abs_books s2) CPU_Q" "sent s2 = outbox (abs_books s2)"
    by (simp_all add: abs_books_def)
  then show ?thesis using r new_agent_books [of "{10}"] by auto
qed



end
