(* ===== verification/Scheduler_Utils.thy ===== *)
theory Scheduler_Utils
  imports Protocol
begin

text \<open>
  The text side of the Erlang scheduler (\<open>Scheduler_Erlang/scheduler_utils.erl\<close>): how it reads the
  \<open>NODES\<close> reply of the agent, picks a node and an amount per resource, and prints the
  \<open>JOB_REQUEST\<close>. A failed match, \<open>badarg\<close> or \<open>function_clause\<close>, which ends the Erlang process, is
  \<open>None\<close>. What \<open>rand:uniform\<close> returns is an argument. Integers of Erlang are \<open>int\<close>. The functions of
  the Erlang library that are used (\<open>string:trim\<close>, \<open>string:split\<close> with \<open>all\<close>, \<open>list_to_integer\<close>,
  \<open>integer_to_list\<close>, which is \<open>fmt_int\<close>) are modelled on strings of 8-bit characters.
\<close>

section \<open>The Erlang library\<close>

definition erl_space :: "char \<Rightarrow> bool" where
  "erl_space c \<longleftrightarrow> isspace c \<or> c = CHR 0x85"

definition string_trim :: "string \<Rightarrow> string" where
  "string_trim s = rev (dropWhile erl_space (rev (dropWhile erl_space s)))"

fun string_split :: "char \<Rightarrow> string \<Rightarrow> string list" where
  "string_split d [] = [[]]"
| "string_split d (c # cs) =
     (if c = d then [] # string_split d cs
      else (case string_split d cs of t # ts \<Rightarrow> (c # t) # ts | [] \<Rightarrow> [[c]]))"

definition digits_to_integer :: "string \<Rightarrow> int option" where
  "digits_to_integer s = (if s \<noteq> [] \<and> list_all isdigit s then Some (strtol_digits 0 s) else None)"

fun list_to_integer :: "string \<Rightarrow> int option" where
  "list_to_integer [] = None"
| "list_to_integer (c # cs) =
     (if c = CHR ''-'' then map_option uminus (digits_to_integer cs)
      else if c = CHR ''+'' then digits_to_integer cs
      else digits_to_integer (c # cs))"

section \<open>Reading the nodes\<close>

datatype resource_atom = Cpu | Mem | Gpu

instantiation resource_atom :: enum
begin

definition enum_resource_atom :: "resource_atom list" where
  "enum_resource_atom = [Cpu, Mem, Gpu]"

definition enum_all_resource_atom :: "(resource_atom \<Rightarrow> bool) \<Rightarrow> bool" where
  "enum_all_resource_atom P \<longleftrightarrow> P Cpu \<and> P Mem \<and> P Gpu"

definition enum_ex_resource_atom :: "(resource_atom \<Rightarrow> bool) \<Rightarrow> bool" where
  "enum_ex_resource_atom P \<longleftrightarrow> P Cpu \<or> P Mem \<or> P Gpu"

instance
proof
  show all: "(UNIV :: resource_atom set) = set enum_class.enum" using resource_atom.nchotomy by (auto simp: enum_resource_atom_def)
  show "distinct (enum_class.enum :: resource_atom list)" by (simp add: enum_resource_atom_def)
  show "enum_class.enum_all P = Ball UNIV P" "enum_class.enum_ex P = Bex UNIV P" for P :: "resource_atom \<Rightarrow> bool"
    unfolding all by (simp_all add: enum_resource_atom_def enum_all_resource_atom_def enum_ex_resource_atom_def)
qed

end

fun atom_to_list :: "resource_atom \<Rightarrow> string" where
  "atom_to_list Cpu = ''cpu''"
| "atom_to_list Mem = ''mem''"
| "atom_to_list Gpu = ''gpu''"

type_synonym erl_node = "string \<times> int \<times> (resource_atom \<times> int) list"
type_synonym erl_resource = "string \<times> int \<times> resource_atom \<times> int"

definition parse_node :: "string \<Rightarrow> erl_node option" where
  "parse_node node_str =
     (case string_split (CHR '':'') (string_trim node_str) of
        [ip, port_str, k_cpu, cpu_str, k_mem, mem_str, k_gpu, gpu_str] \<Rightarrow>
          if k_cpu = ''cpu'' \<and> k_mem = ''mem'' \<and> k_gpu = ''gpu'' then
            Option.bind (list_to_integer port_str) (\<lambda>port.
            Option.bind (list_to_integer cpu_str) (\<lambda>cpu.
            Option.bind (list_to_integer mem_str) (\<lambda>mem.
            Option.bind (list_to_integer gpu_str) (\<lambda>gpu.
              Some (ip, port, [(Cpu, cpu), (Mem, mem), (Gpu, gpu)])))))
          else None
      | _ \<Rightarrow> None)"

definition parse_nodes :: "string \<Rightarrow> erl_node list option" where
  "parse_nodes data =
     (let clean = string_trim data in
      if clean = [] then Some [] else those (map parse_node (string_split (CHR '';'') clean)))"

section \<open>Choosing resources\<close>

text \<open>
  \<open>k\<close> and \<open>n\<close> are what \<open>rand:uniform(length(Nodes))\<close> and \<open>rand:uniform(TypeStorage + 1)\<close> return;
  \<open>rand:uniform\<close> takes an argument of at least 1.
\<close>

definition pick_resource :: "nat \<Rightarrow> int \<Rightarrow> resource_atom \<Rightarrow> erl_node list \<Rightarrow> erl_resource option" where
  "pick_resource k n type nodes =
     (if length nodes < 1 \<or> k < 1 \<or> length nodes < k then None
      else
        (let (ip, port, resources) = nodes ! (k - 1) in
         case map_of resources type of
           None \<Rightarrow> None
         | Some storage \<Rightarrow> if storage + 1 < 1 then None else Some (ip, port, type, n - 1)))"

definition make_resources_for_job :: "(resource_atom \<Rightarrow> nat \<times> int) \<Rightarrow> erl_node list \<Rightarrow> erl_resource list option" where
  "make_resources_for_job rnd data =
     those (map (\<lambda>t. pick_resource (fst (rnd t)) (snd (rnd t)) t data) [Cpu, Mem, Gpu])"

section \<open>Printing the request\<close>

fun resource_to_string :: "erl_resource \<Rightarrow> string" where
  "resource_to_string (ip, port, type, quantity) =
     ''@'' @ ip @ '':'' @ atom_to_list type @ '':'' @ fmt_int quantity"

fun append_if_not_zero :: "string \<Rightarrow> erl_resource \<Rightarrow> string" where
  "append_if_not_zero base (ip, port, type, quantity) =
     (if quantity = 0 then base else base @ '' '' @ resource_to_string (ip, port, type, quantity))"

fun job_request_format :: "int \<Rightarrow> erl_resource list \<Rightarrow> string option" where
  "job_request_format job_id [cpu, mem, gpu] =
     (let base = ''JOB_REQUEST '' @ fmt_int job_id;
          base1 = append_if_not_zero base cpu;
          base2 = append_if_not_zero base1 mem;
          base3 = append_if_not_zero base2 gpu
      in Some (base3 @ [NEWLINE]))"
| "job_request_format job_id _ = None"

section \<open>Numbers and separators\<close>

text \<open>Printing over binary integers, for the evaluation of printed ids.\<close>

function int_digits :: "int \<Rightarrow> string" where
  "int_digits i = (if i < 10 then [char_of (48 + i)] else int_digits (i div 10) @ [char_of (48 + i mod 10)])"
  by pat_completeness auto

termination
  by (relation "measure nat") auto

declare int_digits.simps [simp del]

lemma char_of_digit_int: "char_of (48 + int n) = (char_of (48 + n) :: char)"
  using char_of_nat [of "48 + n", where 'a = int] by simp

lemma int_digits_nat: "int_digits (int n) = nat_digits n"
proof (induction n rule: nat_digits.induct)
  case (1 n)
  have "int n div 10 = int (n div 10)" "int n mod 10 = int (n mod 10)" by (simp_all add: zdiv_int zmod_int)
  then show ?case
    using 1 char_of_digit_int by (subst int_digits.simps, subst nat_digits.simps) simp
qed

lemma fmt_int_code [code]: "fmt_int i = (if i < 0 then CHR ''-'' # int_digits (- i) else int_digits i)"
  using int_digits_nat [of "nat i"] int_digits_nat [of "nat (- i)"] by (cases "i < 0") (simp_all add: fmt_int_def)

lemma strtol_digits_all: "strtol_digits 0 (nat_digits n) = int n"
  using strtol_digits_nat [of n "[]"] by simp

lemma list_to_integer_fmt: "list_to_integer (fmt_int i) = Some i"
proof -
  have d: "digits_to_integer (nat_digits n) = Some (int n)" for n
    using nat_digits_isdigit by (auto simp: digits_to_integer_def strtol_digits_all list_all_iff)
  show ?thesis
  proof (cases "i < 0")
    case True
    then show ?thesis using d [of "nat (- i)"] by (simp add: fmt_int_def)
  next
    case False
    obtain c cs where c: "nat_digits (nat i) = c # cs" by (cases "nat_digits (nat i)") auto
    then have "isdigit c" using nat_digits_isdigit [of c "nat i"] by simp
    then show ?thesis using False c d [of "nat i"] by (simp add: fmt_int_def not_space_digit)
  qed
qed

lemma string_split_nonempty: "string_split d s \<noteq> []"
  by (induction s) (auto split: list.split)

lemma string_split_field: "d \<notin> set t \<Longrightarrow> string_split d (t @ d # r) = t # string_split d r"
  by (induction t) auto

lemma string_split_last: "d \<notin> set t \<Longrightarrow> string_split d t = [t]"
  by (induction t) auto

lemma string_trim_id:
  assumes "s \<noteq> []" "\<not> erl_space (hd s)" "\<not> erl_space (last s)"
  shows "string_trim s = s"
proof -
  have "dropWhile erl_space s = s" using assms(1,2) by (cases s) auto
  moreover have "dropWhile erl_space (rev s) = rev s" using assms(1,3) by (cases s rule: rev_cases) auto
  ultimately show ?thesis by (simp add: string_trim_def)
qed

lemma string_trim_newline:
  assumes "s \<noteq> []" "\<not> erl_space (hd s)" "\<not> erl_space (last s)"
  shows "string_trim (s @ [NEWLINE]) = s"
proof -
  have "dropWhile erl_space (s @ [NEWLINE]) = s @ [NEWLINE]" using assms(1,2) by (cases s) auto
  moreover have "erl_space NEWLINE" by (simp add: erl_space_def isspace_def)
  moreover have "dropWhile erl_space (rev s) = rev s" using assms(1,3) by (cases s rule: rev_cases) auto
  ultimately show ?thesis by (simp add: string_trim_def)
qed

section \<open>Addresses and nodes\<close>

lemma dotted_chars: "c \<in> set (inet_ntop ip) \<Longrightarrow> isdigit c \<or> c = CHR ''.''"
  by (auto simp: inet_ntop_def dest: nat_digits_isdigit)

lemma octet_length: "length (nat_digits (unat (x AND (255 :: cint)))) \<le> 3"
proof (rule nat_digits_length)
  have "x AND 255 \<le> 255" by (rule word_and_le1)
  then have "unat (x AND 255) \<le> 255" by (simp add: word_le_nat_alt)
  then show "unat (x AND 255) < 10 ^ 3" by simp
qed simp

lemma inet_ntop_ok: "inet_ntop ip \<noteq> []" "length (inet_ntop ip) < 16"
  using octet_length [of ip] octet_length [of "drop_bit 8 ip"] octet_length [of "drop_bit 16 ip"]
    octet_length [of "drop_bit 24 ip"]
  by (simp_all add: inet_ntop_def)

lemma plain_char: "isdigit c \<or> c = CHR ''.'' \<or> c = CHR ''-'' \<Longrightarrow> c \<noteq> CHR '':'' \<and> c \<noteq> CHR '';'' \<and> c \<notin> set token_delims"
  by (auto simp: isdigit_def token_delims_def)

lemma dotted_plain: "CHR '':'' \<notin> set (inet_ntop ip)" "CHR '';'' \<notin> set (inet_ntop ip)" "token_ok (inet_ntop ip)"
  using dotted_chars [of _ ip] plain_char inet_ntop_ok(1) [of ip] by (auto simp: token_ok_def)

lemma number_plain: "CHR '':'' \<notin> set (fmt_d w)" "CHR '';'' \<notin> set (fmt_d w)"
  using fmt_d_chars [of _ w] plain_char by auto

lemma dest_ok_node: "dest_ok (inet_ntop ip) (atom_to_list t)"
  using dotted_plain [of ip] inet_ntop_ok [of ip]
  by (cases t) (simp_all add: dest_ok_def type_ok_def token_ok_def token_delims_def)

definition erl_node_of :: "received_node \<Rightarrow> erl_node" where
  "erl_node_of n =
     (inet_ntop (node_ip n), sint (node_port n),
      [(Cpu, sint (node_cpu n)), (Mem, sint (node_mem n)), (Gpu, sint (node_gpu n))])"

lemma node_text_ends:
  "node_text n \<noteq> []" "\<not> erl_space (hd (node_text n))" "\<not> erl_space (last (node_text n))"
proof -
  have digit: "isdigit c \<or> c = CHR ''.'' \<or> c = CHR ''-'' \<Longrightarrow> \<not> erl_space c" for c
    by (auto simp: erl_space_def isspace_def isdigit_def)
  have "hd (node_text n) = hd (inet_ntop (node_ip n))" "last (node_text n) = last (fmt_d (node_gpu n))"
    using inet_ntop_ok(1) [of "node_ip n"] by (simp_all add: node_text_def)
  then show "\<not> erl_space (hd (node_text n))" "\<not> erl_space (last (node_text n))"
    using digit dotted_chars [of "hd (inet_ntop (node_ip n))" "node_ip n"] inet_ntop_ok(1) [of "node_ip n"]
      fmt_d_chars [of "last (fmt_d (node_gpu n))" "node_gpu n"] by auto
  show "node_text n \<noteq> []" by (simp add: node_text_def)
qed

lemma node_text_length: "length (node_text n) < 100"
  using inet_ntop_ok(2) [of "node_ip n"] fmt_d_length [of "node_port n"] fmt_d_length [of "node_cpu n"]
    fmt_d_length [of "node_mem n"] fmt_d_length [of "node_gpu n"]
  by (simp add: node_text_def)

lemma node_text_plain: "CHR '';'' \<notin> set (node_text n)"
  using dotted_plain [of "node_ip n"] number_plain by (auto simp: node_text_def)

fun announced :: "resource_atom \<Rightarrow> received_node \<Rightarrow> int" where
  "announced Cpu n = sint (node_cpu n)"
| "announced Mem n = sint (node_mem n)"
| "announced Gpu n = sint (node_gpu n)"

lemma parse_node_text: "parse_node (node_text n) = Some (erl_node_of n)"
proof -
  have "string_split (CHR '':'') (node_text n) =
      [inet_ntop (node_ip n), fmt_d (node_port n), ''cpu'', fmt_d (node_cpu n), ''mem'', fmt_d (node_mem n),
       ''gpu'', fmt_d (node_gpu n)]"
    using string_split_field [of "CHR '':''" "''cpu''"] string_split_field [of "CHR '':''" "''mem''"]
      string_split_field [of "CHR '':''" "''gpu''"] number_plain(1)
    by (simp add: node_text_def string_split_field string_split_last dotted_plain)
  then show ?thesis
    using string_trim_id [OF node_text_ends] by (simp add: parse_node_def fmt_d_def list_to_integer_fmt erl_node_of_def)
qed

lemma split_nodes: "string_split (CHR '';'') (nodes_body True (n # ns)) = map node_text (n # ns)"
proof (induction ns arbitrary: n)
  case Nil
  then show ?case using string_split_last [OF node_text_plain, of n] by simp
next
  case (Cons m ns)
  then show ?case using string_split_field [OF node_text_plain, of n "node_text m @ nodes_body False ns"] by simp
qed

lemma nodes_body_ends:
  "nodes_body True (n # ns) \<noteq> [] \<and> \<not> erl_space (hd (nodes_body True (n # ns))) \<and>
   \<not> erl_space (last (nodes_body True (n # ns)))"
proof -
  have "last (node_text n @ nodes_body False ns) = last (node_text (last (n # ns)))"
  proof (induction ns arbitrary: n)
    case (Cons m ns)
    then show ?case using node_text_ends(1) [of m] by (simp add: last_append)
  qed simp
  then show ?thesis using node_text_ends by simp
qed

lemma those_Some: "those (map (\<lambda>x. Some (f x)) xs) = Some (map f xs)"
  by (induction xs) simp_all

lemma parse_nodes_body: "parse_nodes (nodes_body True ns @ [NEWLINE]) = Some (map erl_node_of ns)"
proof (cases ns)
  case Nil
  have "erl_space NEWLINE" by (simp add: erl_space_def isspace_def)
  then show ?thesis using Nil by (simp add: parse_nodes_def string_trim_def)
next
  case (Cons n ms)
  have "string_trim (nodes_body True ns @ [NEWLINE]) = nodes_body True ns"
    using nodes_body_ends [of n ms] Cons by (intro string_trim_newline) simp_all
  then show ?thesis
    using nodes_body_ends [of n ms] split_nodes [of n ms] Cons those_Some [of erl_node_of "n # ms"]
    by (simp add: parse_nodes_def parse_node_text o_def del: nodes_body.simps)
qed

section \<open>The request as the agent's words\<close>

definition asked :: "(resource_atom \<times> received_node \<times> cint) list \<Rightarrow> (string \<times> string \<times> cint) list" where
  "asked picks =
     map (\<lambda>(t, n, a). (inet_ntop (node_ip n), atom_to_list t, a)) (filter (\<lambda>(t, n, a). a \<noteq> 0) picks)"

definition erl_pick :: "resource_atom \<times> received_node \<times> cint \<Rightarrow> erl_resource" where
  "erl_pick p = (case p of (t, n, a) \<Rightarrow> (inet_ntop (node_ip n), sint (node_port n), t, sint a))"

lemma append_pick:
  "append_if_not_zero base (erl_pick (t, n, a)) =
     base @ (if a = 0 then [] else CHR '' '' # dest_text (inet_ntop (node_ip n)) (atom_to_list t) a)"
  by (simp add: erl_pick_def dest_text_def fmt_d_def signed_eq_0_iff)

lemma job_request_format_words:
  "job_request_format (sint i) (map erl_pick [c, m, g]) = Some (job_request_text i (asked [c, m, g]))"
  by (cases c; cases m; cases g)
    (auto simp: Let_def append_pick job_request_text_def asked_def fmt_d_def)

lemma words_line_length: "length (words_line ts) \<le> Suc (sum_list (map (\<lambda>t. Suc (length t)) ts))"
  by (induction ts rule: words_line.induct) simp_all

lemma asked_ok: "\<forall>(ip, res, amount) \<in> set (asked ps). dest_ok ip res"
  by (auto simp: asked_def dest_ok_node)

lemma asked_length: "length (asked ps) \<le> length ps"
  by (simp add: asked_def)

lemma sum_list_le_bound: "\<forall>x \<in> set xs. f x \<le> k \<Longrightarrow> sum_list (map f xs) \<le> length xs * (k :: nat)"
  by (induction xs) auto

lemma request_fits:
  assumes "\<forall>(ip, res, amount) \<in> set ds. dest_ok ip res" "length ds \<le> 3"
  shows "length (job_request_text i ds) < BUFFER_LEN"
proof -
  let ?dests = "map (\<lambda>(ip, res, amount). dest_text ip res amount) ds"
  have "\<forall>d \<in> set ?dests. Suc (length d) \<le> 37" using assms(1) dest_text_length by auto
  then have "sum_list (map (\<lambda>t. Suc (length t)) ?dests) \<le> length ?dests * 37"
    by (rule sum_list_le_bound)
  then show ?thesis
    using words_line_length [of "''JOB_REQUEST'' # fmt_d i # ?dests"] fmt_d_length [of i] assms(2)
    by (simp add: job_request_text_def BUFFER_LEN_def)
qed

lemma resolve_announced:
  assumes "nodes_ok (table_nodes st)" "n \<in> set (table_data (table_nodes st))"
    "os_inet_addr st (inet_ntop (node_ip n)) = node_ip n"
  shows "resolve_port st (inet_ntop (node_ip n)) = node_port n"
proof -
  have "table_map node_ip (table_nodes st) (node_ip n) = Some n"
    using table_map_eq_Some [OF nodes.ok_facts(7) [OF assms(1)]] assms(2) by simp
  then show ?thesis using assms(3) nodes.find_map [OF assms(1)] by (simp add: resolve_port_def)
qed

lemma parse_asked:
  assumes "\<forall>(t, n, a) \<in> set ps. resolve_port st (inet_ntop (node_ip n)) = node_port n"
  shows "parse_dests st (map (\<lambda>(ip, res, amount). dest_text ip res amount) (asked ps)) =
    map (\<lambda>(t, n, a). \<lparr>pr_type = atom_to_list t, pr_amount = a, pr_dest_ip = inet_ntop (node_ip n),
      pr_dest_port = node_port n, pr_provider_fd = -1\<rparr>) (filter (\<lambda>(t, n, a). a \<noteq> 0) ps)"
  unfolding parse_dests_texts [OF asked_ok] using assms by (auto simp: asked_def)

section \<open>What is picked\<close>

text \<open>The numbers that \<open>rand:uniform\<close> may return, and the node and amount they select.\<close>

definition rnd_ok :: "(resource_atom \<Rightarrow> nat \<times> int) \<Rightarrow> received_node list \<Rightarrow> bool" where
  "rnd_ok rnd ns \<longleftrightarrow>
     (\<forall>t. 1 \<le> fst (rnd t) \<and> fst (rnd t) \<le> length ns \<and>
          1 \<le> snd (rnd t) \<and> snd (rnd t) \<le> announced t (ns ! (fst (rnd t) - 1)) + 1)"

definition chosen :: "(resource_atom \<Rightarrow> nat \<times> int) \<Rightarrow> received_node list \<Rightarrow> resource_atom \<Rightarrow>
    resource_atom \<times> received_node \<times> cint" where
  "chosen rnd ns t = (t, ns ! (fst (rnd t) - 1), word_of_int (snd (rnd t) - 1))"

lemma sint_of_nonneg: "0 \<le> x \<Longrightarrow> x < 2147483648 \<Longrightarrow> sint (word_of_int x :: cint) = x"
  by (simp add: sint_sbintrunc' signed_take_bit_int_eq_self)

lemma announced_max: "announced t n < 2147483648"
  using sint32_range by (cases t) auto

lemma pick_resource_chosen:
  assumes "rnd_ok rnd ns"
  shows "pick_resource (fst (rnd t)) (snd (rnd t)) t (map erl_node_of ns) = Some (erl_pick (chosen rnd ns t))"
proof -
  let ?n = "ns ! (fst (rnd t) - 1)"
  have k: "fst (rnd t) - 1 < length ns" "1 \<le> fst (rnd t)" "fst (rnd t) \<le> length ns"
    and a: "1 \<le> snd (rnd t)" "snd (rnd t) \<le> announced t ?n + 1"
    using assms by (auto simp: rnd_ok_def dest!: spec [of _ t])
  have "map_of (snd (snd (erl_node_of ?n))) t = Some (announced t ?n)"
    by (cases t) (simp_all add: erl_node_of_def)
  moreover have "sint (word_of_int (snd (rnd t) - 1) :: cint) = snd (rnd t) - 1"
    using a announced_max [of t ?n] by (intro sint_of_nonneg) simp_all
  ultimately show ?thesis
    using k a by (auto simp: pick_resource_def Let_def erl_node_of_def erl_pick_def chosen_def split: prod.split)
qed

lemma make_resources_chosen:
  "rnd_ok rnd ns \<Longrightarrow>
   make_resources_for_job rnd (map erl_node_of ns) = Some (map (\<lambda>t. erl_pick (chosen rnd ns t)) [Cpu, Mem, Gpu])"
  by (simp add: make_resources_for_job_def pick_resource_chosen)

lemma chosen_member: "rnd_ok rnd ns \<Longrightarrow> fst (snd (chosen rnd ns t)) \<in> set ns"
  by (auto simp: rnd_ok_def chosen_def dest!: spec [of _ t])

text \<open>A peer with two free CPUs at address 10.0.0.1 (as \<open>s_addr\<close> reads on a little-endian machine).\<close>

definition one_peer :: received_node where
  "one_peer = \<lparr>node_ip = 0x0100000A, node_port = 4201, node_gpu = 0, node_mem = 0, node_cpu = 2, node_time = 0\<rparr>"

definition agent_with_peer :: agent where
  "agent_with_peer = new_agent\<lparr>table_nodes := tablahash_insert create_table_nodes one_peer, os_inet_addr := \<lambda>_. 0x0100000A\<rparr>"

lemma agent_with_peer_nodes:
  "nodes_ok (table_nodes agent_with_peer)" "table_data (table_nodes agent_with_peer) = [one_peer]"
proof -
  show "nodes_ok (table_nodes agent_with_peer)"
    by (simp add: agent_with_peer_def nodes.insert_ok create_tables_ok)
  show "table_data (table_nodes agent_with_peer) = [one_peer]" by code_simp
qed

section \<open>Properties\<close>

text \<open>
  C29. The scheduler reads the \<open>NODES\<close> reply back: when the reply fits its buffer, what follows the
  word \<open>NODES\<close> is parsed without an error into the known peers, in order, each with its dotted
  address, port and free amounts.
\<close>

theorem scheduler_reads_the_nodes:
  assumes "nodes_ok t" "length (nodes_body True (table_data t)) \<le> 8184"
  shows "\<exists>rest. get_nodes_instance t = ''NODES '' @ rest \<and> parse_nodes rest = Some (map erl_node_of (table_data t))"
  using assms parse_nodes_body [of "table_data t"]
  by (simp add: get_nodes_instance_text snprintf_fits NODES_BUFFER_def)

theorem scheduler_reads_the_nodes_witness:
  "\<exists>rest. get_nodes_instance (table_nodes agent_with_peer) = ''NODES '' @ rest \<and>
     parse_nodes rest = Some [erl_node_of one_peer]"
proof -
  have "length (nodes_body True [one_peer]) \<le> 8184" using node_text_length [of one_peer] by simp
  then show ?thesis
    using scheduler_reads_the_nodes [OF agent_with_peer_nodes(1)] by (simp add: agent_with_peer_nodes(2))
qed

text \<open>
  C28. A job of the scheduler is the job the agent starts: from the peers the agent reported,
  with any numbers \<open>rand:uniform\<close> may return, the scheduler picks a node and an amount per resource
  and prints a request; the agent that reads it creates a job whose pending requests are the picks
  that are not zero, in the fixed order CPU, memory, GPU, each at the address and the port the
  node announced. When all are zero the job is rejected. \<open>inet_addr\<close> is taken to invert the
  dotted notation of the known addresses.
\<close>

theorem scheduler_job_is_started:
  assumes "nodes_ok (table_nodes st)" "rnd_ok rnd (table_data (table_nodes st))"
    "\<forall>n \<in> set (table_data (table_nodes st)). os_inet_addr st (inet_ntop (node_ip n)) = node_ip n"
  shows "\<exists>picks line. make_resources_for_job rnd (map erl_node_of (table_data (table_nodes st))) = Some picks \<and>
    job_request_format (sint i) picks = Some line \<and>
    erlang_to_C st line now =
      (let reqs = map (\<lambda>(t, n, a). \<lparr>pr_type = atom_to_list t, pr_amount = a, pr_dest_ip = inet_ntop (node_ip n),
             pr_dest_port = node_port n, pr_provider_fd = -1\<rparr>)
             (filter (\<lambda>(t, n, a). a \<noteq> 0) (map (chosen rnd (table_data (table_nodes st))) [Cpu, Mem, Gpu]))
       in if reqs = [] then Some (C_to_erlang st ''rejected'' (fmt_d i))
          else ask_for_next_resource
            (st\<lparr>table_localjobs := tablahash_insert (table_localjobs st)
                  \<lparr>lj_self = fresh_job st, lj_job_id = i, lj_erlang_socket = erlangfd st, lj_origin_socket = -1,
                   lj_next_req = reqs, lj_granted_reqs = [], lj_timer = now\<rparr>,
                fresh_job := Suc (fresh_job st)\<rparr>) (fresh_job st))"
proof -
  let ?ps = "map (chosen rnd (table_data (table_nodes st))) [Cpu, Mem, Gpu]"
  let ?reqs = "map (\<lambda>(t, n, a). \<lparr>pr_type = atom_to_list t, pr_amount = a, pr_dest_ip = inet_ntop (node_ip n),
      pr_dest_port = node_port n, pr_provider_fd = -1\<rparr>) (filter (\<lambda>(t, n, a). a \<noteq> 0) ?ps)"
  have tokens: "get_token (strncpy_z BUFFER_LEN (job_request_text i (asked ?ps))) 32 =
      ''JOB_REQUEST'' # fmt_d i # map (\<lambda>(ip, res, amount). dest_text ip res amount) (asked ?ps)"
    using asked_length [of ?ps] by (intro job_request_tokens asked_ok request_fits) simp_all
  have "resolve_port st (inet_ntop (node_ip n)) = node_port n" if m: "(t, n, a) \<in> set ?ps" for t n a
    using m chosen_member [OF assms(2)] assms(3)
    by (intro resolve_announced [OF assms(1)]) (auto simp: prod_eq_iff)
  then have "parse_dests st (map (\<lambda>(ip, res, amount). dest_text ip res amount) (asked ?ps)) = ?reqs"
    by (intro parse_asked) blast
  moreover have "asked ?ps = [] \<longleftrightarrow> ?reqs = []" by (simp add: asked_def)
  ultimately have "erlang_to_C st (job_request_text i (asked ?ps)) now =
      (if ?reqs = [] then Some (C_to_erlang st ''rejected'' (fmt_d i))
       else ask_for_next_resource
            (st\<lparr>table_localjobs := tablahash_insert (table_localjobs st)
                  \<lparr>lj_self = fresh_job st, lj_job_id = i, lj_erlang_socket = erlangfd st, lj_origin_socket = -1,
                   lj_next_req = ?reqs, lj_granted_reqs = [], lj_timer = now\<rparr>,
                fresh_job := Suc (fresh_job st)\<rparr>) (fresh_job st))"
    unfolding erlang_to_C_def tokens by (simp add: job_request_def Let_def)
  then show ?thesis
    using job_request_format_words make_resources_chosen [OF assms(2)] by (simp add: Let_def)
qed

theorem scheduler_job_is_started_witness:
  "\<exists>picks line. make_resources_for_job (\<lambda>t. if t = Cpu then (1, 3) else (1, 1)) [erl_node_of one_peer] = Some picks \<and>
     job_request_format 7 picks = Some line \<and>
     erlang_to_C agent_with_peer line 0 =
       ask_for_next_resource
         (agent_with_peer\<lparr>table_localjobs := tablahash_insert (table_localjobs agent_with_peer)
            \<lparr>lj_self = 0, lj_job_id = 7, lj_erlang_socket = -1, lj_origin_socket = -1,
             lj_next_req = [\<lparr>pr_type = ''cpu'', pr_amount = 2, pr_dest_ip = inet_ntop 0x0100000A,
               pr_dest_port = 4201, pr_provider_fd = -1\<rparr>],
             lj_granted_reqs = [], lj_timer = 0\<rparr>, fresh_job := 1\<rparr>) 0"
proof -
  let ?rnd = "\<lambda>t. if t = Cpu then (1 :: nat, 3) else (1, 1 :: int)"
  have "rnd_ok ?rnd [one_peer]" by code_simp
  then have r: "rnd_ok ?rnd (table_data (table_nodes agent_with_peer))" by (simp add: agent_with_peer_nodes)
  have i: "\<forall>n \<in> set (table_data (table_nodes agent_with_peer)).
      os_inet_addr agent_with_peer (inet_ntop (node_ip n)) = node_ip n"
    by (simp add: agent_with_peer_nodes(2)) (simp add: agent_with_peer_def one_peer_def)
  have "fresh_job agent_with_peer = 0" "erlangfd agent_with_peer = -1"
    by (simp_all add: agent_with_peer_def new_agent_def main_init_def)
  then show ?thesis
    using scheduler_job_is_started [OF agent_with_peer_nodes(1) r i, of 7 0]
    by (simp add: agent_with_peer_nodes(2) chosen_def) (simp add: one_peer_def)
qed

end
