(* ===== verification/Scheduler.thy ===== *)
theory Scheduler
  imports Scheduler_Utils "HOL-Library.AList"
begin

text \<open>
  The processes of the Erlang scheduler (\<open>Scheduler_Erlang/scheduler.erl\<close>): the coordinator, which
  owns the socket to the agent, the generator, and one process per job. Every process has a
  mailbox; \<open>receive\<close> takes the first message that some clause matches and leaves the others in
  place. A process that sleeps or waits for a time simply may take its next step at any moment.
  The scheduler runs on one node, so a message that is sent is in the mailbox of its receiver.

  A failed match, \<open>badarg\<close> or \<open>badkey\<close> ends the process that raises it (the processes are spawned,
  not linked). What \<open>rand:uniform\<close> returns and what arrives on the socket are arguments of the steps;
  they are not restricted, which only adds behaviours.
\<close>

section \<open>Messages and processes\<close>

datatype pid = Gen | Job nat

datatype proc_msg = Granted | Denied | Timeout | Cancelled | Nodes string

datatype coord_msg =
    Register_and_request int pid string
  | Status int
  | Finished int
  | Get_nodes pid
  | Tcp string
  | Tcp_closed
  | Tcp_error

datatype log_entry = Started int | Job_logged string int | Connection_closed string

datatype effect = Send string | To pid proc_msg | Log log_entry

record coordinator_state =
  jobs_map :: "(int \<times> pid) list"
  gen_pid :: "pid option"

datatype coord_next = Loop coordinator_state | Ended | Crashed

fun receive_first :: "('m \<Rightarrow> bool) \<Rightarrow> 'm list \<Rightarrow> ('m \<times> 'm list) option" where
  "receive_first matches [] = None"
| "receive_first matches (m # ms) =
     (if matches m then Some (m, ms) else map_option (map_prod id (Cons m)) (receive_first matches ms))"

fun strip_prefix :: "string \<Rightarrow> string \<Rightarrow> string option" where
  "strip_prefix [] s = Some s"
| "strip_prefix (p # ps) [] = None"
| "strip_prefix (p # ps) (c # cs) = (if p = c then strip_prefix ps cs else None)"

section \<open>The coordinator\<close>

definition msg_to_job :: "(int \<times> pid) list \<Rightarrow> string \<Rightarrow> proc_msg \<Rightarrow> effect option" where
  "msg_to_job jobs rest msg =
     Option.bind (list_to_integer (string_trim rest)) (\<lambda>job_id.
       Option.bind (map_of jobs job_id) (\<lambda>pid_job. Some (To pid_job msg)))"

definition job_reply :: "coordinator_state \<Rightarrow> string \<Rightarrow> string \<Rightarrow> proc_msg \<Rightarrow> effect list \<times> coord_next" where
  "job_reply c state rest msg =
     (case list_to_integer (string_trim rest) of
        None \<Rightarrow> ([], Crashed)
      | Some job_id \<Rightarrow>
          (case msg_to_job (jobs_map c) rest msg of
             None \<Rightarrow> ([Log (Job_logged state job_id)], Crashed)
           | Some e \<Rightarrow> ([Log (Job_logged state job_id), e], Loop c)))"

definition status_line :: "int \<Rightarrow> string" where
  "status_line job_id = ''JOB_STATUS '' @ fmt_int job_id @ [NEWLINE]"

definition release_line :: "int \<Rightarrow> string" where
  "release_line job_id = ''JOB_RELEASE '' @ fmt_int job_id @ [NEWLINE]"

definition get_nodes_line :: string where
  "get_nodes_line = ''GET_NODES'' @ [NEWLINE]"

definition cancel_all :: "(int \<times> pid) list \<Rightarrow> effect list" where
  "cancel_all jobs = Log (Connection_closed ''all_jobs_cancelled'') # map (\<lambda>(job_id, pid_job). To pid_job Cancelled) jobs"

fun coordinator_accepts :: "coord_msg \<Rightarrow> bool" where
  "coordinator_accepts (Tcp line) =
     list_ex (\<lambda>p. strip_prefix p line \<noteq> None) [''JOB_GRANTED '', ''JOB_DENIED '', ''JOB_TIMEOUT '', ''WAITING '', ''NODES '']"
| "coordinator_accepts _ = True"

fun coordinator_loop :: "coordinator_state \<Rightarrow> coord_msg \<Rightarrow> effect list \<times> coord_next" where
  "coordinator_loop c (Register_and_request job_id pid_job message) =
     ([Send message], Loop (c\<lparr>jobs_map := AList.update job_id pid_job (jobs_map c)\<rparr>))"
| "coordinator_loop c (Status job_id) = ([Send (status_line job_id)], Loop c)"
| "coordinator_loop c (Finished job_id) =
     ([Send (release_line job_id)], Loop (c\<lparr>jobs_map := AList.delete job_id (jobs_map c)\<rparr>))"
| "coordinator_loop c (Get_nodes pid) = ([Send get_nodes_line], Loop (c\<lparr>gen_pid := Some pid\<rparr>))"
| "coordinator_loop c (Tcp line) =
     (case strip_prefix ''JOB_GRANTED '' line of Some rest \<Rightarrow> job_reply c ''granted'' rest Granted | None \<Rightarrow>
     (case strip_prefix ''JOB_DENIED '' line of Some rest \<Rightarrow> job_reply c ''denied'' rest Denied | None \<Rightarrow>
     (case strip_prefix ''JOB_TIMEOUT '' line of Some rest \<Rightarrow> job_reply c ''timeout'' rest Timeout | None \<Rightarrow>
     (case strip_prefix ''WAITING '' line of Some rest \<Rightarrow> ([], Loop c) | None \<Rightarrow>
     (case strip_prefix ''NODES '' line of
        Some rest \<Rightarrow>
          (case gen_pid c of None \<Rightarrow> ([], Crashed) | Some pid \<Rightarrow> ([To pid (Nodes rest)], Loop (c\<lparr>gen_pid := None\<rparr>)))
      | None \<Rightarrow> ([], Loop c))))))"
| "coordinator_loop c Tcp_closed = (cancel_all (jobs_map c), Ended)"
| "coordinator_loop c Tcp_error = (cancel_all (jobs_map c), Ended)"

section \<open>Jobs and the generator\<close>

datatype job_state = Job_start | Job_wait | Job_work | Job_relaunch | Job_dead

record job_proc =
  jp_id :: int
  jp_resources :: "erl_resource list"
  jp_state :: job_state
  jp_mail :: "proc_msg list"

datatype gen_state = Gen_start | Gen_wait | Gen_sleep | Gen_dead

record sched =
  s_coord :: coord_next
  s_mail :: "coord_msg list"
  s_jobs :: "job_proc list"
  s_gen :: gen_state
  s_gen_id :: int
  s_gen_mail :: "proc_msg list"
  s_wire :: "string list"
  s_heard :: "string list"
  s_log :: "log_entry list"

fun is_nodes :: "proc_msg \<Rightarrow> bool" where
  "is_nodes (Nodes _) = True"
| "is_nodes _ = False"

definition set_job :: "nat \<Rightarrow> job_proc \<Rightarrow> sched \<Rightarrow> sched" where
  "set_job k j s = s\<lparr>s_jobs := (s_jobs s)[k := j]\<rparr>"

definition tell_coordinator :: "coord_msg \<Rightarrow> sched \<Rightarrow> sched" where
  "tell_coordinator m s = s\<lparr>s_mail := s_mail s @ [m]\<rparr>"

text \<open>\<open>job\<close>: prints the request, sends it to the coordinator and enters \<open>job_loop\<close>.\<close>

definition job :: "nat \<Rightarrow> job_proc \<Rightarrow> sched \<Rightarrow> sched" where
  "job k j s =
     (case job_request_format (jp_id j) (jp_resources j) of
        None \<Rightarrow> set_job k (j\<lparr>jp_state := Job_dead\<rparr>) s
      | Some message \<Rightarrow>
          tell_coordinator (Register_and_request (jp_id j) (Job k) message) (set_job k (j\<lparr>jp_state := Job_wait\<rparr>) s))"

text \<open>The \<open>receive\<close> of \<open>job_loop\<close>: all four messages are matched, a \<open>Nodes\<close> message would not be.\<close>

definition job_loop :: "nat \<Rightarrow> job_proc \<Rightarrow> sched \<Rightarrow> sched option" where
  "job_loop k j s =
     (case receive_first (Not \<circ> is_nodes) (jp_mail j) of
        None \<Rightarrow> None
      | Some (m, mail) \<Rightarrow>
          Some (set_job k
            (j\<lparr>jp_mail := mail,
               jp_state := (case m of Granted \<Rightarrow> Job_work | Timeout \<Rightarrow> Job_relaunch | _ \<Rightarrow> Job_dead)\<rparr>) s))"

text \<open>The \<open>after\<close> branch: no message for 15 seconds, a heart beat is sent.\<close>

definition job_loop_after :: "nat \<Rightarrow> job_proc \<Rightarrow> sched \<Rightarrow> sched option" where
  "job_loop_after k j s =
     (if jp_state j = Job_wait \<and> receive_first (Not \<circ> is_nodes) (jp_mail j) = None
      then Some (tell_coordinator (Status (jp_id j)) s) else None)"

fun job_step :: "nat \<Rightarrow> job_proc \<Rightarrow> sched \<Rightarrow> sched option" where
  "job_step k j s =
     (case jp_state j of
        Job_start \<Rightarrow> Some (job k j s)
      | Job_wait \<Rightarrow> job_loop k j s
      | Job_work \<Rightarrow> Some (tell_coordinator (Finished (jp_id j)) (set_job k (j\<lparr>jp_state := Job_dead\<rparr>) s))
      | Job_relaunch \<Rightarrow> Some (set_job k (j\<lparr>jp_state := Job_start\<rparr>) s)
      | Job_dead \<Rightarrow> None)"

definition spawn_job :: "erl_resource list \<Rightarrow> sched \<Rightarrow> sched" where
  "spawn_job resources s =
     s\<lparr>s_jobs := s_jobs s @ [\<lparr>jp_id = s_gen_id s, jp_resources = resources, jp_state = Job_start, jp_mail = []\<rparr>],
       s_gen_id := s_gen_id s + 1, s_gen := Gen_sleep\<rparr>"

definition job_generator :: "(resource_atom \<Rightarrow> nat \<times> int) \<Rightarrow> sched \<Rightarrow> sched option" where
  "job_generator rnd s =
     (case s_gen s of
        Gen_start \<Rightarrow> Some (tell_coordinator (Get_nodes Gen) (s\<lparr>s_gen := Gen_wait\<rparr>))
      | Gen_wait \<Rightarrow>
          (case receive_first is_nodes (s_gen_mail s) of
             Some (Nodes nodes, mail) \<Rightarrow>
               (let s1 = s\<lparr>s_gen_mail := mail\<rparr> in
                Some (case parse_nodes nodes of
                   None \<Rightarrow> s1\<lparr>s_gen := Gen_dead\<rparr>
                 | Some [] \<Rightarrow> s1\<lparr>s_gen := Gen_sleep\<rparr>
                 | Some parsed_nodes \<Rightarrow>
                     (case make_resources_for_job rnd parsed_nodes of
                        None \<Rightarrow> s1\<lparr>s_gen := Gen_dead\<rparr>
                      | Some resources \<Rightarrow> spawn_job resources s1)))
           | _ \<Rightarrow> None)
      | Gen_sleep \<Rightarrow> Some (s\<lparr>s_gen := Gen_start\<rparr>)
      | Gen_dead \<Rightarrow> None)"

section \<open>The system\<close>

definition mail_job :: "proc_msg \<Rightarrow> job_proc \<Rightarrow> job_proc" where
  "mail_job m j = j\<lparr>jp_mail := jp_mail j @ [m]\<rparr>"

fun perform :: "effect \<Rightarrow> sched \<Rightarrow> sched" where
  "perform (Send line) s = s\<lparr>s_wire := s_wire s @ [line]\<rparr>"
| "perform (To Gen m) s = s\<lparr>s_gen_mail := s_gen_mail s @ [m]\<rparr>"
| "perform (To (Job k) m) s = (if k < length (s_jobs s) then set_job k (mail_job m (s_jobs s ! k)) s else s)"
| "perform (Log entry) s = s\<lparr>s_log := s_log s @ [entry]\<rparr>"

definition coordinator_step :: "sched \<Rightarrow> sched option" where
  "coordinator_step s =
     (case s_coord s of
        Loop c \<Rightarrow>
          (case receive_first coordinator_accepts (s_mail s) of
             None \<Rightarrow> None
           | Some (m, mail) \<Rightarrow>
               (let (effects, c') = coordinator_loop c m in
                Some (fold perform effects (s\<lparr>s_mail := mail, s_coord := c'\<rparr>))))
      | _ \<Rightarrow> None)"

text \<open>What may happen next: a process takes a step, or something happens to the socket.\<close>

datatype sched_action =
    Coordinator
  | Job_runs nat
  | Job_beats nat
  | Generator "resource_atom \<Rightarrow> nat \<times> int"
  | Arrives string
  | Close
  | Socket_error

fun sched_step :: "sched_action \<Rightarrow> sched \<Rightarrow> sched option" where
  "sched_step Coordinator s = coordinator_step s"
| "sched_step (Job_runs k) s = (if k < length (s_jobs s) then job_step k (s_jobs s ! k) s else None)"
| "sched_step (Job_beats k) s = (if k < length (s_jobs s) then job_loop_after k (s_jobs s ! k) s else None)"
| "sched_step (Generator rnd) s = job_generator rnd s"
| "sched_step (Arrives line) s = Some (tell_coordinator (Tcp line) (s\<lparr>s_heard := s_heard s @ [line]\<rparr>))"
| "sched_step Close s = Some (tell_coordinator Tcp_closed s)"
| "sched_step Socket_error s = Some (tell_coordinator Tcp_error s)"

fun sched_run :: "sched_action list \<Rightarrow> sched \<Rightarrow> sched option" where
  "sched_run [] s = Some s"
| "sched_run (a # as) s = Option.bind (sched_step a s) (sched_run as)"

definition coordinator :: sched where
  "coordinator =
     \<lparr>s_coord = Loop \<lparr>jobs_map = [], gen_pid = None\<rparr>, s_mail = [], s_jobs = [], s_gen = Gen_start,
      s_gen_id = 1001, s_gen_mail = [], s_wire = [], s_heard = [], s_log = [Started 4200]\<rparr>"

inductive sched_reachable :: "sched \<Rightarrow> bool" where
  start: "sched_reachable coordinator"
| step: "sched_reachable s \<Longrightarrow> sched_step a s = Some s' \<Longrightarrow> sched_reachable s'"

lemma sched_run_reachable: "sched_run as s = Some s' \<Longrightarrow> sched_reachable s \<Longrightarrow> sched_reachable s'"
  by (induction as arbitrary: s) (auto simp: bind_eq_Some_conv intro: sched_reachable.step)

section \<open>Lines and ids\<close>

text \<open>The lines of the protocol that speak of job \<open>i\<close>.\<close>

definition is_request :: "int \<Rightarrow> string \<Rightarrow> bool" where
  "is_request i line \<longleftrightarrow>
     (case strip_prefix (''JOB_REQUEST '' @ fmt_int i) line of Some (c # _) \<Rightarrow> \<not> isdigit c | _ \<Rightarrow> False)"

definition timeout_of :: "string \<Rightarrow> int option" where
  "timeout_of line = Option.bind (strip_prefix ''JOB_TIMEOUT '' line) (\<lambda>rest. list_to_integer (string_trim rest))"

lemma strip_prefix_Some: "strip_prefix p s = Some r \<longleftrightarrow> s = p @ r"
  by (induction p s rule: strip_prefix.induct) auto

lemma strip_prefix_append [simp]: "strip_prefix p (p @ r) = Some r"
  by (simp add: strip_prefix_Some)

lemma is_request_iff: "is_request i line \<longleftrightarrow> (\<exists>c r. line = ''JOB_REQUEST '' @ fmt_int i @ c # r \<and> \<not> isdigit c)"
proof
  assume "is_request i line"
  then obtain c r where "strip_prefix (''JOB_REQUEST '' @ fmt_int i) line = Some (c # r)" "\<not> isdigit c"
    by (auto simp: is_request_def split: option.splits list.splits)
  then show "\<exists>c r. line = ''JOB_REQUEST '' @ fmt_int i @ c # r \<and> \<not> isdigit c" unfolding strip_prefix_Some by auto
next
  assume "\<exists>c r. line = ''JOB_REQUEST '' @ fmt_int i @ c # r \<and> \<not> isdigit c"
  then obtain c r where l: "line = (''JOB_REQUEST '' @ fmt_int i) @ c # r" "\<not> isdigit c" by auto
  show "is_request i line" unfolding is_request_def l(1) strip_prefix_append using l(2) by simp
qed

lemma fmt_int_shape: "\<exists>c cs. fmt_int i = c # cs \<and> list_all isdigit cs"
proof (cases "i < 0")
  case True
  then show ?thesis using nat_digits_isdigit by (auto simp: fmt_int_def list_all_iff)
next
  case False
  then show ?thesis using nat_digits_isdigit [of _ "nat i"] by (cases "nat_digits (nat i)") (auto simp: fmt_int_def list_all_iff)
qed

lemma fmt_int_inj [simp]: "fmt_int i = fmt_int j \<longleftrightarrow> i = j"
  by (metis list_to_integer_fmt option.inject)

lemma fmt_int_stop:
  assumes eq: "fmt_int i @ c # r = fmt_int j @ d # q" and "\<not> isdigit c" "\<not> isdigit d"
  shows "i = j"
proof -
  obtain a as b bs where ab: "fmt_int i = a # as" "list_all isdigit as" "fmt_int j = b # bs" "list_all isdigit bs"
    using fmt_int_shape by metis
  then have "as @ c # r = bs @ d # q" "a = b" using eq by auto
  then consider us where "as = bs @ us" "us @ c # r = d # q" | us where "bs = as @ us" "us @ d # q = c # r"
    unfolding append_eq_append_conv2 by metis
  then have "as = bs" using ab(2,4) assms(2,3) by cases (auto simp: Cons_eq_append_conv append_eq_Cons_conv)
  then show ?thesis using ab \<open>a = b\<close> by (metis fmt_int_inj)
qed

lemma request_shape:
  assumes "job_request_format i resources = Some message"
  obtains c r where "message = ''JOB_REQUEST '' @ fmt_int i @ c # r" "\<not> isdigit c"
proof -
  have ext: "\<exists>r. append_if_not_zero base x = base @ r \<and> (r = [] \<or> (\<exists>q. r = CHR '' '' # q))" for base x
    by (cases x) auto
  obtain x y z where res: "resources = [x, y, z]" using assms by (elim job_request_format.elims) auto
  let ?base = "''JOB_REQUEST '' @ fmt_int i"
  obtain r1 where r1: "append_if_not_zero ?base x = ?base @ r1" "r1 = [] \<or> (\<exists>q. r1 = CHR '' '' # q)" using ext by blast
  obtain r2 where r2: "append_if_not_zero (?base @ r1) y = (?base @ r1) @ r2" "r2 = [] \<or> (\<exists>q. r2 = CHR '' '' # q)" using ext by blast
  obtain r3 where r3: "append_if_not_zero (?base @ r1 @ r2) z = (?base @ r1 @ r2) @ r3" "r3 = [] \<or> (\<exists>q. r3 = CHR '' '' # q)" using ext by blast
  have m: "message = ?base @ r1 @ r2 @ r3 @ [NEWLINE]" using assms res r1(1) r2(1) r3(1) by (simp add: Let_def)
  have "\<exists>c r. r1 @ r2 @ r3 @ [NEWLINE] = c # r \<and> \<not> isdigit c"
    using r1(2) r2(2) r3(2) by (auto simp: isdigit_def)
  then show ?thesis using that m by auto
qed

lemma is_request_format: "job_request_format j resources = Some message \<Longrightarrow> is_request i message \<longleftrightarrow> i = j"
  by (erule request_shape) (auto simp: is_request_iff dest: fmt_int_stop)

lemma request_not_other:
  "\<not> is_request i (status_line j)" "\<not> is_request i (release_line j)" "\<not> is_request i get_nodes_line"
  by (simp_all add: is_request_iff get_nodes_line_def status_line_def release_line_def)

lemma line_inj [simp]:
  "status_line i = status_line j \<longleftrightarrow> i = j" "release_line i = release_line j \<longleftrightarrow> i = j"
  "status_line i \<noteq> release_line j" "release_line j \<noteq> status_line i"
  "get_nodes_line \<noteq> status_line i" "get_nodes_line \<noteq> release_line i"
  by (simp_all add: get_nodes_line_def status_line_def release_line_def)

lemma format_not_other:
  "job_request_format j resources = Some message \<Longrightarrow> message \<noteq> status_line i \<and> message \<noteq> release_line i"
  by (erule request_shape) (simp add: status_line_def release_line_def)

section \<open>The protocol of one job\<close>

text \<open>
  What the agent may read about one id: a \<open>JOB_REQUEST\<close> first, again only before the release;
  \<open>JOB_STATUS\<close> only between them; \<open>JOB_RELEASE\<close> once, and nothing after it.
\<close>

datatype phase = New | Asked | Released

definition advance :: "int \<Rightarrow> string \<Rightarrow> phase \<Rightarrow> phase option" where
  "advance i line ph =
     (if is_request i line then (if ph = Released then None else Some Asked)
      else if line = status_line i then (if ph = Asked then Some Asked else None)
      else if line = release_line i then (if ph = Asked then Some Released else None)
      else Some ph)"

definition phase_of :: "int \<Rightarrow> string list \<Rightarrow> phase option" where
  "phase_of i lines = fold (\<lambda>line ph. Option.bind ph (advance i line)) lines (Some New)"

lemma phase_of_Nil [simp]: "phase_of i [] = Some New"
  by (simp add: phase_of_def)

lemma phase_of_snoc [simp]: "phase_of i (lines @ [line]) = Option.bind (phase_of i lines) (advance i line)"
  by (simp add: phase_of_def)

lemma phase_of_prefix: "phase_of i (xs @ ys) \<noteq> None \<Longrightarrow> phase_of i xs \<noteq> None"
proof (induction ys rule: rev_induct)
  case (snoc y ys)
  then show ?case using phase_of_snoc [of i "xs @ ys" y] by (cases "phase_of i (xs @ ys)") auto
qed simp

lemma advance_lines:
  "job_request_format j resources = Some message \<Longrightarrow>
     advance i message ph = (if i = j then if ph = Released then None else Some Asked else Some ph)"
  "advance i (status_line j) ph = (if i = j then if ph = Asked then Some Asked else None else Some ph)"
  "advance i (release_line j) ph = (if i = j then if ph = Asked then Some Released else None else Some ph)"
  "advance i get_nodes_line ph = Some ph"
  using is_request_format [of j resources message i] format_not_other [of j resources message i]
  by (auto simp: advance_def request_not_other)

lemma new_no_requests: "phase_of i lines = Some New \<Longrightarrow> filter (is_request i) lines = []"
proof (induction lines rule: rev_induct)
  case (snoc line lines)
  then show ?case by (auto simp: bind_eq_Some_conv advance_def split: if_splits)
qed simp

section \<open>Steps\<close>

lemma receive_first_Some:
  assumes "receive_first P ms = Some (m, rest)"
  shows "\<exists>a b. ms = a @ m # b \<and> rest = a @ b \<and> P m \<and> (\<forall>x \<in> set a. \<not> P x)"
  using assms
proof (induction ms arbitrary: rest)
  case (Cons x ms)
  show ?case
  proof (cases "P x")
    case True
    then show ?thesis using Cons.prems by (intro exI [of _ "[]"] exI [of _ ms]) auto
  next
    case False
    then obtain r where r: "receive_first P ms = Some (m, r)" "rest = x # r" using Cons.prems by auto
    then obtain a b where "ms = a @ m # b" "r = a @ b" "P m" "\<forall>x \<in> set a. \<not> P x" using Cons.IH by blast
    then show ?thesis using False r(2) by (intro exI [of _ "x # a"] exI [of _ b]) simp
  qed
qed simp

lemma sched_frame [simp]:
  "s_wire (tell_coordinator m s) = s_wire s" "s_jobs (tell_coordinator m s) = s_jobs s"
  "s_gen_id (tell_coordinator m s) = s_gen_id s" "s_coord (tell_coordinator m s) = s_coord s"
  "s_heard (tell_coordinator m s) = s_heard s" "s_mail (tell_coordinator m s) = s_mail s @ [m]"
  "s_wire (set_job k j s) = s_wire s" "s_jobs (set_job k j s) = (s_jobs s)[k := j]"
  "s_gen_id (set_job k j s) = s_gen_id s" "s_coord (set_job k j s) = s_coord s"
  "s_heard (set_job k j s) = s_heard s" "s_mail (set_job k j s) = s_mail s"
  by (simp_all add: tell_coordinator_def set_job_def)

text \<open>The steps, with what each of them does to the state the properties speak of.\<close>

lemma sched_step_cases:
  assumes "sched_step a s = Some s'"
  obtains
    (quiet) g mail where "s' = s\<lparr>s_gen_mail := mail, s_gen := g\<rparr>"
  | (stuck) k where "k < length (s_jobs s)" "jp_state (s_jobs s ! k) = Job_start"
      "s' = set_job k ((s_jobs s ! k)\<lparr>jp_state := Job_dead\<rparr>) s"
  | (asks) k message where "k < length (s_jobs s)" "jp_state (s_jobs s ! k) = Job_start"
      "job_request_format (jp_id (s_jobs s ! k)) (jp_resources (s_jobs s ! k)) = Some message"
      "s' = tell_coordinator (Register_and_request (jp_id (s_jobs s ! k)) (Job k) message)
         (set_job k ((s_jobs s ! k)\<lparr>jp_state := Job_wait\<rparr>) s)"
  | (takes) k m mail where "k < length (s_jobs s)" "jp_state (s_jobs s ! k) = Job_wait"
      "receive_first (Not \<circ> is_nodes) (jp_mail (s_jobs s ! k)) = Some (m, mail)"
      "s' = set_job k ((s_jobs s ! k)\<lparr>jp_mail := mail,
         jp_state := (case m of Granted \<Rightarrow> Job_work | Timeout \<Rightarrow> Job_relaunch | _ \<Rightarrow> Job_dead)\<rparr>) s"
  | (beats) k where "k < length (s_jobs s)" "jp_state (s_jobs s ! k) = Job_wait"
      "s' = tell_coordinator (Status (jp_id (s_jobs s ! k))) s"
  | (finishes) k where "k < length (s_jobs s)" "jp_state (s_jobs s ! k) = Job_work"
      "s' = tell_coordinator (Finished (jp_id (s_jobs s ! k))) (set_job k ((s_jobs s ! k)\<lparr>jp_state := Job_dead\<rparr>) s)"
  | (relaunches) k where "k < length (s_jobs s)" "jp_state (s_jobs s ! k) = Job_relaunch"
      "s' = set_job k ((s_jobs s ! k)\<lparr>jp_state := Job_start\<rparr>) s"
  | (spawns) resources mail where "s' = spawn_job resources (s\<lparr>s_gen_mail := mail\<rparr>)"
  | (tells) m g where "m \<in> {Get_nodes Gen, Tcp_closed, Tcp_error}" "s' = tell_coordinator m (s\<lparr>s_gen := g\<rparr>)"
  | (hears) line where "s' = tell_coordinator (Tcp line) (s\<lparr>s_heard := s_heard s @ [line]\<rparr>)"
  | (coordinates) c m mail effects c' where "s_coord s = Loop c" "receive_first coordinator_accepts (s_mail s) = Some (m, mail)"
      "coordinator_loop c m = (effects, c')" "s' = fold perform effects (s\<lparr>s_mail := mail, s_coord := c'\<rparr>)"
proof (cases a)
  case Coordinator
  then show ?thesis using assms coordinates by (auto simp: coordinator_step_def split: coord_next.splits option.splits prod.splits)
next
  case (Job_runs k)
  then have k: "k < length (s_jobs s)" "job_step k (s_jobs s ! k) s = Some s'" using assms by (auto split: if_splits)
  show ?thesis
  proof (cases "jp_state (s_jobs s ! k)")
    case Job_start
    then show ?thesis using k stuck asks by (cases "job_request_format (jp_id (s_jobs s ! k)) (jp_resources (s_jobs s ! k))") (auto simp: job_def)
  next
    case Job_wait
    then show ?thesis using k takes by (auto simp: job_loop_def split: option.splits prod.splits)
  qed (use k finishes relaunches in auto)
next
  case (Job_beats k)
  then show ?thesis using assms beats by (auto simp: job_loop_after_def split: if_splits)
next
  case (Generator rnd)
  show ?thesis
  proof (cases "s_gen s")
    case Gen_start
    then show ?thesis using assms Generator tells [of "Get_nodes Gen" Gen_wait] by (auto simp: job_generator_def)
  next
    case Gen_wait
    then obtain nodes mail where m: "receive_first is_nodes (s_gen_mail s) = Some (Nodes nodes, mail)"
      using assms Generator by (auto simp: job_generator_def split: option.splits proc_msg.splits)
    then show ?thesis
      using assms Generator Gen_wait quiet [of _ mail] spawns [of _ mail]
      by (auto simp: job_generator_def Let_def split: option.splits list.splits)
  next
    case Gen_sleep
    then show ?thesis using assms Generator quiet [of Gen_start "s_gen_mail s"] by (auto simp: job_generator_def)
  qed (use assms Generator in \<open>auto simp: job_generator_def\<close>)
next
  case (Arrives line)
  then show ?thesis using assms hears [of line] by simp
next
  case Close
  then show ?thesis using assms tells [of Tcp_closed "s_gen s"] by simp
next
  case Socket_error
  then show ?thesis using assms tells [of Tcp_error "s_gen s"] by simp
qed

section \<open>What the coordinator has taken in hand\<close>

fun line_of :: "coord_msg \<Rightarrow> string list" where
  "line_of (Register_and_request i p message) = [message]"
| "line_of (Status i) = [status_line i]"
| "line_of (Finished i) = [release_line i]"
| "line_of (Get_nodes p) = [get_nodes_line]"
| "line_of _ = []"

text \<open>The lines sent and the lines that the messages in the mailbox will become.\<close>

definition outgoing :: "sched \<Rightarrow> string list" where
  "outgoing s = s_wire s @ concat (map line_of (s_mail s))"

fun sends :: "effect \<Rightarrow> string list" where
  "sends (Send line) = [line]"
| "sends _ = []"

fun mail_for :: "nat \<Rightarrow> effect \<Rightarrow> proc_msg list" where
  "mail_for k (To (Job p) m) = (if p = k then [m] else [])"
| "mail_for k _ = []"

lemma perform_effects:
  "s_wire (fold perform effects s) = s_wire s @ concat (map sends effects)"
  "s_mail (fold perform effects s) = s_mail s" "s_coord (fold perform effects s) = s_coord s"
  "s_gen_id (fold perform effects s) = s_gen_id s" "s_heard (fold perform effects s) = s_heard s"
  "length (s_jobs (fold perform effects s)) = length (s_jobs s)"
proof -
  have one: "s_wire (perform e s) = s_wire s @ sends e" "s_mail (perform e s) = s_mail s" "s_coord (perform e s) = s_coord s"
    "s_gen_id (perform e s) = s_gen_id s" "s_heard (perform e s) = s_heard s" "length (s_jobs (perform e s)) = length (s_jobs s)" for e s
    by (induction e s rule: perform.induct) simp_all
  show "s_wire (fold perform effects s) = s_wire s @ concat (map sends effects)"
    by (induction effects arbitrary: s) (simp_all add: one)
  show "s_mail (fold perform effects s) = s_mail s" "s_coord (fold perform effects s) = s_coord s"
    "s_gen_id (fold perform effects s) = s_gen_id s" "s_heard (fold perform effects s) = s_heard s"
    "length (s_jobs (fold perform effects s)) = length (s_jobs s)"
    by (induction effects arbitrary: s; simp add: one)+
qed

lemma perform_job:
  "k < length (s_jobs s) \<Longrightarrow> s_jobs (fold perform effects s) ! k =
     (s_jobs s ! k)\<lparr>jp_mail := jp_mail (s_jobs s ! k) @ concat (map (mail_for k) effects)\<rparr>"
proof (induction effects arbitrary: s)
  case (Cons e effects)
  have "k < length (s_jobs (perform e s))" using Cons.prems by (induction e s rule: perform.induct) simp_all
  moreover have "s_jobs (perform e s) ! k = (s_jobs s ! k)\<lparr>jp_mail := jp_mail (s_jobs s ! k) @ mail_for k e\<rparr>"
    using Cons.prems by (induction e s rule: perform.induct) (simp_all add: mail_job_def nth_list_update)
  ultimately show ?case using Cons.IH [of "perform e s"] by simp
qed simp

lemma job_reply_shape:
  assumes "job_reply c state rest msg = (effects, c')"
  shows "concat (map sends effects) = []"
    and "c' = Loop c \<and> (\<exists>i p. list_to_integer (string_trim rest) = Some i \<and> map_of (jobs_map c) i = Some p \<and>
           effects = [Log (Job_logged state i), To p msg]) \<or>
         c' = Crashed \<and> (\<forall>e \<in> set effects. \<forall>k. mail_for k e = []) \<and>
           (\<forall>i. list_to_integer (string_trim rest) = Some i \<longrightarrow> map_of (jobs_map c) i = None)"
  using assms by (auto simp: job_reply_def msg_to_job_def bind_eq_None_conv bind_eq_Some_conv split: option.splits)

lemma cancel_sends: "concat (map sends (cancel_all jobs)) = []"
  by (auto simp: cancel_all_def)

lemma coordinator_sends:
  assumes "coordinator_loop c m = (effects, c')"
  shows "concat (map sends effects) = line_of m"
proof (cases m)
  case (Tcp line)
  then show ?thesis using assms by (auto split: option.splits dest: job_reply_shape(1))
qed (use assms cancel_sends in auto)

lemma refused_line: "\<not> coordinator_accepts m \<Longrightarrow> line_of m = []"
  by (cases m) auto

text \<open>Nothing is lost and nothing overtakes between the processes and the socket.\<close>

lemma coordinator_outgoing:
  assumes "receive_first coordinator_accepts (s_mail s) = Some (m, mail)" "coordinator_loop c m = (effects, c')"
  shows "outgoing (fold perform effects (s\<lparr>s_mail := mail, s_coord := c'\<rparr>)) = outgoing s"
proof -
  obtain a b where ab: "s_mail s = a @ m # b" "mail = a @ b" "\<forall>x \<in> set a. \<not> coordinator_accepts x"
    using receive_first_Some [OF assms(1)] by blast
  have a: "concat (map line_of a) = []" using ab(3) refused_line by simp
  show ?thesis
    using ab coordinator_sends [OF assms(2)] by (simp add: outgoing_def perform_effects a)
qed

section \<open>Ids and processes\<close>

text \<open>Process \<open>k\<close> is the job with id \<open>1001 + k\<close>, and the coordinator's table leads to it.\<close>

definition names :: "sched \<Rightarrow> int \<Rightarrow> pid \<Rightarrow> bool" where
  "names s i p \<longleftrightarrow> (\<exists>k < length (s_jobs s). p = Job k \<and> i = 1001 + int k)"

definition registers_ok :: "sched \<Rightarrow> coord_msg \<Rightarrow> bool" where
  "registers_ok s m \<longleftrightarrow>
     (\<forall>i p message. m = Register_and_request i p message \<longrightarrow>
        names s i p \<and> (\<exists>resources. job_request_format i resources = Some message))"

definition ids_inv :: "sched \<Rightarrow> bool" where
  "ids_inv s \<longleftrightarrow>
     s_gen_id s = 1001 + int (length (s_jobs s)) \<and>
     (\<forall>k < length (s_jobs s). jp_id (s_jobs s ! k) = 1001 + int k) \<and>
     (\<forall>m \<in> set (s_mail s). registers_ok s m) \<and>
     (\<forall>c i p. s_coord s = Loop c \<longrightarrow> (i, p) \<in> set (jobs_map c) \<longrightarrow> names s i p)"

lemma names_cong: "length (s_jobs s') = length (s_jobs s) \<Longrightarrow> names s' = names s"
  by (simp add: names_def fun_eq_iff)

lemma registers_ok_cong: "length (s_jobs s') = length (s_jobs s) \<Longrightarrow> registers_ok s' = registers_ok s"
  using names_cong [of s' s] by (simp add: registers_ok_def fun_eq_iff)

lemma ids_job:
  assumes "ids_inv s" "k < length (s_jobs s)"
  shows "jp_id (s_jobs s ! k) = 1001 + int k"
  using assms by (simp add: ids_inv_def)

lemma coordinator_map:
  assumes "coordinator_loop c m = (effects, Loop c')"
  shows "set (jobs_map c') \<subseteq> set (jobs_map c) \<union> (case m of Register_and_request i p _ \<Rightarrow> {(i, p)} | _ \<Rightarrow> {})"
proof -
  have u: "set (AList.update i p js) \<subseteq> insert (i, p) (set js)" for i js and p :: pid
    by (induction js) auto
  have d: "set (AList.delete i js) \<subseteq> set js" for i and js :: "(int \<times> pid) list"
    by (auto simp: AList.delete_eq)
  have r: "jobs_map c' = jobs_map c" if "job_reply c st rest msg = (effects, Loop c')" for st rest msg
    using job_reply_shape(2) [OF that] by auto
  show ?thesis
  proof (cases m)
    case (Tcp line)
    then show ?thesis using assms by (auto split: option.splits dest: r)
  qed (use assms u d in \<open>fastforce+\<close>)
qed

lemma coordinator_ids:
  assumes inv: "ids_inv s" and c: "s_coord s = Loop c" "receive_first coordinator_accepts (s_mail s) = Some (m, mail)"
    "coordinator_loop c m = (effects, c')"
  shows "ids_inv (fold perform effects (s\<lparr>s_mail := mail, s_coord := c'\<rparr>))" (is "ids_inv ?s'")
proof -
  obtain a b where ab: "s_mail s = a @ m # b" "mail = a @ b" using receive_first_Some [OF c(2)] by blast
  have len: "length (s_jobs ?s') = length (s_jobs s)" by (simp add: perform_effects)
  have m: "registers_ok s m" using inv ab(1) by (simp add: ids_inv_def)
  have map_ok: "names s i p" if "s_coord ?s' = Loop c1" "(i, p) \<in> set (jobs_map c1)" for c1 i p
  proof -
    have "c' = Loop c1" using that(1) by (simp add: perform_effects)
    then have "(i, p) \<in> set (jobs_map c) \<or> (\<exists>message. m = Register_and_request i p message)"
      using coordinator_map [of c m effects c1] c(3) that(2) by (auto split: coord_msg.splits)
    then show ?thesis using inv c(1) m by (auto simp: ids_inv_def registers_ok_def)
  qed
  have job: "jp_id (s_jobs ?s' ! k) = 1001 + int k" if "k < length (s_jobs s)" for k
    using perform_job [of k "s\<lparr>s_mail := mail, s_coord := c'\<rparr>" effects] ids_job [OF inv that] that by simp
  have "\<forall>x \<in> set mail. registers_ok s x" using inv ab by (auto simp: ids_inv_def)
  then show ?thesis
    unfolding ids_inv_def names_cong [OF len] registers_ok_cong [OF len] len
    using inv map_ok job by (auto simp: perform_effects ids_inv_def)
qed

lemma ids_invariant: "sched_reachable s \<Longrightarrow> ids_inv s"
proof (induction rule: sched_reachable.induct)
  case start
  then show ?case by (simp add: ids_inv_def coordinator_def)
next
  case (step s a s')
  note inv = \<open>ids_inv s\<close>
  note known = inv [unfolded ids_inv_def]
  from \<open>sched_step a s = Some s'\<close> show ?case
  proof (cases rule: sched_step_cases)
    case (spawns resources mail)
    have mono: "names s i p \<Longrightarrow> names s' i p" for i p using spawns by (auto simp: names_def spawn_job_def)
    then have "registers_ok s m \<Longrightarrow> registers_ok s' m" for m by (auto simp: registers_ok_def)
    then have "\<forall>m \<in> set (s_mail s'). registers_ok s' m" using known spawns by (simp add: spawn_job_def)
    moreover have "\<forall>c i p. s_coord s' = Loop c \<longrightarrow> (i, p) \<in> set (jobs_map c) \<longrightarrow> names s' i p"
    proof -
      have "s_coord s' = s_coord s" using spawns by (simp add: spawn_job_def)
      then show ?thesis using known mono by metis
    qed
    moreover have "s_gen_id s' = 1001 + int (length (s_jobs s'))"
      "\<forall>k < length (s_jobs s'). jp_id (s_jobs s' ! k) = 1001 + int k"
      using known spawns by (simp_all add: spawn_job_def nth_append less_Suc_eq)
    ultimately show ?thesis by (simp add: ids_inv_def)
  next
    case (asks k message)
    then have len: "length (s_jobs s') = length (s_jobs s)" by simp
    have "registers_ok s (Register_and_request (jp_id (s_jobs s ! k)) (Job k) message)"
      using asks(1,3) ids_job [OF inv asks(1)] by (auto simp: registers_ok_def names_def)
    then show ?thesis
      unfolding ids_inv_def names_cong [OF len] registers_ok_cong [OF len] len
      using known asks by (auto simp: nth_list_update)
  next
    case (coordinates c m mail effects c')
    then show ?thesis using coordinator_ids [OF inv] by simp
  next
    case (tells m g)
    then have len: "length (s_jobs s') = length (s_jobs s)" by simp
    have "registers_ok s m" using tells(1) by (auto simp: registers_ok_def)
    then show ?thesis
      unfolding ids_inv_def names_cong [OF len] registers_ok_cong [OF len] len using known tells by auto
  qed (use known in \<open>auto simp: ids_inv_def names_def registers_ok_def nth_list_update\<close>)
qed

end
