(* ===== verification/Scheduler_Protocol.thy ===== *)
theory Scheduler_Protocol
  imports Scheduler
begin

text \<open>
  What the scheduler says to the agent, for every interleaving of its processes and whatever the
  agent sends: the order of the lines about one job, how often a job is asked for, and when a
  reply of the agent stops the coordinator.
\<close>

section \<open>The order of the lines about one job\<close>

fun phase_ok :: "job_state \<Rightarrow> phase option \<Rightarrow> bool" where
  "phase_ok Job_start ph \<longleftrightarrow> ph = Some New \<or> ph = Some Asked"
| "phase_ok Job_dead ph \<longleftrightarrow> ph \<noteq> None"
| "phase_ok _ ph \<longleftrightarrow> ph = Some Asked"

definition phase_inv :: "sched \<Rightarrow> bool" where
  "phase_inv s \<longleftrightarrow>
     (\<forall>k < length (s_jobs s). phase_ok (jp_state (s_jobs s ! k)) (phase_of (1001 + int k) (outgoing s))) \<and>
     (\<forall>i. (\<forall>k < length (s_jobs s). i \<noteq> 1001 + int k) \<longrightarrow> phase_of i (outgoing s) = Some New)"

lemma outgoing_tell [simp]: "outgoing (tell_coordinator m s) = outgoing s @ line_of m"
  by (simp add: outgoing_def)

lemma outgoing_frame [simp]:
  "outgoing (set_job k j s) = outgoing s" "outgoing (s\<lparr>s_gen := g\<rparr>) = outgoing s"
  "outgoing (s\<lparr>s_gen_mail := mail\<rparr>) = outgoing s" "outgoing (s\<lparr>s_heard := h\<rparr>) = outgoing s"
  by (simp_all add: outgoing_def)

text \<open>A process moves without a line: the phase of its job must suit the new state too.\<close>

lemma phase_move:
  assumes "phase_inv s" "k < length (s_jobs s)" "s_jobs s' = (s_jobs s)[k := j]" "outgoing s' = outgoing s"
    "phase_ok (jp_state (s_jobs s ! k)) (phase_of (1001 + int k) (outgoing s)) \<Longrightarrow>
       phase_ok (jp_state j) (phase_of (1001 + int k) (outgoing s))"
  shows "phase_inv s'"
  using assms by (auto simp: phase_inv_def nth_list_update)

text \<open>A process moves with a line about its own job.\<close>

lemma phase_say:
  assumes "phase_inv s" "k < length (s_jobs s)" "s_jobs s' = (s_jobs s)[k := j]" "outgoing s' = outgoing s @ [line]"
    "\<And>i ph. i \<noteq> 1001 + int k \<Longrightarrow> advance i line ph = Some ph"
    "phase_ok (jp_state (s_jobs s ! k)) (phase_of (1001 + int k) (outgoing s)) \<Longrightarrow>
       phase_ok (jp_state j) (Option.bind (phase_of (1001 + int k) (outgoing s)) (advance (1001 + int k) line))"
  shows "phase_inv s'"
proof -
  have other: "phase_of i (outgoing s') = phase_of i (outgoing s)" if "i \<noteq> 1001 + int k" for i
    using assms(4,5) that by (cases "phase_of i (outgoing s)") simp_all
  have self: "phase_ok (jp_state j) (phase_of (1001 + int k) (outgoing s'))"
    using assms(1,2,4,6) by (simp add: phase_inv_def)
  show ?thesis
    unfolding phase_inv_def assms(3)
  proof (intro conjI allI impI)
    fix n
    assume "n < length ((s_jobs s)[k := j])"
    then show "phase_ok (jp_state ((s_jobs s)[k := j] ! n)) (phase_of (1001 + int n) (outgoing s'))"
      using self other [of "1001 + int n"] assms(1) by (cases "n = k") (auto simp: phase_inv_def)
  next
    fix i
    assume "\<forall>n < length ((s_jobs s)[k := j]). i \<noteq> 1001 + int n"
    then show "phase_of i (outgoing s') = Some New" using other [of i] assms(1,2) by (auto simp: phase_inv_def)
  qed
qed

lemma phase_invariant: "sched_reachable s \<Longrightarrow> phase_inv s"
proof (induction rule: sched_reachable.induct)
  case start
  then show ?case by (simp add: phase_inv_def coordinator_def outgoing_def)
next
  case (step s a s')
  note inv = \<open>phase_inv s\<close>
  note ids = ids_job [OF ids_invariant [OF \<open>sched_reachable s\<close>]]
  from \<open>sched_step a s = Some s'\<close> show ?case
  proof (cases rule: sched_step_cases)
    case (quiet g mail)
    then show ?thesis using inv by (simp add: phase_inv_def)
  next
    case (stuck k)
    then show ?thesis by (intro phase_move [OF inv stuck(1)]) auto
  next
    case (asks k message)
    note adv = advance_lines(1) [OF asks(3)]
    show ?thesis
      by (rule phase_say [OF inv asks(1), where line = message and j = "(s_jobs s ! k)\<lparr>jp_state := Job_wait\<rparr>"])
        (use asks adv ids [OF asks(1)] in auto)
  next
    case (takes k m mail)
    then show ?thesis by (intro phase_move [OF inv takes(1)]) (auto split: proc_msg.split)
  next
    case (beats k)
    show ?thesis
      by (rule phase_say [OF inv beats(1), where line = "status_line (1001 + int k)" and j = "s_jobs s ! k"])
        (use beats ids [OF beats(1)] in \<open>auto simp: advance_lines\<close>)
  next
    case (finishes k)
    show ?thesis
      by (rule phase_say [OF inv finishes(1), where line = "release_line (1001 + int k)" and j = "(s_jobs s ! k)\<lparr>jp_state := Job_dead\<rparr>"])
        (use finishes ids [OF finishes(1)] in \<open>auto simp: advance_lines\<close>)
  next
    case (relaunches k)
    then show ?thesis by (intro phase_move [OF inv relaunches(1)]) auto
  next
    case (spawns resources mail)
    then have "outgoing s' = outgoing s" "s_jobs s' = s_jobs s @ [\<lparr>jp_id = s_gen_id s, jp_resources = resources, jp_state = Job_start, jp_mail = []\<rparr>]"
      by (simp_all add: spawn_job_def outgoing_def)
    then show ?thesis using inv by (auto simp: phase_inv_def nth_append less_Suc_eq)
  next
    case (tells m g)
    have "phase_of i (outgoing s') = phase_of i (outgoing s)" for i
      using tells by (cases "phase_of i (outgoing s)") (auto simp: advance_lines)
    then show ?thesis using inv tells by (simp add: phase_inv_def)
  next
    case (hears line)
    then show ?thesis using inv by (simp add: phase_inv_def)
  next
    case (coordinates c m mail effects c')
    let ?s = "s\<lparr>s_mail := mail, s_coord := c'\<rparr>"
    have "jp_state (s_jobs s' ! k) = jp_state (s_jobs s ! k)" if "k < length (s_jobs s)" for k
      using perform_job [of k ?s effects] that coordinates(4) by simp
    moreover have "outgoing s' = outgoing s" "length (s_jobs s') = length (s_jobs s)"
      using coordinator_outgoing [OF coordinates(2,3)] coordinates(4) by (simp_all add: perform_effects)
    ultimately show ?thesis using inv by (simp add: phase_inv_def)
  qed
qed

lemma phase_exists:
  assumes "sched_reachable s"
  shows "phase_of i (outgoing s) \<noteq> None" "phase_of i (s_wire s) \<noteq> None"
proof -
  have "phase_ok st ph \<Longrightarrow> ph \<noteq> None" for st ph by (cases st) auto
  then show "phase_of i (outgoing s) \<noteq> None"
    using phase_invariant [OF assms] unfolding phase_inv_def by (metis option.distinct(1))
  then show "phase_of i (s_wire s) \<noteq> None" unfolding outgoing_def by (rule phase_of_prefix)
qed

text \<open>The phase in terms of the lines themselves.\<close>

lemma phase_of_lines:
  "phase_of i lines = Some ph \<Longrightarrow>
     (ph \<noteq> New \<longleftrightarrow> list_ex (is_request i) lines) \<and> (ph = Released \<longleftrightarrow> release_line i \<in> set lines) \<and>
     (status_line i \<in> set lines \<longrightarrow> ph \<noteq> New)"
proof (induction lines arbitrary: ph rule: rev_induct)
  case (snoc line lines)
  then obtain ph0 where "phase_of i lines = Some ph0" "advance i line ph0 = Some ph" by (auto simp: bind_eq_Some_conv)
  then show ?case
    using snoc.IH [of ph0] by (cases ph0) (auto simp: advance_def request_not_other split: if_splits)
qed simp

lemma phase_asked:
  assumes "phase_of i lines \<noteq> None"
  shows "phase_of i lines = Some Asked \<longleftrightarrow> list_ex (is_request i) lines \<and> release_line i \<notin> set lines"
proof -
  obtain ph where ph: "phase_of i lines = Some ph" using assms by blast
  show ?thesis using phase_of_lines [OF ph] ph by (cases ph) auto
qed

lemma released_is_final:
  assumes "phase_of i (xs @ release_line i # ys) \<noteq> None"
  shows "\<forall>line \<in> set ys. \<not> is_request i line \<and> line \<noteq> status_line i \<and> line \<noteq> release_line i"
  using assms
proof (induction ys rule: rev_induct)
  case (snoc y ys)
  let ?lines = "xs @ release_line i # ys"
  have p: "phase_of i (?lines @ [y]) = Option.bind (phase_of i ?lines) (advance i y)" by (rule phase_of_snoc)
  then obtain ph where ph: "phase_of i ?lines = Some ph" "advance i y ph \<noteq> None"
    using snoc.prems by (cases "phase_of i ?lines") auto
  then have "ph = Released" using phase_of_lines [OF ph(1)] by simp
  then show ?case using ph snoc.IH by (auto simp: advance_def split: if_splits)
qed simp

section \<open>The jobs the coordinator knows\<close>

lemma job_reply_map:
  "job_reply c state rest msg = (effects, Loop c') \<Longrightarrow> c' = c"
  using job_reply_shape(2) by fastforce

text \<open>The coordinator's table holds the ids that are asked for and not yet released on the wire.\<close>

lemma known_jobs:
  assumes "sched_reachable s" "s_coord s = Loop c"
  shows "map_of (jobs_map c) i \<noteq> None \<longleftrightarrow> phase_of i (s_wire s) = Some Asked"
  using assms
proof (induction arbitrary: c i rule: sched_reachable.induct)
  case start
  then show ?case by (auto simp: coordinator_def)
next
  case (step s a s')
  have next_phase: "phase_of i (s_wire s') \<noteq> None" for i
    using phase_exists(2) sched_reachable.step [OF step(1,2)] by blast
  from \<open>sched_step a s = Some s'\<close> show ?case
  proof (cases rule: sched_step_cases)
    case (coordinates c0 m mail effects c')
    have w: "s_wire s' = s_wire s @ line_of m" "c' = Loop c"
      using coordinator_sends [OF coordinates(3)] coordinates(4) step(4) by (simp_all add: perform_effects)
    have IH: "map_of (jobs_map c0) i \<noteq> None \<longleftrightarrow> phase_of i (s_wire s) = Some Asked" for i
      using step(3) [OF coordinates(1)] .
    have m: "registers_ok s m"
      using ids_invariant [OF step(1)] receive_first_Some [OF coordinates(2)] by (auto simp: ids_inv_def)
    show ?thesis
    proof (cases m)
      case (Register_and_request j p message)
      then obtain resources where f: "job_request_format j resources = Some message" using m by (auto simp: registers_ok_def)
      have "jobs_map c = AList.update j p (jobs_map c0)" using coordinates(3) w(2) Register_and_request by auto
      then show ?thesis
        using IH [of i] next_phase [of i] w(1) Register_and_request
        by (cases "phase_of i (s_wire s)") (auto simp: advance_lines(1) [OF f] update_conv' split: if_splits)
    next
      case (Status j)
      then have "c = c0" using coordinates(3) w(2) by simp
      then show ?thesis
        using IH [of i] next_phase [of i] w(1) Status
        by (cases "phase_of i (s_wire s)") (auto simp: advance_lines split: if_splits)
    next
      case (Finished j)
      then have "jobs_map c = AList.delete j (jobs_map c0)" using coordinates(3) w(2) by auto
      then show ?thesis
        using IH [of i] next_phase [of i] w(1) Finished
        by (cases "phase_of i (s_wire s)") (auto simp: advance_lines delete_conv' split: if_splits)
    next
      case (Get_nodes p)
      then have "jobs_map c = jobs_map c0" using coordinates(3) w(2) by auto
      then show ?thesis
        using IH [of i] w(1) Get_nodes by (cases "phase_of i (s_wire s)") (auto simp: advance_lines(4))
    next
      case (Tcp line)
      then have "jobs_map c = jobs_map c0"
        using coordinates(3) w(2) by (auto split: option.splits dest!: job_reply_map)
      then show ?thesis using IH [of i] w(1) Tcp by simp
    qed (use coordinates(3) w(2) in auto)
  qed (use step(3,4) in \<open>auto simp: spawn_job_def\<close>)
qed

section \<open>How often a job is asked for\<close>

definition requests :: "int \<Rightarrow> string list \<Rightarrow> nat" where
  "requests i lines = length (filter (is_request i) lines)"

definition timeouts :: "int \<Rightarrow> string list \<Rightarrow> nat" where
  "timeouts i lines = length (filter (\<lambda>line. timeout_of line = Some i) lines)"

fun timeout_msg :: "int \<Rightarrow> coord_msg \<Rightarrow> bool" where
  "timeout_msg i (Tcp line) \<longleftrightarrow> timeout_of line = Some i"
| "timeout_msg i _ \<longleftrightarrow> False"

text \<open>The requests that process \<open>k\<close> may still make: its own next one, and one per timeout on the way to it.\<close>

definition owed :: "job_proc \<Rightarrow> nat" where
  "owed j = (if jp_state j = Job_start \<or> jp_state j = Job_relaunch then 1 else 0) + count_list (jp_mail j) Timeout"

definition promised :: "nat \<Rightarrow> sched \<Rightarrow> nat" where
  "promised k s =
     requests (1001 + int k) (outgoing s) + length (filter (timeout_msg (1001 + int k)) (s_mail s)) + owed (s_jobs s ! k)"

definition request_inv :: "sched \<Rightarrow> bool" where
  "request_inv s \<longleftrightarrow> (\<forall>k < length (s_jobs s). promised k s \<le> 1 + timeouts (1001 + int k) (s_heard s))"

lemma requests_append [simp]: "requests i (xs @ ys) = requests i xs + requests i ys" "requests i [] = 0"
  by (simp_all add: requests_def)

lemma timeouts_append [simp]: "timeouts i (xs @ ys) = timeouts i xs + timeouts i ys"
  by (simp add: timeouts_def)

lemma requests_lines [simp]:
  "job_request_format j resources = Some message \<Longrightarrow> requests i [message] = (if i = j then 1 else 0)"
  "requests i [status_line j] = 0" "requests i [release_line j] = 0" "requests i [get_nodes_line] = 0"
  by (simp_all add: requests_def is_request_format request_not_other)

lemma count_list_append: "count_list (xs @ ys) x = count_list xs x + count_list ys x"
  by (induction xs) auto

lemma cancel_mail: "count_list (concat (map (mail_for k) (cancel_all jobs))) Timeout = 0"
proof (induction jobs)
  case (Cons x xs)
  obtain i p where x: "x = (i, p)" by fastforce
  show ?case using Cons x by (cases p) (auto simp: cancel_all_def)
qed (simp add: cancel_all_def)

text \<open>The coordinator passes a timeout on to the process of that id only, and makes none up.\<close>

lemma coordinator_timeouts:
  assumes c: "coordinator_loop c m = (effects, c')" and names: "\<And>i p. (i, p) \<in> set (jobs_map c) \<Longrightarrow> names s i p"
  shows "count_list (concat (map (mail_for k) effects)) Timeout \<le> (if timeout_msg (1001 + int k) m then 1 else 0)"
proof (cases m)
  case (Tcp line)
  have reply: "count_list (concat (map (mail_for k) effects)) Timeout \<le>
      (if msg = Timeout \<and> list_to_integer (string_trim rest) = Some (1001 + int k) then 1 else 0)"
    if "job_reply c st rest msg = (effects, c')" for st rest msg
    using job_reply_shape(2) [OF that]
  proof (elim disjE conjE exE)
    fix i p
    assume r: "list_to_integer (string_trim rest) = Some i" "map_of (jobs_map c) i = Some p" "effects = [Log (Job_logged st i), To p msg]"
    then have "names s i p" using names map_of_SomeD [OF r(2)] by blast
    then obtain n where "p = Job n" "i = 1001 + int n" by (auto simp: names_def)
    then show ?thesis using r by auto
  next
    assume "\<forall>e \<in> set effects. \<forall>k. mail_for k e = []"
    then show ?thesis by (simp add: count_list_0_iff)
  qed
  have nodes: "count_list (concat (map (mail_for k) [To p (Nodes rest)])) Timeout = 0" for p rest by (cases p) simp_all
  show ?thesis
  proof (cases "strip_prefix ''JOB_TIMEOUT '' line")
    case None
    then show ?thesis
      using c Tcp reply [of "''granted''" _ Granted] reply [of "''denied''" _ Denied] nodes
      by (auto simp del: mail_for.simps split: option.splits)
  next
    case (Some rest)
    then have "line = ''JOB_TIMEOUT '' @ rest" by (simp add: strip_prefix_Some)
    then show ?thesis using c Tcp reply [of "''timeout''" rest Timeout] by (simp add: timeout_of_def)
  qed
qed (use c cancel_mail in auto)

lemma request_step:
  assumes inv: "request_inv s" and k: "k < length (s_jobs s)" "s_jobs s' = (s_jobs s)[k := j]"
    and same: "s_heard s' = s_heard s" "\<And>i. filter (timeout_msg i) (s_mail s') = filter (timeout_msg i) (s_mail s)"
    and other: "\<And>i. i \<noteq> 1001 + int k \<Longrightarrow> requests i (outgoing s') = requests i (outgoing s)"
    and self: "requests (1001 + int k) (outgoing s') + owed j \<le> requests (1001 + int k) (outgoing s) + owed (s_jobs s ! k)"
  shows "request_inv s'"
  unfolding request_inv_def
proof (intro allI impI)
  fix n
  assume "n < length (s_jobs s')"
  then have n: "n < length (s_jobs s)" using k(2) by simp
  have "promised n s' \<le> promised n s"
    using n k same other [of "1001 + int n"] self by (cases "n = k") (simp_all add: promised_def)
  also have "\<dots> \<le> 1 + timeouts (1001 + int n) (s_heard s)" using inv n by (simp add: request_inv_def)
  finally show "promised n s' \<le> 1 + timeouts (1001 + int n) (s_heard s')" using same(1) by simp
qed

lemma receive_owed:
  assumes "receive_first P mail = Some (m, rest)"
  shows "count_list mail x = count_list rest x + (if m = x then 1 else 0)"
  using receive_first_Some [OF assms] by (auto simp: count_list_append)

lemma coordinator_promises:
  assumes "ids_inv s" "s_coord s = Loop c" "receive_first coordinator_accepts (s_mail s) = Some (m, mail)"
    "coordinator_loop c m = (effects, c')" "s' = fold perform effects (s\<lparr>s_mail := mail, s_coord := c'\<rparr>)"
    "k < length (s_jobs s)"
  shows "promised k s' \<le> promised k s"
proof -
  let ?i = "1001 + int k"
  have "count_list (concat (map (mail_for k) effects)) Timeout \<le> (if timeout_msg ?i m then 1 else 0)"
    using assms(1,2) by (intro coordinator_timeouts [OF assms(4)]) (auto simp: ids_inv_def)
  moreover have "owed (s_jobs s' ! k) = owed (s_jobs s ! k) + count_list (concat (map (mail_for k) effects)) Timeout"
    using perform_job [of k "s\<lparr>s_mail := mail, s_coord := c'\<rparr>" effects] assms(5,6) by (simp add: owed_def count_list_append)
  moreover have "outgoing s' = outgoing s" "s_mail s' = mail"
    using coordinator_outgoing [OF assms(3,4)] assms(5) by (simp_all add: perform_effects)
  moreover have "length (filter (timeout_msg ?i) (s_mail s)) = length (filter (timeout_msg ?i) mail) + (if timeout_msg ?i m then 1 else 0)"
    using receive_first_Some [OF assms(3)] by auto
  ultimately show ?thesis by (simp add: promised_def)
qed

lemma mailbox_heard: "sched_reachable s \<Longrightarrow> length (filter (timeout_msg i) (s_mail s)) \<le> timeouts i (s_heard s)"
proof (induction rule: sched_reachable.induct)
  case (step s a s')
  from \<open>sched_step a s = Some s'\<close> show ?case
  proof (cases rule: sched_step_cases)
    case (coordinates c m mail effects c')
    then show ?thesis using step.IH receive_first_Some [OF coordinates(2)] by (auto simp: perform_effects split: if_splits)
  qed (use step.IH in \<open>auto simp: spawn_job_def timeouts_def\<close>)
qed (simp add: coordinator_def)

lemma request_invariant: "sched_reachable s \<Longrightarrow> request_inv s"
proof (induction rule: sched_reachable.induct)
  case start
  then show ?case by (simp add: request_inv_def coordinator_def)
next
  case (step s a s')
  note ids = ids_invariant [OF \<open>sched_reachable s\<close>]
  have fresh: "requests (1001 + int (length (s_jobs s))) (outgoing s) = 0"
    using phase_invariant [OF \<open>sched_reachable s\<close>] new_no_requests by (auto simp: phase_inv_def requests_def)
  have inv: "promised k s \<le> 1 + timeouts (1001 + int k) (s_heard s)" if "k < length (s_jobs s)" for k
    using \<open>request_inv s\<close> that by (simp add: request_inv_def)
  from \<open>sched_step a s = Some s'\<close> show ?case
  proof (cases rule: sched_step_cases)
    case (quiet g mail)
    then show ?thesis using \<open>request_inv s\<close> by (simp add: request_inv_def promised_def)
  next
    case (stuck k)
    then show ?thesis by (intro request_step [OF \<open>request_inv s\<close> stuck(1)]) (auto simp: owed_def)
  next
    case (asks k message)
    then show ?thesis
      by (intro request_step [OF \<open>request_inv s\<close> asks(1)]) (auto simp: owed_def ids_job [OF ids])
  next
    case (takes k m mail)
    then show ?thesis
      using receive_owed [OF takes(3), of Timeout]
      by (intro request_step [OF \<open>request_inv s\<close> takes(1)]) (auto simp: owed_def split: proc_msg.splits)
  next
    case (beats k)
    then show ?thesis
      by (intro request_step [OF \<open>request_inv s\<close> beats(1), where j = "s_jobs s ! k"]) auto
  next
    case (finishes k)
    then show ?thesis by (intro request_step [OF \<open>request_inv s\<close> finishes(1)]) (auto simp: owed_def)
  next
    case (relaunches k)
    then show ?thesis by (intro request_step [OF \<open>request_inv s\<close> relaunches(1)]) (auto simp: owed_def)
  next
    case (spawns resources mail)
    have "promised k s' \<le> 1 + timeouts (1001 + int k) (s_heard s')" if "k < length (s_jobs s')" for k
    proof (cases "k = length (s_jobs s)")
      case True
      then show ?thesis
        using fresh mailbox_heard [OF \<open>sched_reachable s\<close>, of "1001 + int k"] spawns
        by (simp add: promised_def spawn_job_def owed_def outgoing_def)
    next
      case False
      then have k: "k < length (s_jobs s)" using that spawns by (simp add: spawn_job_def)
      have "promised k s' = promised k s" using k spawns by (simp add: promised_def spawn_job_def outgoing_def nth_append)
      then show ?thesis using inv [OF k] spawns by (simp add: spawn_job_def)
    qed
    then show ?thesis by (simp add: request_inv_def)
  next
    case (tells m g)
    then show ?thesis using \<open>request_inv s\<close> by (auto simp: request_inv_def promised_def)
  next
    case (hears line)
    then show ?thesis using \<open>request_inv s\<close> by (auto simp: request_inv_def promised_def timeouts_def)
  next
    case (coordinates c m mail effects c')
    have "length (s_jobs s') = length (s_jobs s)" "s_heard s' = s_heard s" using coordinates(4) by (simp_all add: perform_effects)
    then show ?thesis
      using coordinator_promises [OF ids coordinates] inv by (fastforce simp: request_inv_def intro: order_trans)
  qed
qed

section \<open>Example runs\<close>

definition first_pick :: "resource_atom \<Rightarrow> nat \<times> int" where
  "first_pick t = (1, case t of Cpu \<Rightarrow> 3 | Mem \<Rightarrow> 1 | Gpu \<Rightarrow> 1)"

text \<open>The generator learns of one node, and the job it starts asks for two processors there.\<close>

definition demo_spawn :: "sched_action list" where
  "demo_spawn =
     [Generator first_pick, Coordinator, Arrives (''NODES 10.0.0.2:4200:cpu:4:mem:100:gpu:0'' @ [NEWLINE]), Coordinator,
      Generator first_pick, Job_runs 0, Coordinator]"

definition demo_line :: string where
  "demo_line = ''JOB_REQUEST 1001 @10.0.0.2:cpu:2'' @ [NEWLINE]"

text \<open>The heart beat of a job that waits crosses the timeout of the agent, which then answers it with a second one.\<close>

definition demo_crossing :: "sched_action list" where
  "demo_crossing =
     [Job_beats 0, Coordinator, Arrives (''JOB_TIMEOUT 1001'' @ [NEWLINE]), Arrives (''JOB_TIMEOUT 1001'' @ [NEWLINE]),
      Coordinator, Coordinator, Job_runs 0, Job_runs 0, Job_runs 0, Coordinator,
      Job_runs 0, Job_runs 0, Job_runs 0, Coordinator]"

text \<open>The job is granted and finishes.\<close>

definition demo_grant :: "sched_action list" where
  "demo_grant = [Arrives (''JOB_GRANTED 1001'' @ [NEWLINE]), Coordinator, Job_runs 0, Job_runs 0, Coordinator]"

lemma demo_runs:
  "map_option s_wire (sched_run demo_spawn coordinator) = Some [get_nodes_line, demo_line]"
  "map_option s_wire (sched_run (demo_spawn @ demo_crossing) coordinator) =
     Some [get_nodes_line, demo_line, status_line 1001, demo_line, demo_line]"
  "map_option s_wire (sched_run (demo_spawn @ demo_grant) coordinator) = Some [get_nodes_line, demo_line, release_line 1001]"
  "map_option (\<lambda>s. case s_coord s of Loop c \<Rightarrow> True | _ \<Rightarrow> False) (sched_run demo_spawn coordinator) = Some True"
  unfolding demo_spawn_def demo_crossing_def demo_grant_def by code_simp+

section \<open>Properties\<close>

text \<open>
  C31. The scheduler keeps to the order of the protocol: in every reachable state, for every id, a
  \<open>JOB_STATUS\<close> or a \<open>JOB_RELEASE\<close> on the wire comes after a \<open>JOB_REQUEST\<close> with that id, and after
  the \<open>JOB_RELEASE\<close> of an id no line about that id is sent any more.
\<close>

theorem scheduler_keeps_protocol_order:
  assumes "sched_reachable s" "s_wire s = xs @ line # ys"
  shows "(line = status_line i \<or> line = release_line i \<longrightarrow> list_ex (is_request i) xs) \<and>
    (line = release_line i \<longrightarrow>
       (\<forall>later \<in> set ys. \<not> is_request i later \<and> later \<noteq> status_line i \<and> later \<noteq> release_line i))"
proof -
  have p: "phase_of i (xs @ line # ys) \<noteq> None" using phase_exists(2) [OF assms(1), of i] assms(2) by simp
  then have "phase_of i (xs @ [line]) \<noteq> None" using phase_of_prefix [of i "xs @ [line]" ys] by simp
  then obtain ph where ph: "phase_of i xs = Some ph" "advance i line ph \<noteq> None"
    by (cases "phase_of i xs") auto
  have "list_ex (is_request i) xs" if "line = status_line i \<or> line = release_line i"
    using that ph(2) phase_of_lines [OF ph(1)] by (auto simp: advance_def request_not_other split: if_splits)
  then show ?thesis using released_is_final [of i xs ys] p by auto
qed

theorem scheduler_keeps_protocol_order_witness:
  "\<exists>s. sched_run (demo_spawn @ demo_grant) coordinator = Some s \<and>
     s_wire s = [get_nodes_line, demo_line] @ release_line 1001 # [] \<and> list_ex (is_request 1001) [get_nodes_line, demo_line]"
proof -
  obtain s where s: "sched_run (demo_spawn @ demo_grant) coordinator = Some s"
    "s_wire s = [get_nodes_line, demo_line] @ release_line 1001 # []"
    using demo_runs(3) by auto
  have "sched_reachable s" by (rule sched_run_reachable [OF s(1) sched_reachable.start])
  from scheduler_keeps_protocol_order [OF this s(2), of 1001] s show ?thesis by blast
qed

text \<open>
  C30. A job is asked for again only after a timeout: in every reachable state the number of
  \<open>JOB_REQUEST\<close> lines sent for an id is at most one more than the number of \<open>JOB_TIMEOUT\<close> lines
  received for it. So the scheduler sends each id once if the agent reports no timeout, and it
  reuses a live id only if the agent reports more than one timeout for one request.
\<close>

theorem requests_need_timeouts:
  assumes "sched_reachable s"
  shows "requests i (s_wire s) \<le> 1 + timeouts i (s_heard s)"
proof (cases "\<exists>k < length (s_jobs s). i = 1001 + int k")
  case True
  then show ?thesis
    using request_invariant [OF assms] by (fastforce simp: request_inv_def promised_def outgoing_def)
next
  case False
  then have "requests i (outgoing s) = 0"
    using phase_invariant [OF assms] new_no_requests by (auto simp: phase_inv_def requests_def)
  then show ?thesis by (simp add: outgoing_def)
qed

theorem requests_need_timeouts_witness:
  "\<exists>s. sched_run (demo_spawn @ demo_crossing) coordinator = Some s \<and> 3 \<le> 1 + timeouts 1001 (s_heard s)"
proof -
  obtain s where s: "sched_run (demo_spawn @ demo_crossing) coordinator = Some s"
    "s_wire s = [get_nodes_line, demo_line, status_line 1001, demo_line, demo_line]"
    using demo_runs(2) by auto
  have "requests 1001 [get_nodes_line, demo_line, status_line 1001, demo_line, demo_line] = 3" by code_simp
  then show ?thesis
    using requests_need_timeouts [OF sched_run_reachable [OF s(1) sched_reachable.start], of 1001] s by simp
qed

text \<open>
  C32. Exactly which replies stop the coordinator: in every reachable state a \<open>JOB_GRANTED\<close>,
  \<open>JOB_DENIED\<close> or \<open>JOB_TIMEOUT\<close> line goes to the process of the job it names if that job has been
  asked for and not been released on the wire; any other id, and a text that is no number, ends
  the coordinator (\<open>badkey\<close> or \<open>badarg\<close>).
\<close>

theorem replies_reach_their_job:
  assumes "sched_reachable s" "s_coord s = Loop c"
    "(keyword, state, msg) \<in> {(''JOB_GRANTED '', ''granted'', Granted), (''JOB_DENIED '', ''denied'', Denied),
       (''JOB_TIMEOUT '', ''timeout'', Timeout)}"
  shows "(case list_to_integer (string_trim rest) of
      None \<Rightarrow> coordinator_loop c (Tcp (keyword @ rest)) = ([], Crashed)
    | Some i \<Rightarrow>
        if list_ex (is_request i) (s_wire s) \<and> release_line i \<notin> set (s_wire s)
        then coordinator_loop c (Tcp (keyword @ rest)) = ([Log (Job_logged state i), To (Job (nat (i - 1001))) msg], Loop c)
        else coordinator_loop c (Tcp (keyword @ rest)) = ([Log (Job_logged state i)], Crashed))"
proof -
  have reply: "coordinator_loop c (Tcp (keyword @ rest)) = job_reply c state rest msg" using assms(3) by auto
  have job: "map_of (jobs_map c) i = (if list_ex (is_request i) (s_wire s) \<and> release_line i \<notin> set (s_wire s)
      then Some (Job (nat (i - 1001))) else None)" for i
  proof -
    have "names s i p" if "map_of (jobs_map c) i = Some p" for p
      using ids_invariant [OF assms(1)] assms(2) map_of_SomeD [OF that] by (auto simp: ids_inv_def)
    then have "map_of (jobs_map c) i \<noteq> None \<Longrightarrow> map_of (jobs_map c) i = Some (Job (nat (i - 1001)))"
      by (auto simp: names_def)
    then show ?thesis
      using known_jobs [OF assms(1,2), of i] phase_asked [OF phase_exists(2) [OF assms(1)], of i] by auto
  qed
  show ?thesis
    unfolding reply by (auto simp: job_reply_def msg_to_job_def job split: option.split)
qed

theorem replies_reach_their_job_witness:
  "\<exists>s c. sched_run demo_spawn coordinator = Some s \<and> s_coord s = Loop c \<and>
     coordinator_loop c (Tcp (''JOB_GRANTED '' @ ''1001'')) = ([Log (Job_logged ''granted'' 1001), To (Job 0) Granted], Loop c) \<and>
     coordinator_loop c (Tcp (''JOB_GRANTED '' @ ''1002'')) = ([Log (Job_logged ''granted'' 1002)], Crashed)"
proof -
  obtain s where run: "sched_run demo_spawn coordinator = Some s" "s_wire s = [get_nodes_line, demo_line]"
    "case s_coord s of Loop c \<Rightarrow> True | _ \<Rightarrow> False"
    using demo_runs(1,4) by auto
  then obtain c where s: "sched_run demo_spawn coordinator = Some s" "s_wire s = [get_nodes_line, demo_line]" "s_coord s = Loop c"
    by (cases "s_coord s") auto
  have n: "list_to_integer (string_trim ''1001'') = Some 1001" "list_to_integer (string_trim ''1002'') = Some 1002"
    "list_ex (is_request 1001) [get_nodes_line, demo_line] \<and> release_line 1001 \<notin> set [get_nodes_line, demo_line]"
    "\<not> list_ex (is_request 1002) [get_nodes_line, demo_line]"
    by code_simp+
  note r = replies_reach_their_job [OF sched_run_reachable [OF s(1) sched_reachable.start] s(3),
      of "''JOB_GRANTED ''" "''granted''" Granted, unfolded s(2)]
  show ?thesis using r [of "''1001''"] r [of "''1002''"] s n by (intro exI [of _ s] exI [of _ c]) simp
qed

end
