(* ===== verification/Message_Events.thy ===== *)
theory Message_Events
  imports Agent_Run
begin

text \<open>
  Events whose bytes are one whole line, or the end of the stream. Between such events the line
  buffers are empty, and the agent changes as if the handler of the line were called at once:
  \<open>dispatch_message\<close> computes it without the buffers.
\<close>

section \<open>Reading one whole line\<close>

definition whole_message :: "string \<Rightarrow> bool" where
  "whole_message msg \<longleftrightarrow> msg \<noteq> [] \<and> last msg = NEWLINE \<and> NEWLINE \<notin> set (butlast msg) \<and> NUL \<notin> set msg \<and> length msg < BUFFER_LEN"

definition empty_conn :: "Connection \<Rightarrow> bool" where
  "empty_conn conn \<longleftrightarrow> conn_inv conn \<and> accumulated_bytes conn = 0"

lemma whole_messageE:
  assumes "whole_message msg"
  obtains t where "msg = t @ [NEWLINE]" "NEWLINE \<notin> set t" "NUL \<notin> set t" "Suc (length t) < BUFFER_LEN"
  using assms by (cases msg rule: rev_cases) (auto simp: whole_message_def)

lemma recv_whole: "msg \<noteq> [] \<Longrightarrow> length msg \<le> n \<Longrightarrow> recv (Segment msg # es) n = (Recv_data msg, es)"
  by (cases msg) simp_all

lemma read_whole:
  assumes c: "empty_conn conn" and m: "whole_message msg"
  shows "\<exists>conn'. read_connection conn (Segment msg # es) = (Line msg, conn', es) \<and> empty_conn conn'"
proof -
  obtain t where t: "msg = t @ [NEWLINE]" "NEWLINE \<notin> set t" "NUL \<notin> set t" "Suc (length t) < BUFFER_LEN"
    by (rule whole_messageE [OF m])
  have inv: "conn_inv conn" and acc: "accumulated_bytes conn = 0" using c by (simp_all add: empty_conn_def)
  let ?conn = "store_bytes conn msg"
  have s: "conn_inv ?conn" "pending ?conn = msg" "accumulated_bytes ?conn = length msg"
    using store_bytes_spec [OF inv, of msg] t acc by (simp_all add: pending_def)
  have nl: "NEWLINE \<in> set (pending ?conn)" "NUL \<notin> set (pending ?conn)" using t s(2) by auto
  have "takeWhile (\<lambda>c. c \<noteq> NEWLINE) (t @ [NEWLINE]) = t" "dropWhile (\<lambda>c. c \<noteq> NEWLINE) (t @ [NEWLINE]) = [NEWLINE]"
    using t(2) by (auto simp: takeWhile_append dropWhile_append)
  then have tw: "takeWhile (\<lambda>c. c \<noteq> NEWLINE) msg = t" and fl: "first_line msg = msg" "rest_line msg = []"
    unfolding t(1) first_line_def rest_line_def by simp_all
  have found: "strchr (conn_buffer ?conn) NEWLINE = Some (length t)"
    using find_newline [OF s(1) nl(2)] nl(1) s(2,3) tw t(1) by simp
  note tl = take_line_spec [OF s(1) nl(1), unfolded s(2) tw fl]
  have "empty_conn (snd (take_line ?conn (length t)))"
    using tl(2,3) pending_length [OF tl(2)] by (simp add: empty_conn_def)
  moreover have "read_connection conn (Segment msg # es) = (Line msg, snd (take_line ?conn (length t)), es)"
    using acc t found recv_whole [of msg "BUFFER_LEN - 1" es] tl(1)
    by (simp add: read_connection_def Let_def split_beta)
  ultimately show ?thesis by blast
qed

lemma read_nothing:
  assumes "empty_conn conn"
  shows "read_connection conn [] = (NeedMore, conn, [])" "read_connection conn (Closed # es) = (Gone, conn, Closed # es)"
  using assms by (simp_all add: read_connection_def empty_conn_def Let_def BUFFER_LEN_def)

lemma line_loop_whole:
  assumes "empty_conn conn" "whole_message msg"
  shows "\<exists>conn'. empty_conn conn' \<and> line_loop handle conn [Segment msg] st =
    (case handle msg st of None \<Rightarrow> None | Some st' \<Rightarrow> Some (NeedMore, conn', [], st'))"
proof -
  obtain conn' where c: "read_connection conn [Segment msg] = (Line msg, conn', [])" "empty_conn conn'"
    using read_whole [OF assms] by blast
  have "line_loop handle conn' [] st' = Some (NeedMore, conn', [], st')" for st'
    using read_nothing(1) [OF c(2)] by (simp add: line_loop.simps)
  then show ?thesis using c by (subst line_loop.simps) (auto split: option.split)
qed

lemma line_loop_closed:
  assumes "empty_conn conn"
  shows "line_loop handle conn [Closed] st = Some (Gone, conn, [Closed], st)"
  using read_nothing(2) [OF assms] by (subst line_loop.simps) simp

section \<open>Events without buffers\<close>

definition empty_buffers :: "buffers \<Rightarrow> bool" where
  "empty_buffers conns \<longleftrightarrow> (\<forall>x. empty_conn (conns x))"

lemma empty_initial: "empty_buffers initialize_connection_buffers"
  using conn_inv_initial by (simp add: empty_buffers_def empty_conn_def initialize_connection_buffers_def)

lemma empty_clear: "empty_buffers conns \<Longrightarrow> empty_buffers (clear_connection_buffer x conns)"
  by (simp add: empty_buffers_def empty_conn_def clear_connection_buffer_def conn_inv_def BUFFER_LEN_def)

definition handle_message :: "agent \<Rightarrow> fd \<Rightarrow> rx_event list \<Rightarrow> time_t \<Rightarrow> agent option" where
  "handle_message st x rx now =
     (case rx of
        [Segment msg] \<Rightarrow>
          map_option (\<lambda>st'. restart_epolloneshot st' x)
            (if x = erlangfd st then erlang_to_C st msg now else client_to_myserver st x msg now)
      | _ \<Rightarrow>
          if x = erlangfd st then Some ((sys_close (epoll_ctl_del st x) x)\<lparr>erlangfd := -1\<rparr>)
          else
            Option.bind (release_client_by_fd st x)
              (\<lambda>st1. Option.bind (handle_outbound_disconnect st1 x) (\<lambda>st2. Some (sys_close (epoll_ctl_del st2 x) x))))"

definition message_event :: "worker_args \<Rightarrow> event \<Rightarrow> agent \<Rightarrow> bool" where
  "message_event args ev st \<longleftrightarrow>
     own_fd args (ev_fd ev) \<or>
     valid_fd (ev_fd ev) \<and>
       (case ev_rx ev of
          [] \<Rightarrow> ev_out ev \<and> ev_fd ev \<noteq> erlangfd st
        | [Segment msg] \<Rightarrow> whole_message msg \<and> \<not> ev_out ev
        | [Closed] \<Rightarrow> \<not> ev_out ev
        | _ \<Rightarrow> False)"

definition no_buffers :: buffers where
  "no_buffers = (\<lambda>_. \<lparr>conn_buffer = [], accumulated_bytes = 0\<rparr>)"

definition dispatch_message :: "worker_args \<Rightarrow> event \<Rightarrow> agent \<Rightarrow> agent option" where
  "dispatch_message args ev st =
     (let x = ev_fd ev; st0 = deliver st x in
      if own_fd args x \<or> ev_out ev \<and> x \<noteq> erlangfd st
      then map_option fst (dispatch args ev (st, no_buffers))
      else handle_message st0 x (ev_rx ev) (ev_now ev))"

lemma dispatch_silent:
  assumes "own_fd args (ev_fd ev) \<or> ev_out ev \<and> ev_fd ev \<noteq> erlangfd st"
  shows "dispatch args ev (st, conns) = map_option (\<lambda>s. (fst s, conns)) (dispatch args ev (st, conns'))"
  using assms deliver_core(2) [of st "ev_fd ev"]
  by (cases "check_ourjob_timeouts (check_nodes_timeouts (deliver st (ev_fd ev)) (ev_now ev)) (ev_now ev)";
      cases "send_request (deliver st (ev_fd ev)) (ev_fd ev)")
    (auto simp: dispatch_def Let_def own_fd_def split_beta split: if_splits)

lemma update_empty: "empty_buffers conns \<Longrightarrow> empty_conn conn \<Longrightarrow> empty_buffers (conns(x := conn))"
  by (simp add: empty_buffers_def)

lemma drain_whole:
  assumes "empty_buffers conns" "valid_fd x" "whole_message msg"
  shows "\<exists>conns'. empty_buffers conns' \<and> drain_lines handle x conns [Segment msg] st =
    map_option (\<lambda>st'. (NeedMore, conns', st')) (handle msg st)"
proof -
  have "empty_conn (conns x)" using assms(1) by (simp add: empty_buffers_def)
  from line_loop_whole [OF this assms(3), of handle st] obtain conn' where
    c: "empty_conn conn'" "line_loop handle (conns x) [Segment msg] st =
      (case handle msg st of None \<Rightarrow> None | Some st' \<Rightarrow> Some (NeedMore, conn', [], st'))"
    by blast
  then show ?thesis
    using assms(2) by (intro exI [of _ "conns(x := conn')"])
      (auto simp: drain_lines_def update_empty [OF assms(1)] split: option.split)
qed

lemma drain_closed:
  assumes "empty_buffers conns" "valid_fd x"
  shows "drain_lines handle x conns [Closed] st = Some (Gone, conns, st)"
proof -
  have "empty_conn (conns x)" using assms(1) by (simp add: empty_buffers_def)
  then show ?thesis using assms(2) by (simp add: drain_lines_def line_loop_closed)
qed

lemma dispatch_message_correct:
  assumes e: "empty_buffers conns" and ev: "message_event args ev st" and r: "dispatch_message args ev st = Some st'"
  shows "\<exists>conns'. dispatch args ev (st, conns) = Some (st', conns') \<and> empty_buffers conns'"
proof (cases "own_fd args (ev_fd ev) \<or> ev_out ev \<and> ev_fd ev \<noteq> erlangfd st")
  case True
  then show ?thesis
    using r e dispatch_silent [OF True, of conns no_buffers]
    by (auto simp: dispatch_message_def Let_def)
next
  case False
  let ?x = "ev_fd ev" and ?st = "deliver st (ev_fd ev)"
  have erl: "erlangfd ?st = erlangfd st" by (rule deliver_core(2))
  have v: "valid_fd ?x" and rx: "(\<exists>msg. ev_rx ev = [Segment msg] \<and> whole_message msg) \<or> ev_rx ev = [Closed]"
    using ev False by (auto simp: message_event_def split: list.splits rx_event.splits)
  have d: "dispatch args ev (st, conns) =
      (if ?x = erlangfd st then message_from_erlang ?st conns ?x (ev_rx ev) (ev_now ev)
       else recive_message_from_remote ?st conns ?x (ev_rx ev) (ev_now ev))"
    using False erl by (auto simp: dispatch_def Let_def own_fd_def)
  have h: "handle_message ?st ?x (ev_rx ev) (ev_now ev) = Some st'"
    using r False by (simp add: dispatch_message_def Let_def)
  show ?thesis
    using rx
  proof (elim disjE exE conjE)
    fix msg assume m: "ev_rx ev = [Segment msg]" "whole_message msg"
    show ?thesis
      using drain_whole [OF e v m(2), of "\<lambda>l s. erlang_to_C s l (ev_now ev)" ?st]
        drain_whole [OF e v m(2), of "\<lambda>l s. client_to_myserver s ?x l (ev_now ev)" ?st] h erl m(1)
      unfolding d
      by (auto simp: handle_message_def message_from_erlang_def recive_message_from_remote_def split: if_splits)
  next
    assume m: "ev_rx ev = [Closed]"
    show ?thesis
      using h erl m empty_clear [OF e] drain_closed [OF e v, of "\<lambda>l s. erlang_to_C s l (ev_now ev)" ?st]
        drain_closed [OF e v, of "\<lambda>l s. client_to_myserver s ?x l (ev_now ev)" ?st] unfolding d
      by (auto simp: handle_message_def message_from_erlang_def recive_message_from_remote_def
          Let_def bind_eq_Some_conv split: if_splits)
  qed
qed

section \<open>Runs without buffers\<close>

definition message_lines :: "event \<Rightarrow> string list" where
  "message_lines ev = (case ev_rx ev of [Segment msg] \<Rightarrow> [msg] | _ \<Rightarrow> [])"

fun message_loop :: "worker_args \<Rightarrow> event list \<Rightarrow> agent \<Rightarrow> agent option" where
  "message_loop args [] st = Some st"
| "message_loop args (ev # evs) st =
     (if message_event args ev st then Option.bind (dispatch_message args ev st) (message_loop args evs) else None)"

lemma message_loop_correct:
  "message_loop args evs st = Some st' \<Longrightarrow> empty_buffers conns \<Longrightarrow>
     \<exists>conns'. event_loop args evs (st, conns) = Some (st', conns')"
proof (induction evs arbitrary: st conns)
  case (Cons ev evs)
  then obtain st1 where st1: "message_event args ev st" "dispatch_message args ev st = Some st1" "message_loop args evs st1 = Some st'"
    by (auto simp: bind_eq_Some_conv split: if_splits)
  then obtain conns1 where "dispatch args ev (st, conns) = Some (st1, conns1)" "empty_buffers conns1"
    using dispatch_message_correct [OF Cons.prems(2)] by blast
  then show ?case using Cons.IH [OF st1(3)] by simp
qed simp

text \<open>What a run shows of the agent, computed without the buffers.\<close>

lemma observe_messages:
  assumes "map_option f (message_loop args evs (fst s)) = Some v" "empty_buffers (snd s)"
  shows "map_option (\<lambda>s. f (fst s)) (event_loop args evs s) = Some v"
  using assms message_loop_correct [of args evs "fst s" _ "snd s"] by fastforce

lemma empty_demo: "empty_buffers (snd (demo_init outs))"
  by (simp add: demo_init_def empty_initial)

lemmas observe_demo = observe_messages [OF _ empty_demo]

lemma lines_of_message:
  assumes e: "empty_buffers conns" and ev: "message_event args ev st" "\<not> own_fd args (ev_fd ev)"
  shows "event_lines ev conns = message_lines ev"
proof -
  let ?c = "conns (ev_fd ev)"
  have c: "empty_conn ?c" using e by (simp add: empty_buffers_def)
  have v: "valid_fd (ev_fd ev)" using ev by (simp add: message_event_def)
  have none: "read_lines conn [] = ([], NeedMore, conn, [])" if "empty_conn conn" for conn
    using read_nothing(1) [OF that] by (subst read_lines.simps) simp
  consider "ev_rx ev = []" | msg where "ev_rx ev = [Segment msg]" "whole_message msg" | "ev_rx ev = [Closed]"
    using ev by (auto simp: message_event_def split: list.splits rx_event.splits)
  then show ?thesis
  proof cases
    case 1
    then show ?thesis using v none [OF c] by (simp add: event_lines_def message_lines_def)
  next
    case (2 msg)
    obtain conn' where "read_connection ?c [Segment msg] = (Line msg, conn', [])" "empty_conn conn'"
      using read_whole [OF c 2(2)] by blast
    then have "read_lines ?c [Segment msg] = ([msg], NeedMore, conn', [])"
      using none by (subst read_lines.simps) simp
    then show ?thesis using v 2(1) by (simp add: event_lines_def message_lines_def)
  next
    case 3
    then show ?thesis
      using v read_nothing(2) [OF c] by (simp add: event_lines_def message_lines_def read_lines.simps)
  qed
qed

definition message_ok :: "(cint \<Rightarrow> bool) \<Rightarrow> (string \<Rightarrow> bool) \<Rightarrow> worker_args \<Rightarrow> event \<Rightarrow> agent \<Rightarrow> bool" where
  "message_ok ok line_ok args ev st \<longleftrightarrow>
     own_fd args (ev_fd ev) \<or>
     (if ev_fd ev = erlangfd st
      then list_all line_ok (message_lines ev) \<and> list_all (\<lambda>i. i \<notin> live_ids st) (request_ids (message_lines ev))
      else list_all (remote_line_ok ok) (message_lines ev))"

lemma message_ok_correct:
  assumes e: "empty_buffers conns" and ev: "message_event args ev st" and m: "message_ok ok line_ok args ev st"
  shows "admissible ok args ev (st, conns)" "lines_ok line_ok args ev (st, conns)"
proof -
  have "length (message_lines ev) \<le> 1" by (auto simp: message_lines_def split: list.split rx_event.split)
  then have "distinct (request_ids (message_lines ev))"
    by (cases "message_lines ev") (auto split: option.split)
  then show "admissible ok args ev (st, conns)" "lines_ok line_ok args ev (st, conns)"
    using m lines_of_message [OF e ev]
    by (auto simp: admissible_def new_ids_def lines_ok_def message_ok_def list_all_iff split: if_splits)
qed

fun message_run :: "(cint \<Rightarrow> bool) \<Rightarrow> (string \<Rightarrow> bool) \<Rightarrow> worker_args \<Rightarrow> event list \<Rightarrow> agent \<Rightarrow> bool" where
  "message_run ok line_ok args [] st = True"
| "message_run ok line_ok args (ev # evs) st =
     (message_event args ev st \<and> message_ok ok line_ok args ev st \<and>
      (case dispatch_message args ev st of None \<Rightarrow> False | Some st' \<Rightarrow> message_run ok line_ok args evs st'))"

lemma message_step:
  assumes "message_run ok line_ok args (ev # evs) st" and e: "empty_buffers conns"
  obtains st1 conns1 where "dispatch args ev (st, conns) = Some (st1, conns1)" "empty_buffers conns1"
    "message_run ok line_ok args evs st1" "admissible ok args ev (st, conns)" "lines_ok line_ok args ev (st, conns)"
proof -
  obtain st1 where st1: "message_event args ev st" "message_ok ok line_ok args ev st" "dispatch_message args ev st = Some st1"
    "message_run ok line_ok args evs st1"
    using assms(1) by (auto split: option.splits)
  show ?thesis
    using that message_ok_correct [OF e st1(1,2)] dispatch_message_correct [OF e st1(1,3)] st1(4) by blast
qed

lemma message_run_ok:
  "message_run ok line_ok args evs st \<Longrightarrow> empty_buffers conns \<Longrightarrow> run_ok ok args evs (st, conns)"
proof (induction evs arbitrary: st conns)
  case (Cons ev evs)
  show ?case by (rule message_step [OF Cons.prems]) (simp add: Cons.IH)
qed simp

lemma message_run_with:
  "message_run (\<lambda>_. True) line_ok args evs st \<Longrightarrow> empty_buffers conns \<Longrightarrow> run_with line_ok args evs (st, conns)"
proof (induction evs arbitrary: st conns)
  case (Cons ev evs)
  show ?case by (rule message_step [OF Cons.prems]) (simp add: Cons.IH)
qed simp

lemma run_ok_admits: "run_ok ok args evs s \<Longrightarrow> admits ok args evs s"
  by (induction evs arbitrary: s) (auto split: option.splits)

lemma demo_run_ok: "message_run ok (\<lambda>_. True) demo_args evs (fst (demo_init outs)) \<Longrightarrow> run_ok ok demo_args evs (demo_init outs)"
  using message_run_ok [of ok "\<lambda>_. True" demo_args evs "fst (demo_init outs)" "snd (demo_init outs)"] empty_demo by simp

lemma demo_run_with:
  "message_run (\<lambda>_. True) line_ok demo_args evs (fst (demo_init outs)) \<Longrightarrow> run_with line_ok demo_args evs (demo_init outs)"
  using message_run_with [of line_ok demo_args evs "fst (demo_init outs)" "snd (demo_init outs)"] empty_demo by simp

section \<open>Contention\<close>

text \<open>Two peers compete for four CPUs: the first holds three, the second waits, one CPU is free.\<close>

definition demo_contention :: "event list" where
  "demo_contention = [accept_peer 10, accept_peer 11, receive 10 ''RESERVE 7 cpu 3'', receive 11 ''RESERVE 8 cpu 3'']"

lemma contention_run:
  "\<exists>s. event_loop demo_args demo_contention (demo_init []) = Some s \<and> reachable (\<lambda>amount. 0 \<le>s amount) demo_args s \<and>
     reachable (\<lambda>_. True) demo_args s \<and> queue_list (cpu_queue (fst s)) = [make_request 8 11 3]"
proof -
  have "run_ok (\<lambda>amount. 0 \<le>s amount) demo_args demo_contention (demo_init [])"
    unfolding demo_contention_def by (rule demo_run_ok) code_simp
  then obtain s where s: "event_loop demo_args demo_contention (demo_init []) = Some s"
    "reachable (\<lambda>amount. 0 \<le>s amount) demo_args s"
    using run_ok_reachable [OF demo_reachable] by blast
  have "map_option (\<lambda>s. queue_list (cpu_queue (fst s))) (event_loop demo_args demo_contention (demo_init [])) =
      Some [make_request 8 11 3]"
    unfolding demo_contention_def by (rule observe_demo) code_simp
  then show ?thesis using s reachable_mono [OF s(2)] by auto
qed

end
