(* ===== verification/Job_Order.thy ===== *)
theory Job_Order
  imports Message_Events Job_Lifecycle
begin

text \<open>
  What stays true of a local job while the agent works for it. The handlers change a live job
  in two ways only: they note the socket of the request in flight, and they move the head of the list
  of pending requests to what is granted. The locale \<open>job_contract\<close> says what a predicate of
  jobs has to satisfy to hold of every live job in every state that can be reached when the
  \<open>JOB_REQUEST\<close> lines satisfy \<open>line_ok\<close>.
\<close>

section \<open>Jobs before and after a handler\<close>

text \<open>The only change to a job outside a grant: the socket of the request in flight.\<close>

definition on_socket :: "local_job_t \<Rightarrow> local_job_t \<Rightarrow> bool" where
  "on_socket j0 j \<longleftrightarrow> (\<exists>x. j = j0\<lparr>lj_origin_socket := x\<rparr>)"

lemma on_socket_intros [simp]: "on_socket j j" "on_socket j (j\<lparr>lj_origin_socket := x\<rparr>)"
proof -
  have "j = j\<lparr>lj_origin_socket := lj_origin_socket j\<rparr>" by simp
  then show "on_socket j j" unfolding on_socket_def by blast
qed (auto simp: on_socket_def)

lemma ask_data:
  assumes "ask_for_next_resource st a = Some st'"
  shows "table_data (table_localjobs st') = table_data (table_localjobs st) \<or>
    (\<exists>x. table_data (table_localjobs st') =
       map (\<lambda>j. if lj_self j = a then j\<lparr>lj_origin_socket := x\<rparr> else j) (table_data (table_localjobs st)))"
  using assms by (auto simp: ask_for_next_resource_def Let_def split: option.splits list.splits if_splits)

lemma ask_live:
  assumes "ask_for_next_resource st a = Some st'" "live_job st' j"
  shows "\<exists>j0. live_job st j0 \<and> on_socket j0 j"
  using ask_data [OF assms(1)]
proof
  assume "\<exists>x. table_data (table_localjobs st') =
       map (\<lambda>j. if lj_self j = a then j\<lparr>lj_origin_socket := x\<rparr> else j) (table_data (table_localjobs st))"
  then obtain x j0 where "live_job st j0" "j = (if lj_self j0 = a then j0\<lparr>lj_origin_socket := x\<rparr> else j0)"
    using assms(2) by (auto simp: live_job_def)
  then show ?thesis by (intro exI [of _ j0]) simp
qed (use assms(2) in \<open>auto simp: live_job_def intro: exI [of _ j]\<close>)

lemma grant_live:
  assumes inv: "client_inv st" and r: "handle_granted st x i now = Some st'" and j: "live_job st' j"
  shows "\<exists>j0 j1. live_job st j0 \<and> (j1 = j0 \<or> lj_next_req j0 \<noteq> [] \<and> j1 = grant_head x now j0) \<and> on_socket j1 j"
proof (cases "tablahash_find (table_ourjobs st) (fd_key x)")
  case None
  then have "st' = st" using r by (simp add: handle_granted_def)
  then show ?thesis using j on_socket_intros(1) [of j] by blast
next
  case (Some e)
  obtain job where job: "deref_job st (entry_job e) = Some job" "lj_self job = entry_job e"
    "lj_next_req job \<noteq> []" "job \<in> set (table_data (table_localjobs st))"
    by (rule index_deref [OF inv Some])
  let ?f = "\<lambda>j. (case lj_next_req j of [] \<Rightarrow> j
      | req # rest \<Rightarrow> j\<lparr>lj_next_req := rest, lj_granted_reqs := req\<lparr>pr_provider_fd := x\<rparr> # lj_granted_reqs j\<rparr>)
      \<lparr>lj_timer := now\<rparr>"
  have only: "k = job" if "live_job st k" "lj_self k = entry_job e" for k
    using deref_live [OF inv, of k] that job(1) by (simp add: live_job_def)
  have head: "?f job = grant_head x now job" using job(3) by (cases "lj_next_req job") (simp_all add: grant_head_def)
  show ?thesis
  proof (cases "lj_job_id job = i")
    case False
    then have "st' = st" using r Some job(1) by (simp add: handle_granted_def)
    then show ?thesis using j on_socket_intros(1) [of j] by blast
  next
    case True
    let ?st1 = "write_job st (entry_job e) ?f"
    let ?st2 = "epoll_ctl_del (?st1\<lparr>table_ourjobs := tablahash_remove_lock (table_ourjobs ?st1) (fd_key x)\<rparr>) x"
    have "ask_for_next_resource ?st2 (entry_job e) = Some st'"
      using r Some job(1) True by (simp add: handle_granted_def)
    then obtain j1 where j1: "live_job ?st2 j1" "on_socket j1 j" using ask_live j by blast
    then obtain j0 where "live_job st j0" "j1 = (if lj_self j0 = entry_job e then ?f j0 else j0)"
      by (auto simp: live_job_def)
    then show ?thesis using j1(2) only [of j0] head job(3) by (metis (no_types, lifting))
  qed
qed

lemma denied_live:
  assumes inv: "client_inv st" and r: "handle_denied st x = Some st'" and j: "live_job st' j"
  shows "live_job st j"
proof (cases "tablahash_find (table_ourjobs st) (fd_key x)")
  case None
  then show ?thesis using r j by (simp add: handle_denied_def)
next
  case (Some e)
  obtain job where job: "deref_job st (entry_job e) = Some job" by (rule index_deref [OF inv Some])
  show ?thesis
    by (rule deny_step [OF inv Some job, of "''rejected''" "id_str (lj_job_id job)"])
      (use Some job r j in \<open>auto simp: handle_denied_def Let_def retire_job_def live_job_def\<close>)
qed

lemma disconnect_live:
  assumes "client_inv st" "handle_outbound_disconnect st x = Some st'" "live_job st' j"
  shows "live_job st j"
  using denied_live [OF assms(1) _ assms(3), of x] assms(2) by (simp add: handle_denied_def handle_outbound_disconnect_def)

lemma released_live:
  assumes "client_inv st" "job_release st tokens = Some st'" "live_job st' j"
  shows "live_job st j"
  using assms job_release_live [OF assms(1,2), of j] by (cases "2 \<le> length tokens") (auto simp: job_release_def)

lemma send_request_live: "send_request st x = Some st' \<Longrightarrow> live_job st' j \<longleftrightarrow> live_job st j"
  by (auto simp: send_request_def live_job_def split: option.splits list.splits)

lemma request_live:
  assumes inv: "client_inv st" and r: "job_request st tokens now = Some st'" and j: "live_job st' j"
  defines "new \<equiv> \<lparr>lj_self = fresh_job st, lj_job_id = atoi (tokens ! 1), lj_erlang_socket = erlangfd st,
    lj_origin_socket = -1, lj_next_req = parse_dests st (drop 2 tokens), lj_granted_reqs = [], lj_timer = now\<rparr>"
  shows "live_job st j \<or> (\<exists>j0. (live_job st j0 \<or> 3 \<le> length tokens \<and> j0 = new) \<and> on_socket j0 j)"
proof (cases "length tokens < 3")
  case True
  then show ?thesis using r j by (auto simp: job_request_def live_job_def split: if_splits)
next
  case False
  let ?st1 = "st\<lparr>table_localjobs := tablahash_insert (table_localjobs st) new, fresh_job := Suc (fresh_job st)\<rparr>"
  have "ask_for_next_resource ?st1 (fresh_job st) = Some st'"
    using r False by (simp add: job_request_def Let_def new_def)
  from ask_live [OF this j] obtain j0 where j0: "live_job ?st1 j0" "on_socket j0 j" by blast
  have "j0 = new \<or> live_job st j0"
    using j0(1) localjobs.insert_set [OF client_invD(1) [OF inv], of new] by (auto simp: live_job_def copy_localjob_def)
  then show ?thesis using j0(2) False by auto
qed

section \<open>Every live job\<close>

abbreviation conserved_agent :: "agent \<Rightarrow> bool" where
  "conserved_agent \<equiv> agent_ok (\<lambda>st. server_inv st \<and> pool_conserved local_capacity st)"

lemma conserved_client: "conserved_agent st \<Longrightarrow> client_inv st"
  by (simp add: agent_ok_def)

lemma reachable_with_conserved: "reachable_with line_ok args s \<Longrightarrow> conserved_agent (fst s)"
  using conserved.reachable_ok [OF started_conserved reachable_with_reachable] .

lemma same_live: "table_localjobs st' = table_localjobs st \<Longrightarrow> live_job st' j = live_job st j"
  by (simp add: live_job_def)

locale job_contract =
  fixes Q :: "local_job_t \<Rightarrow> bool" and line_ok :: "string \<Rightarrow> bool"
  assumes Q_socket: "Q j \<Longrightarrow> on_socket j j' \<Longrightarrow> Q j'"
    and Q_grant: "Q j \<Longrightarrow> lj_next_req j \<noteq> [] \<Longrightarrow> Q (grant_head x now j)"
    and Q_new: "line_ok l \<Longrightarrow> get_token (strncpy_z BUFFER_LEN l) 32 = tokens \<Longrightarrow> 3 \<le> length tokens \<Longrightarrow>
      tokens ! 0 = ''JOB_REQUEST'' \<Longrightarrow>
      Q \<lparr>lj_self = a, lj_job_id = atoi (tokens ! 1), lj_erlang_socket = e, lj_origin_socket = -1,
         lj_next_req = parse_dests st (drop 2 tokens), lj_granted_reqs = [], lj_timer = now\<rparr>"
begin

definition jobs_ok :: "agent \<Rightarrow> bool" where
  "jobs_ok st \<longleftrightarrow> (\<forall>j. live_job st j \<longrightarrow> Q j)"

lemma jobs_ok_cong: "table_localjobs st' = table_localjobs st \<Longrightarrow> jobs_ok st' = jobs_ok st"
  by (simp add: jobs_ok_def live_job_def)

lemma jobs_ok_less: "jobs_ok st \<Longrightarrow> (\<And>j. live_job st' j \<Longrightarrow> live_job st j) \<Longrightarrow> jobs_ok st'"
  by (simp add: jobs_ok_def)

lemma jobs_ok_granted:
  assumes "client_inv st" "jobs_ok st" "handle_granted st x i now = Some st'"
  shows "jobs_ok st'"
  unfolding jobs_ok_def using grant_live [OF assms(1,3)] assms(2) Q_socket Q_grant by (metis jobs_ok_def)

lemma remote_line_jobs:
  assumes c: "client_inv st" and q: "jobs_ok st" and r: "client_to_myserver st x l now = Some st'"
  shows "jobs_ok st'"
proof -
  have server: "jobs_ok st1" if "client_same st st1" for st1
    using that q jobs_ok_cong [of st1 st] by (simp add: client_same_def)
  have denied: "jobs_ok st1" if "handle_denied st x = Some st1" for st1
    using jobs_ok_less [OF q] denied_live [OF c that] by blast
  show ?thesis
    using r q server [OF enqueue_jobs_client] server [OF release_client_client] denied jobs_ok_granted [OF c q]
    by (auto simp: client_to_myserver_def Let_def split: if_splits)
qed

lemma remote_lines_jobs:
  "conserved_agent st \<Longrightarrow> jobs_ok st \<Longrightarrow> handle_lines (\<lambda>l s. client_to_myserver s x l now) ls st = Some st' \<Longrightarrow>
     conserved_agent st' \<and> jobs_ok st'"
proof (induction ls arbitrary: st)
  case (Cons l ls)
  then obtain st1 where st1: "client_to_myserver st x l now = Some st1"
    "handle_lines (\<lambda>l s. client_to_myserver s x l now) ls st1 = Some st'" by (auto simp: bind_eq_Some_conv)
  have "conserved_agent st1"
    using conserved.remote_line_result [OF Cons.prems(1), of l x now] st1(1) by (simp add: remote_line_ok_def)
  then show ?case
    using Cons.IH [OF _ _ st1(2)] remote_line_jobs [OF conserved_client [OF Cons.prems(1)] Cons.prems(2) st1(1)] by blast
qed simp

lemma scheduler_line_jobs:
  assumes c: "client_inv st" and q: "jobs_ok st" and l: "line_ok l" and r: "erlang_to_C st l now = Some st'"
  shows "jobs_ok st'"
proof -
  let ?t = "get_token (strncpy_z BUFFER_LEN l) 32"
  have req: "jobs_ok st1" if "job_request st ?t now = Some st1" "?t ! 0 = ''JOB_REQUEST''" for st1
    unfolding jobs_ok_def
    using request_live [OF c that(1)] q Q_socket Q_new [OF l refl _ that(2)] by (metis jobs_ok_def)
  have "jobs_ok (job_status st ?t)" "jobs_ok (get_nodes st)"
    using q by (auto simp: job_status_def get_nodes_def jobs_ok_def live_job_def split: option.split)
  then show ?thesis
    using r q req jobs_ok_less [OF q] released_live [OF c]
    by (auto simp: erlang_to_C_def Let_def split: if_splits)
qed

lemma scheduler_lines_jobs:
  "conserved_agent st \<Longrightarrow> jobs_ok st \<Longrightarrow> distinct (request_ids ls) \<Longrightarrow> set (request_ids ls) \<inter> live_ids st = {} \<Longrightarrow>
     list_all line_ok ls \<Longrightarrow> handle_lines (\<lambda>l s. erlang_to_C s l now) ls st = Some st' \<Longrightarrow> jobs_ok st'"
proof (induction ls arbitrary: st)
  case (Cons l ls)
  then obtain st1 where st1: "erlang_to_C st l now = Some st1"
    "handle_lines (\<lambda>l s. erlang_to_C s l now) ls st1 = Some st'" by (auto simp: bind_eq_Some_conv)
  have "i \<notin> live_ids st" if "request_id l = Some i" for i using that Cons.prems(4) by auto
  from conserved.scheduler_line_result [OF Cons.prems(1), of l now, OF this]
  have c1: "conserved_agent st1" "live_ids st1 \<subseteq> live_ids st \<union> set_option (request_id l)" using st1(1) by simp_all
  have "set (request_ids ls) \<inter> live_ids st1 = {}" "distinct (request_ids ls)"
    using c1(2) Cons.prems(3,4) by (cases "request_id l"; fastforce)+
  moreover have "jobs_ok st1"
    using scheduler_line_jobs [OF conserved_client [OF Cons.prems(1)] Cons.prems(2) _ st1(1)] Cons.prems(5) by simp
  ultimately show ?case using Cons.IH [OF c1(1) _ _ _ _ st1(2)] Cons.prems(5) by simp
qed simp

text \<open>The message handlers, whose end touches no job except in the disconnect of a provider.\<close>

lemma erlang_message_jobs:
  assumes c: "conserved_agent st" and q: "jobs_ok st" and ls: "valid_fd x \<Longrightarrow> read_lines (conns x) rx = (ls, res, conn', rx')"
    and l: "valid_fd x \<Longrightarrow> distinct (request_ids ls) \<and> set (request_ids ls) \<inter> live_ids st = {} \<and> list_all line_ok ls"
    and r: "message_from_erlang st conns x rx now = Some (st', conns')"
  shows "jobs_ok st'"
proof (cases "valid_fd x")
  case True
  then obtain st1 where st1: "handle_lines (\<lambda>l s. erlang_to_C s l now) ls st = Some st1"
    "table_localjobs st' = table_localjobs st1"
    using r line_loop_lines [OF ls [OF True]]
    by (auto simp: message_from_erlang_def drain_lines_def Let_def split: option.splits if_splits)
  have "jobs_ok st1" using scheduler_lines_jobs [OF c q _ _ _ st1(1)] l [OF True] by blast
  then show ?thesis using jobs_ok_cong [OF st1(2)] by simp
next
  case False
  then show ?thesis
    using r q by (auto simp: message_from_erlang_def drain_lines_def Let_def jobs_ok_def live_job_def)
qed

lemma remote_message_jobs:
  assumes c: "conserved_agent st" and q: "jobs_ok st" and ls: "valid_fd x \<Longrightarrow> read_lines (conns x) rx = (ls, res, conn', rx')"
    and r: "recive_message_from_remote st conns x rx now = Some (st', conns')"
  shows "jobs_ok st'"
proof -
  obtain res1 conns1 st1 where d: "drain_lines (\<lambda>l s. client_to_myserver s x l now) x conns rx st = Some (res1, conns1, st1)"
    using r by (auto simp: recive_message_from_remote_def split: option.splits)
  have st1: "conserved_agent st1 \<and> jobs_ok st1"
  proof (cases "valid_fd x")
    case True
    then show ?thesis
      using d line_loop_lines [OF ls [OF True]] remote_lines_jobs [OF c q, of x now ls st1]
      by (auto simp: drain_lines_def split: option.splits)
  next
    case False
    then show ?thesis using d c q by (simp add: drain_lines_def)
  qed
  show ?thesis
  proof (cases "res1 = Gone")
    case False
    then have "table_localjobs st' = table_localjobs st1"
      using r d by (auto simp: recive_message_from_remote_def)
    then show ?thesis using st1 jobs_ok_cong by blast
  next
    case True
    then obtain st2 st3 where st3: "release_client_by_fd st1 x = Some st2" "handle_outbound_disconnect st2 x = Some st3"
      "table_localjobs st' = table_localjobs st3"
      using r d by (auto simp: recive_message_from_remote_def bind_eq_Some_conv)
    have same: "client_same st1 st2" using release_client_client [OF st3(1)] .
    then have "client_inv st2" "jobs_ok st2"
      using st1 client_inv_cong [of st2 st1] jobs_ok_cong [of st2 st1] by (simp_all add: client_same_def agent_ok_def)
    then have "jobs_ok st3" using jobs_ok_less disconnect_live [OF _ st3(2)] by blast
    then show ?thesis using jobs_ok_cong [OF st3(3)] by simp
  qed
qed

lemma dispatch_jobs:
  assumes c: "conserved_agent (fst s)" and q: "jobs_ok (fst s)" and ev: "admissible (\<lambda>_. True) args ev s" "lines_ok line_ok args ev s"
    and r: "dispatch args ev s = Some s'"
  shows "jobs_ok (fst s')"
proof -
  let ?x = "ev_fd ev"
  define st where "st = deliver (fst s) ?x"
  have core: "core_same (fst s) st" "erlangfd st = erlangfd (fst s)" unfolding st_def by (rule deliver_core)+
  have st: "conserved_agent st" "jobs_ok st" "live_ids st = live_ids (fst s)"
    using conserved.core_ok [OF core(1) c] q jobs_ok_cong [of st "fst s"] core(1) by (simp_all add: core_same_def live_ids_def)
  obtain ls res conn' rx' where ls: "read_lines (snd s ?x) (ev_rx ev) = (ls, res, conn', rx')"
    by (metis prod_cases4)
  have lines: "event_lines ev (snd s) = ls" if "valid_fd ?x" using ls that by (simp add: event_lines_def)
  have erl: "jobs_ok st'" if "\<not> own_fd args ?x" "?x = erlangfd st"
    "message_from_erlang st (snd s) ?x (ev_rx ev) (ev_now ev) = Some (st', conns')" for st' conns'
  proof (rule erlang_message_jobs [OF st(1,2) ls _ that(3)])
    assume "valid_fd ?x"
    then show "distinct (request_ids ls) \<and> set (request_ids ls) \<inter> live_ids st = {} \<and> list_all line_ok ls"
      using ev that(1,2) lines st(3) core(2) by (auto simp: admissible_def new_ids_def lines_ok_def)
  qed
  have rem: "jobs_ok st'" if "recive_message_from_remote st (snd s) ?x (ev_rx ev) (ev_now ev) = Some (st', conns')" for st' conns'
    by (rule remote_message_jobs [OF st(1,2) _ that]) (rule ls)
  have sweep: "jobs_ok st'" if "check_ourjob_timeouts (check_nodes_timeouts st now) now = Some st'" for st' now
  proof -
    let ?st1 = "check_nodes_timeouts st now"
    have same: "table_localjobs ?st1 = table_localjobs st" "client_inv ?st1"
      using conserved_client [OF st(1)] by (simp_all add: check_nodes_timeouts_filter client_inv_def)
    then have "jobs_ok ?st1" using st(2) jobs_ok_cong by blast
    then show ?thesis
      using that timeout_jobs_live [OF same(2)] by (auto simp: check_ourjob_timeouts_def jobs_ok_def)
  qed
  have snd: "jobs_ok st'" if "send_request st ?x = Some st'" for st'
    using st(2) send_request_live [OF that] by (simp add: jobs_ok_def)
  have idle: "jobs_ok ((fst (connect_erlang st y p b))\<lparr>erlangfd := n\<rparr>)" "jobs_ok (connect_client st y p b)"
    "jobs_ok (restart_epolloneshot (udp_broadcast st y n) ?x)" for y p b n
    using conserved.accept_core [of st] st(2) jobs_ok_cong by (simp_all add: core_same_def jobs_ok_def live_job_def)
  have udp: "jobs_ok (udp_datagram_from_remote st bytes sender now)" for bytes sender now
    using st(2) by (simp add: udp_datagram_from_remote_def Let_def jobs_ok_def live_job_def)
  have rearm: "jobs_ok (restart_epolloneshot st' ?x) = jobs_ok st'" for st'
    by (rule jobs_ok_cong) simp
  show ?thesis
    using r unfolding dispatch_def Let_def st_def [symmetric]
    using erl rem sweep snd idle udp rearm st(2)
    by (cases s') (auto simp: own_fd_def split_beta bind_eq_Some_conv split: if_splits)
qed

lemma reachable_jobs:
  assumes "reachable_with line_ok args s" "live_job (fst s) j"
  shows "Q j"
proof -
  from assms(1) have "jobs_ok (fst s)"
  proof induction
    case (start s)
    obtain outs peers inet port sr where "setup_epoll (main_init outs peers inet) port sr = Inr (args, fst s)"
      by (rule started_setup [OF start])
    from setup_epoll_core [OF this] show ?case
      by (simp add: core_same_def jobs_ok_def live_job_def) (simp add: main_init_def created_empty)
  next
    case (step s ev s')
    then show ?case using dispatch_jobs [OF reachable_with_conserved] by blast
  qed
  then show ?thesis using assms(2) by (simp add: jobs_ok_def)
qed

end

section \<open>A job asks for what it was requested for\<close>

text \<open>
  The destinations of a request as the scheduler named them. The port is left out: the agent
  looks it up among the peers it knows when the line arrives.
\<close>

definition request_of :: "pending_resource_t \<Rightarrow> string \<times> cint \<times> string" where
  "request_of r = (pr_type r, pr_amount r, pr_dest_ip r)"

definition job_plan :: "local_job_t \<Rightarrow> (string \<times> cint \<times> string) list" where
  "job_plan j = map request_of (rev (lj_granted_reqs j) @ lj_next_req j)"

definition line_plan :: "string \<Rightarrow> (string \<times> cint \<times> string) list" where
  "line_plan l = map request_of (parse_dests new_agent (drop 2 (get_token (strncpy_z BUFFER_LEN l) 32)))"

definition follows :: "(string \<Rightarrow> bool) \<Rightarrow> local_job_t \<Rightarrow> bool" where
  "follows line_ok j \<longleftrightarrow> (\<exists>l. line_ok l \<and> request_id l = Some (lj_job_id j) \<and> job_plan j = line_plan l)"

lemma parse_dest_request: "map_option request_of (parse_dest st tok) = map_option request_of (parse_dest st' tok)"
  by (simp add: parse_dest_def Let_def request_of_def split: prod.split option.split list.split)

lemma parse_dests_request: "map request_of (parse_dests st toks) = map request_of (parse_dests st' toks)"
proof (induction toks)
  case (Cons tok toks)
  then show ?case
    using parse_dest_request [of st tok st'] by (cases "parse_dest st tok"; cases "parse_dest st' tok") simp_all
qed simp

interpretation plans: job_contract "follows line_ok" line_ok for line_ok
proof unfold_locales
  fix j j' assume "follows line_ok j" "on_socket j j'"
  then show "follows line_ok j'" by (auto simp: follows_def on_socket_def job_plan_def)
next
  fix j :: local_job_t and x now assume "follows line_ok j" "lj_next_req j \<noteq> []"
  then show "follows line_ok (grant_head x now j)"
    by (cases "lj_next_req j") (simp_all add: follows_def grant_head_def job_plan_def request_of_def)
next
  fix l tokens a e st now
  assume l: "line_ok l" "get_token (strncpy_z BUFFER_LEN l) 32 = tokens" "3 \<le> length tokens" "tokens ! 0 = ''JOB_REQUEST''"
  let ?j = "\<lparr>lj_self = a, lj_job_id = atoi (tokens ! 1), lj_erlang_socket = e, lj_origin_socket = -1,
         lj_next_req = parse_dests st (drop 2 tokens), lj_granted_reqs = [], lj_timer = now\<rparr>"
  have "request_id l = Some (lj_job_id ?j)" using l by (simp add: request_id_def)
  moreover have "job_plan ?j = line_plan l"
    using l(2) parse_dests_request [of st "drop 2 tokens" new_agent] by (simp add: job_plan_def line_plan_def)
  ultimately show "follows line_ok ?j" using l(1) unfolding follows_def by blast
qed

section \<open>Properties\<close>

text \<open>
  C12. A job asks for exactly what its scheduler requested: in every state the agent reaches
  while its scheduler asks for no id that is still live, what a live job was granted so far, in order, followed by what it still has to ask for, is the list of the
  resources, amounts and addresses of a \<open>JOB_REQUEST\<close> line with its id. Nothing is
  skipped, repeated or asked for out of turn, whatever the peers answer.
\<close>

theorem jobs_follow_their_request:
  assumes "reachable_with line_ok args s" "live_job (fst s) j"
  shows "\<exists>l. line_ok l \<and> request_id l = Some (lj_job_id j) \<and>
    map request_of (rev (lj_granted_reqs j) @ lj_next_req j) = line_plan l"
  using plans.reachable_jobs [OF assms] by (simp add: follows_def job_plan_def)

definition demo_granted :: "event list" where
  "demo_granted = [accept_scheduler 20, receive 20 ''JOB_REQUEST 1 @10.0.0.2:cpu:2 @10.0.0.3:mem:5'', receive 30 ''GRANTED 1'']"

theorem jobs_follow_their_request_witness:
  "\<exists>s j l. event_loop demo_args demo_granted (demo_init [connected 30, connected 31]) = Some s \<and>
     table_data (table_localjobs (fst s)) = [j] \<and> lj_granted_reqs j \<noteq> [] \<and> lj_next_req j \<noteq> [] \<and> request_id l = Some 1 \<and>
     map request_of (rev (lj_granted_reqs j) @ lj_next_req j) = line_plan l"
proof -
  let ?init = "demo_init [connected 30, connected 31]"
  have "run_with (\<lambda>_. True) demo_args demo_granted ?init"
    unfolding demo_granted_def by (rule demo_run_with) code_simp
  then obtain s where s: "event_loop demo_args demo_granted ?init = Some s" "reachable_with (\<lambda>_. True) demo_args s"
    using run_with_reachable [OF reachable_with.start [OF demo_started]] by blast
  have "map_option (\<lambda>s. map (\<lambda>j. (lj_job_id j, lj_granted_reqs j = [], lj_next_req j = [])) (table_data (table_localjobs (fst s))))
      (event_loop demo_args demo_granted ?init) = Some [(1, False, False)]"
    unfolding demo_granted_def by (rule observe_demo) code_simp
  then obtain j where j: "table_data (table_localjobs (fst s)) = [j]" "lj_job_id j = 1" "lj_granted_reqs j \<noteq> []" "lj_next_req j \<noteq> []"
    using s(1) by auto
  then have "live_job (fst s) j" by (simp add: live_job_def)
  from jobs_follow_their_request [OF s(2) this] j s(1) show ?thesis by auto
qed

end
