(* ===== verification/Deadlock.thy ===== *)
theory Deadlock
  imports Job_Order Scheduler_Utils
begin

text \<open>
  The strategy against deadlock. Every job of every node asks for its resources in the order
  CPU, memory, GPU; then no set of jobs can wait for one another in a circle. If a node does not
  keep to the order a circle can form (\<open>Cluster\<close> plays one through); what the timeout sweep of a
  node then does for the jobs of the others is shown in \<open>Two_Agents\<close>.

  The graph is drawn from the books of the clients: a waiting job of any node waits for the jobs
  that hold the resource it asks for and for those that are before it in the queue of the provider.
  Which provider an address stands for (\<open>locate\<close>) and the places in the queues (\<open>place\<close>) are arguments.
  Requests and grants that a provider keeps for connections that are gone belong to no job and are
  not part of the graph; what they do is shown in \<open>Cluster\<close>.
\<close>

section \<open>The order\<close>

fun queue_rank :: "queue_id \<Rightarrow> nat" where
  "queue_rank CPU_Q = 0"
| "queue_rank MEM_Q = 1"
| "queue_rank GPU_Q = 2"

definition type_rank :: "string \<Rightarrow> nat" where
  "type_rank t = queue_rank (resource_queue_of t)"

definition in_order :: "string list \<Rightarrow> bool" where
  "in_order ts \<longleftrightarrow> sorted_wrt (<) (map type_rank ts)"

definition ordered_line :: "string \<Rightarrow> bool" where
  "ordered_line l \<longleftrightarrow> in_order (map fst (line_plan l))"

lemma ordered_jobs:
  assumes "reachable_with ordered_line args s" "live_job (fst s) j"
  shows "in_order (map fst (job_plan j))"
  using plans.reachable_jobs [OF assms] by (auto simp: follows_def ordered_line_def)

text \<open>What an ordered job holds comes before what it waits for.\<close>

lemma held_before_pending:
  assumes "in_order (map fst (job_plan j))" "g \<in> set (lj_granted_reqs j)" "lj_next_req j = r # rest"
  shows "type_rank (pr_type g) < type_rank (pr_type r)"
  using assms by (auto simp: in_order_def job_plan_def request_of_def sorted_wrt_append)

section \<open>The waits-for graph\<close>

definition resource :: "(string \<times> cint \<Rightarrow> 'p) \<Rightarrow> pending_resource_t \<Rightarrow> 'p \<times> queue_id" where
  "resource locate r = (locate (pr_dest_ip r, pr_dest_port r), resource_queue_of (pr_type r))"

definition waits_on :: "(string \<times> cint \<Rightarrow> 'p) \<Rightarrow> local_job_t \<Rightarrow> 'p \<times> queue_id \<Rightarrow> bool" where
  "waits_on locate j p \<longleftrightarrow> (case lj_next_req j of [] \<Rightarrow> False | r # _ \<Rightarrow> resource locate r = p)"

definition holds :: "(string \<times> cint \<Rightarrow> 'p) \<Rightarrow> local_job_t \<Rightarrow> 'p \<times> queue_id \<Rightarrow> bool" where
  "holds locate j p \<longleftrightarrow> p \<in> resource locate ` set (lj_granted_reqs j)"

definition job_in :: "('n \<Rightarrow> agent) \<Rightarrow> 'n \<times> local_job_t \<Rightarrow> bool" where
  "job_in c v \<longleftrightarrow> live_job (c (fst v)) (snd v)"

inductive waits_for ::
  "(string \<times> cint \<Rightarrow> 'p) \<Rightarrow> ('n \<times> local_job_t \<Rightarrow> nat) \<Rightarrow> ('n \<Rightarrow> agent) \<Rightarrow> 'n \<times> local_job_t \<Rightarrow> 'n \<times> local_job_t \<Rightarrow> bool"
  for locate :: "string \<times> cint \<Rightarrow> 'p" and place :: "'n \<times> local_job_t \<Rightarrow> nat" and c :: "'n \<Rightarrow> agent" where
  holder: "job_in c v \<Longrightarrow> job_in c w \<Longrightarrow> waits_on locate (snd v) p \<Longrightarrow> holds locate (snd w) p \<Longrightarrow> waits_for locate place c v w"
| ahead: "job_in c v \<Longrightarrow> job_in c w \<Longrightarrow> waits_on locate (snd v) p \<Longrightarrow> waits_on locate (snd w) p \<Longrightarrow>
    place w < place v \<Longrightarrow> waits_for locate place c v w"

inductive_cases waits_forE: "waits_for locate place c v w"

lemma waits_for_pending: "waits_for locate place c v w \<Longrightarrow> lj_next_req (snd v) \<noteq> []"
  by (auto elim!: waits_forE simp: waits_on_def split: list.splits)

definition rank_left :: "'n \<times> local_job_t \<Rightarrow> nat" where
  "rank_left v = (case lj_next_req (snd v) of [] \<Rightarrow> 0 | r # _ \<Rightarrow> 3 - type_rank (pr_type r))"

lemma type_rank_less: "type_rank t < 3"
  by (cases "resource_queue_of t") (simp_all add: type_rank_def)

lemma waits_on_rank: "waits_on locate (snd v) p \<Longrightarrow> rank_left v = 3 - queue_rank (snd p)"
  by (auto simp: waits_on_def rank_left_def resource_def type_rank_def split: list.splits)

lemma holds_rank:
  assumes "in_order (map fst (job_plan (snd w)))" "holds locate (snd w) p"
  shows "rank_left w < 3 - queue_rank (snd p)"
proof -
  obtain g where g: "g \<in> set (lj_granted_reqs (snd w))" "type_rank (pr_type g) = queue_rank (snd p)"
    using assms(2) by (auto simp: holds_def resource_def type_rank_def)
  then show ?thesis
    using held_before_pending [OF assms(1) g(1)] type_rank_less [of "pr_type g"] type_rank_less
    by (auto simp: rank_left_def split: list.split)
qed

definition ordered_cluster :: "('n \<Rightarrow> agent) \<Rightarrow> bool" where
  "ordered_cluster c \<longleftrightarrow> (\<forall>v. job_in c v \<longrightarrow> in_order (map fst (job_plan (snd v))))"

lemma ordered_clusterD: "ordered_cluster c \<Longrightarrow> job_in c v \<Longrightarrow> in_order (map fst (job_plan (snd v)))"
  unfolding ordered_cluster_def by blast

lemma waits_for_descends:
  assumes "ordered_cluster c" "waits_for locate place c v w"
  shows "(w, v) \<in> measures [rank_left, place]"
  using assms(2)
proof cases
  case (holder p)
  then show ?thesis
    using ordered_clusterD [OF assms(1)] holds_rank [of w locate p] waits_on_rank [of locate v p] by simp
next
  case (ahead p)
  then show ?thesis using waits_on_rank [of locate v p] waits_on_rank [of locate w p] by simp
qed

lemma waits_for_wf:
  assumes "ordered_cluster c"
  shows "wf {(w, v). waits_for locate place c v w}"
  by (rule wf_subset [OF wf_measures [of "[rank_left, place]"]]) (use waits_for_descends [OF assms] in blast)

lemma no_circular_wait:
  assumes "ordered_cluster c"
  shows "\<not> (waits_for locate place c)\<^sup>+\<^sup>+ v v"
proof -
  let ?R = "{(w, v). waits_for locate place c v w}"
  have "(w, v) \<in> ?R\<^sup>+" if "(waits_for locate place c)\<^sup>+\<^sup>+ v w" for w
    using that by induction (blast intro: trancl_into_trancl2)+
  then show ?thesis using wf_not_refl [OF wf_trancl [OF waits_for_wf [OF assms]]] by blast
qed

text \<open>Whoever waits, waits in the end for a job that waits for nobody but jobs that have everything.\<close>

lemma somebody_can_go_on:
  assumes c: "ordered_cluster c" and v: "job_in c v" "lj_next_req (snd v) \<noteq> []"
  shows "\<exists>w. (waits_for locate place c)\<^sup>*\<^sup>* v w \<and> job_in c w \<and> lj_next_req (snd w) \<noteq> [] \<and>
    (\<forall>u. waits_for locate place c w u \<longrightarrow> lj_next_req (snd u) = [])"
  using waits_for_wf [OF c, of locate place] v
proof (induction v rule: wf_induct_rule)
  case (less v)
  show ?case
  proof (cases "\<exists>u. waits_for locate place c v u \<and> lj_next_req (snd u) \<noteq> []")
    case True
    then obtain u where u: "waits_for locate place c v u" "lj_next_req (snd u) \<noteq> []" by blast
    moreover have "job_in c u" using u(1) by (auto elim: waits_forE)
    ultimately show ?thesis using less.IH [of u] by (blast intro: converse_rtranclp_into_rtranclp)
  next
    case False
    then show ?thesis using less.prems by blast
  qed
qed

section \<open>The scheduler keeps to the order\<close>

lemma atom_rank: "type_rank ''cpu'' = 0" "type_rank ''mem'' = 1" "type_rank ''gpu'' = 2"
  by (simp_all add: type_rank_def resource_queue_of_def)

lemma asked_in_order:
  "in_order (map (fst \<circ> snd) (asked [(Cpu, n1, a1), (Mem, n2, a2), (Gpu, n3, a3)]))"
  by (simp add: asked_def in_order_def atom_rank)

lemma request_text_plan:
  assumes "\<forall>(ip, res, amount) \<in> set ds. dest_ok ip res" "length (job_request_text i ds) < BUFFER_LEN" "length ds \<le> 30"
  shows "line_plan (job_request_text i ds) = map (\<lambda>(ip, res, amount). (res, amount, ip)) ds"
  unfolding line_plan_def job_request_tokens [OF assms]
  by (simp add: parse_dests_texts [OF assms(1)]) (auto simp: request_of_def)

section \<open>Properties\<close>

text \<open>
  C10. What the scheduler prints is in order: from the peers the agent reported, with any numbers
  \<open>rand:uniform\<close> may return, the destinations of the request it prints are, as the agent parses
  them, for strictly increasing resources in the order CPU, memory, GPU.
\<close>

theorem scheduler_requests_are_ordered:
  fixes i :: cint
  assumes "rnd_ok rnd ns"
  shows "\<exists>picks line. make_resources_for_job rnd (map erl_node_of ns) = Some picks \<and>
    job_request_format (sint i) picks = Some line \<and> ordered_line line"
proof -
  let ?ds = "asked (map (chosen rnd ns) [Cpu, Mem, Gpu])"
  have n: "length ?ds \<le> 3" using asked_length [of "map (chosen rnd ns) [Cpu, Mem, Gpu]"] by simp
  then have "line_plan (job_request_text i ?ds) = map (\<lambda>(ip, res, amount). (res, amount, ip)) ?ds"
    by (intro request_text_plan asked_ok request_fits) simp_all
  then have "map fst (line_plan (job_request_text i ?ds)) = map (fst \<circ> snd) ?ds" by auto
  then have "ordered_line (job_request_text i ?ds)"
    using asked_in_order by (simp add: ordered_line_def chosen_def)
  then show ?thesis
    using make_resources_chosen [OF assms] job_request_format_words [of i] by simp
qed

theorem scheduler_requests_are_ordered_witness:
  "\<exists>picks line. make_resources_for_job (\<lambda>t. if t = Cpu then (1, 3) else (1, 1)) [erl_node_of one_peer] = Some picks \<and>
     job_request_format 7 picks = Some line \<and> ordered_line line"
proof -
  have "rnd_ok (\<lambda>t. if t = Cpu then (1 :: nat, 3) else (1, 1 :: int)) [one_peer]" by code_simp
  from scheduler_requests_are_ordered [OF this, of 7] show ?thesis by simp
qed

text \<open>
  C11. The edges of the graph are real: in every state a provider reaches, while its own scheduler asks
  for no live id again, the request at the
  head of a queue, if it asks for no more than the node has, waits for a peer to which the
  ledger records a grant of that resource.
\<close>

theorem head_waits_for_a_holder:
  assumes "reachable (\<lambda>_. True) args s" "queue_list (get_queue r (fst s)) = head # rest"
    "rq_amount_requested head \<le>s local_capacity r"
  shows "\<exists>e \<in> set (table_data (table_nodejobs (fst s))). granted_of r e \<noteq> 0"
proof (rule ccontr)
  assume "\<not> ?thesis"
  then have zero: "map (granted_of r) (table_data (table_nodejobs (fst s))) = map (\<lambda>_. 0) (table_data (table_nodejobs (fst s)))" by simp
  have "granted_total r (fst s) = 0" unfolding granted_total_def zero by (rule sum_list_0)
  moreover have "resources_left (get_queue r (fst s)) + granted_total r (fst s) = local_capacity r"
    using conserved.reachable_ok [OF started_conserved assms(1)] by (simp add: agent_ok_def pool_conserved_def)
  moreover have "settled r (fst s)"
    using idle.reachable_ok [OF started_settled assms(1)] by (simp add: agent_ok_def)
  then have "\<not> rq_amount_requested head \<le>s resources_left (get_queue r (fst s))"
    using assms(2) by (simp add: settled_def)
  ultimately show False using assms(3) by simp
qed

theorem head_waits_for_a_holder_witness:
  "\<exists>s. event_loop demo_args demo_contention (demo_init []) = Some s \<and>
     (\<exists>e \<in> set (table_data (table_nodejobs (fst s))). cpu_granted e \<noteq> 0)"
proof -
  obtain s where s: "event_loop demo_args demo_contention (demo_init []) = Some s" "reachable (\<lambda>_. True) demo_args s"
    "queue_list (get_queue CPU_Q (fst s)) = make_request 8 11 3 # []"
    using contention_run by auto
  from head_waits_for_a_holder [OF s(2,3)] s(1) show ?thesis
    by (simp add: make_request_def LOCAL_CPU_def word_sle_eq)
qed

end
