(* ===== verification/Cluster.thy ===== *)
theory Cluster
  imports Deadlock
begin

text \<open>
  A network of agents. The messages between agents are those their handlers send: what a node
  sends on a connection is read at the other end, in order, and a socket that one end closes is
  found closed at the other end after what was sent. The schedulers and the datagrams are free.

  A read hands over one message, or the end of the stream; a connection is accepted in one step.
  The numbers the kernel chooses for descriptors are those of sockets that are not open.
\<close>

section \<open>State and moves\<close>

record 'n network =
  node_args :: "'n \<Rightarrow> worker_args"
  node_at :: "string \<times> cint \<Rightarrow> 'n option"

record 'n cluster =
  nodes_of :: "'n \<Rightarrow> agent \<times> buffers"
  dialled :: "('n \<times> fd \<times> string \<times> cint) list"
  links :: "(('n \<times> fd) \<times> 'n \<times> fd) list"
  flight :: "(('n \<times> fd) \<times> string) list"
  ended :: "('n \<times> fd) list"

datatype 'n move =
    Local 'n event
  | Accept 'n fd 'n fd
  | Write 'n fd
  | Read 'n fd time_t
  | Hang_up 'n fd

abbreviation agent_of :: "'n cluster \<Rightarrow> 'n \<Rightarrow> agent" where
  "agent_of cl n \<equiv> fst (nodes_of cl n)"

text \<open>The messages on their way to an end, and the network after the first of them was read.\<close>

definition inbox :: "'n cluster \<Rightarrow> 'n \<times> fd \<Rightarrow> string list" where
  "inbox cl e = map snd (filter (\<lambda>m. fst m = e) (flight cl))"

fun take_first :: "'e \<Rightarrow> ('e \<times> 'm) list \<Rightarrow> ('e \<times> 'm) list" where
  "take_first e [] = []"
| "take_first e (m # ms) = (if fst m = e then ms else m # take_first e ms)"

definition other_end :: "('e \<times> 'e) list \<Rightarrow> 'e \<Rightarrow> 'e option" where
  "other_end ls e = (case map_of ls e of Some f \<Rightarrow> Some f | None \<Rightarrow> map_of (map prod.swap ls) e)"

fun mover :: "'n move \<Rightarrow> 'n" where
  "mover (Local n ev) = n"
| "mover (Accept n y m x) = n"
| "mover (Write n x) = n"
| "mover (Read n x now) = n"
| "mover (Hang_up n x) = n"

fun move_event :: "'n network \<Rightarrow> 'n cluster \<Rightarrow> 'n move \<Rightarrow> event" where
  "move_event net cl (Local n ev) = ev"
| "move_event net cl (Accept n y m x) = no_event\<lparr>ev_fd := socket_server (node_args net n), ev_accept := y\<rparr>"
| "move_event net cl (Write n x) = no_event\<lparr>ev_fd := x, ev_out := True\<rparr>"
| "move_event net cl (Read n x now) = no_event\<lparr>ev_fd := x, ev_rx := [Segment (hd (inbox cl (n, x)))], ev_now := now\<rparr>"
| "move_event net cl (Hang_up n x) = no_event\<lparr>ev_fd := x, ev_rx := [Closed]\<rparr>"

definition armed :: "bool \<Rightarrow> agent \<Rightarrow> fd \<Rightarrow> bool" where
  "armed out st x \<longleftrightarrow> (case epoll_set st x of None \<Rightarrow> False | Some reg \<Rightarrow> reg_armed reg \<and> reg_out reg = out)"

definition peer_fd :: "worker_args \<Rightarrow> agent \<Rightarrow> fd \<Rightarrow> bool" where
  "peer_fd args st x \<longleftrightarrow> \<not> own_fd args x \<and> x \<noteq> erlangfd st \<and> x \<in> open_fds st"

fun enabled :: "'n network \<Rightarrow> 'n cluster \<Rightarrow> 'n move \<Rightarrow> bool" where
  "enabled net cl (Local n ev) \<longleftrightarrow>
     (let args = node_args net n; st = agent_of cl n in
      ev_fd ev \<noteq> socket_server args \<and> (own_fd args (ev_fd ev) \<or> ev_fd ev = erlangfd st \<and> ev_fd ev \<in> open_fds st) \<and>
      (ev_accept ev <s 0 \<or> ev_accept ev \<notin> open_fds st))"
| "enabled net cl (Accept n y m x) \<longleftrightarrow>
     0 \<le>s y \<and> y \<notin> open_fds (agent_of cl n) \<and>
     list_ex (\<lambda>(m', x', ip, port). m' = m \<and> x' = x \<and> node_at net (ip, port) = Some n) (dialled cl)"
| "enabled net cl (Write n x) \<longleftrightarrow>
     peer_fd (node_args net n) (agent_of cl n) x \<and> armed True (agent_of cl n) x \<and> other_end (links cl) (n, x) \<noteq> None"
| "enabled net cl (Read n x now) \<longleftrightarrow>
     peer_fd (node_args net n) (agent_of cl n) x \<and> armed False (agent_of cl n) x \<and> inbox cl (n, x) \<noteq> []"
| "enabled net cl (Hang_up n x) \<longleftrightarrow>
     peer_fd (node_args net n) (agent_of cl n) x \<and> armed False (agent_of cl n) x \<and> inbox cl (n, x) = [] \<and> (n, x) \<in> set (ended cl)"

section \<open>What a handler did, seen from the network\<close>

definition new_messages :: "agent \<Rightarrow> agent \<Rightarrow> (fd \<times> string) list" where
  "new_messages st st' = drop (length (sent st)) (sent st')"

definition new_dials :: "agent \<Rightarrow> agent \<Rightarrow> (fd \<times> string \<times> cint) list" where
  "new_dials st st' = drop (length (connects st)) (connects st')"

definition carried :: "'n \<Rightarrow> (('n \<times> fd) \<times> 'n \<times> fd) list \<Rightarrow> (fd \<times> string) list \<Rightarrow> (('n \<times> fd) \<times> string) list" where
  "carried n ls ms = List.map_filter (\<lambda>(x, m). map_option (\<lambda>e. (e, m)) (other_end ls (n, x))) ms"

definition closed_end :: "'n \<Rightarrow> agent \<Rightarrow> 'n \<times> fd \<Rightarrow> bool" where
  "closed_end n st' e \<longleftrightarrow> fst e = n \<and> snd e \<notin> open_fds st'"

definition transmit :: "'n \<Rightarrow> agent \<times> buffers \<Rightarrow> 'n cluster \<Rightarrow> 'n cluster" where
  "transmit n s' cl =
     (let st = agent_of cl n; st' = fst s'; dials = new_dials st st';
          fresh = map (\<lambda>d. (n, fst d)) dials;
          lost = List.map_filter (other_end (links cl)) (filter (closed_end n st') (map fst (links cl) @ map snd (links cl)))
      in cl\<lparr>nodes_of := (nodes_of cl)(n := s'),
           dialled := filter (\<lambda>(m, x, a). \<not> closed_end n st' (m, x)) (dialled cl @ map (\<lambda>(x, a). (n, x, a)) dials),
           links := filter (\<lambda>(e, f). \<not> closed_end n st' e \<and> \<not> closed_end n st' f) (links cl),
           flight := filter (\<lambda>m. fst m \<notin> set fresh) (flight cl @ carried n (links cl) (new_messages st st')),
           ended := filter (\<lambda>e. e \<notin> set fresh) (ended cl @ lost)\<rparr>)"

text \<open>The move takes a message from the network or adds a connection, the handler runs, the network takes over.\<close>

fun arrange :: "'n move \<Rightarrow> 'n cluster \<Rightarrow> 'n cluster" where
  "arrange (Read n x now) cl = cl\<lparr>flight := take_first (n, x) (flight cl)\<rparr>"
| "arrange (Accept n y m x) cl =
     cl\<lparr>dialled := filter (\<lambda>(m', x', a). \<not> (m' = m \<and> x' = x)) (dialled cl),
        links := ((m, x), (n, y)) # links cl,
        flight := filter (\<lambda>m. fst m \<noteq> (n, y)) (flight cl), ended := filter (\<lambda>e. e \<noteq> (n, y)) (ended cl)\<rparr>"
| "arrange (Local n ev) cl = cl"
| "arrange (Write n x) cl = cl"
| "arrange (Hang_up n x) cl = cl"

definition perform_by ::
  "(worker_args \<Rightarrow> event \<Rightarrow> agent \<times> buffers \<Rightarrow> (agent \<times> buffers) option) \<Rightarrow> 'n network \<Rightarrow> 'n move \<Rightarrow> 'n cluster \<Rightarrow>
     'n cluster option" where
  "perform_by react net mv cl =
     (let n = mover mv; s = nodes_of cl n in
      if enabled net cl mv then
        (case react (node_args net n) (move_event net cl mv) s of
           None \<Rightarrow> None
         | Some s' \<Rightarrow>
             if list_all (\<lambda>d. fst d \<notin> open_fds (fst s)) (new_dials (fst s) (fst s')) \<and>
                distinct (map fst (new_dials (fst s) (fst s')))
             then Some (transmit n s' (arrange mv cl)) else None)
      else None)"

abbreviation perform :: "'n network \<Rightarrow> 'n move \<Rightarrow> 'n cluster \<Rightarrow> 'n cluster option" where
  "perform \<equiv> perform_by dispatch"

fun cluster_run_by ::
  "(worker_args \<Rightarrow> event \<Rightarrow> agent \<times> buffers \<Rightarrow> (agent \<times> buffers) option) \<Rightarrow> 'n network \<Rightarrow> 'n move list \<Rightarrow> 'n cluster \<Rightarrow>
     'n cluster option" where
  "cluster_run_by react net [] cl = Some cl"
| "cluster_run_by react net (mv # mvs) cl = Option.bind (perform_by react net mv cl) (cluster_run_by react net mvs)"

abbreviation cluster_run :: "'n network \<Rightarrow> 'n move list \<Rightarrow> 'n cluster \<Rightarrow> 'n cluster option" where
  "cluster_run \<equiv> cluster_run_by dispatch"

definition new_cluster :: "('n \<Rightarrow> agent \<times> buffers) \<Rightarrow> 'n cluster" where
  "new_cluster s = \<lparr>nodes_of = s, dialled = [], links = [], flight = [], ended = []\<rparr>"

section \<open>Reachable clusters\<close>

text \<open>
  The schedulers reuse no live id, and their lines satisfy \<open>line_ok\<close>; the agents may say to one
  another what they like.
\<close>

definition scheduler_ok :: "(string \<Rightarrow> bool) \<Rightarrow> 'n network \<Rightarrow> 'n move \<Rightarrow> 'n cluster \<Rightarrow> bool" where
  "scheduler_ok line_ok net mv cl \<longleftrightarrow>
     (let args = node_args net (mover mv); ev = move_event net cl mv; s = nodes_of cl (mover mv) in
      admissible (\<lambda>_. True) args ev s \<and> lines_ok line_ok args ev s)"

inductive cluster_reachable :: "(string \<Rightarrow> bool) \<Rightarrow> 'n network \<Rightarrow> 'n cluster \<Rightarrow> bool"
  for line_ok :: "string \<Rightarrow> bool" and net :: "'n network" where
  start: "(\<And>n. started (node_args net n) (s n)) \<Longrightarrow> cluster_reachable line_ok net (new_cluster s)"
| step: "cluster_reachable line_ok net cl \<Longrightarrow> scheduler_ok line_ok net mv cl \<Longrightarrow> perform net mv cl = Some cl' \<Longrightarrow>
    cluster_reachable line_ok net cl'"

fun cluster_run_ok :: "(string \<Rightarrow> bool) \<Rightarrow> 'n network \<Rightarrow> 'n move list \<Rightarrow> 'n cluster \<Rightarrow> bool" where
  "cluster_run_ok line_ok net [] cl = True"
| "cluster_run_ok line_ok net (mv # mvs) cl =
     (scheduler_ok line_ok net mv cl \<and> (case perform net mv cl of None \<Rightarrow> False | Some cl' \<Rightarrow> cluster_run_ok line_ok net mvs cl'))"

lemma cluster_run_reachable:
  assumes "cluster_reachable line_ok net cl" "cluster_run_ok line_ok net mvs cl"
  shows "\<exists>cl'. cluster_run net mvs cl = Some cl' \<and> cluster_reachable line_ok net cl'"
  using assms
proof (induction mvs arbitrary: cl)
  case (Cons mv mvs)
  then obtain cl1 where "perform net mv cl = Some cl1" "cluster_run_ok line_ok net mvs cl1" "cluster_reachable line_ok net cl1"
    by (auto split: option.splits intro: cluster_reachable.step)
  then show ?case using Cons.IH [of cl1] by simp
qed simp

lemma nodes_of_arrange [simp]: "nodes_of (arrange mv cl) = nodes_of cl"
  by (cases mv) simp_all

lemma nodes_of_transmit [simp]: "nodes_of (transmit n s' cl) = (nodes_of cl)(n := s')"
  by (simp add: transmit_def Let_def)

lemma perform_dispatch:
  assumes "perform net mv cl = Some cl'"
  obtains s' where "dispatch (node_args net (mover mv)) (move_event net cl mv) (nodes_of cl (mover mv)) = Some s'"
    "cl' = transmit (mover mv) s' (arrange mv cl)" "enabled net cl mv"
  using assms by (auto simp: perform_by_def Let_def split: if_splits option.splits)

text \<open>Whatever the network does, each node is in a state it could reach alone.\<close>

lemma cluster_node_reachable:
  "cluster_reachable line_ok net cl \<Longrightarrow> reachable_with line_ok (node_args net n) (nodes_of cl n)"
proof (induction rule: cluster_reachable.induct)
  case (start s)
  then show ?case by (simp add: new_cluster_def reachable_with.start)
next
  case (step cl mv cl')
  obtain s' where s': "dispatch (node_args net (mover mv)) (move_event net cl mv) (nodes_of cl (mover mv)) = Some s'"
    "cl' = transmit (mover mv) s' (arrange mv cl)"
    using step.hyps(3) by (rule perform_dispatch)
  then show ?case
    using step.hyps(2) reachable_with.step [OF _ _ _ s'(1)] step.IH by (auto simp: scheduler_ok_def Let_def)
qed

text \<open>The place of a waiting job in the queue of its provider; the length of that queue when it is not in it.\<close>

definition queue_place :: "'n network \<Rightarrow> 'n cluster \<Rightarrow> 'n \<times> local_job_t \<Rightarrow> nat" where
  "queue_place net cl v =
     (case lj_next_req (snd v) of
        [] \<Rightarrow> 0
      | r # _ \<Rightarrow>
          (case resource (node_at net) r of
             (None, q) \<Rightarrow> 0
           | (Some m, q) \<Rightarrow>
               length (takeWhile
                 (\<lambda>rq. other_end (links cl) (m, rq_origin_socket rq) \<noteq> Some (fst v, lj_origin_socket (snd v)))
                 (queue_list (get_queue q (agent_of cl m))))))"

lemma cluster_ordered:
  assumes "cluster_reachable ordered_line net cl"
  shows "ordered_cluster (agent_of cl)"
  unfolding ordered_cluster_def job_in_def using ordered_jobs cluster_node_reachable [OF assms] by blast

section \<open>Runs without line buffers\<close>

text \<open>A reaction to whole messages that leaves the buffers as they are, for the evaluation of a run.\<close>

definition react_message :: "worker_args \<Rightarrow> event \<Rightarrow> agent \<times> buffers \<Rightarrow> (agent \<times> buffers) option" where
  "react_message args ev s =
     (if message_event args ev (fst s) then map_option (\<lambda>st'. (st', snd s)) (dispatch_message args ev (fst s)) else None)"

definition same_but_buffers :: "'n cluster \<Rightarrow> 'n cluster \<Rightarrow> bool" where
  "same_but_buffers cl cl' \<longleftrightarrow>
     (\<forall>n. agent_of cl' n = agent_of cl n \<and> empty_buffers (snd (nodes_of cl' n))) \<and>
     dialled cl' = dialled cl \<and> links cl' = links cl \<and> flight cl' = flight cl \<and> ended cl' = ended cl"

lemma same_moves:
  assumes "same_but_buffers cl cl'"
  shows "move_event net cl' mv = move_event net cl mv" "enabled net cl' mv = enabled net cl mv"
  using assms by (cases mv; simp add: same_but_buffers_def inbox_def Let_def)+

lemma perform_message:
  assumes sim: "same_but_buffers cl cl'" and r: "perform_by react_message net mv cl = Some cl1"
  shows "\<exists>cl1'. perform net mv cl' = Some cl1' \<and> same_but_buffers cl1 cl1'"
proof -
  let ?n = "mover mv"
  note same = same_moves [OF sim]
  obtain st1 where st1: "dispatch_message (node_args net ?n) (move_event net cl mv) (agent_of cl ?n) = Some st1"
    "message_event (node_args net ?n) (move_event net cl mv) (agent_of cl ?n)" "enabled net cl mv"
    "list_all (\<lambda>d. fst d \<notin> open_fds (agent_of cl ?n)) (new_dials (agent_of cl ?n) st1) \<and>
       distinct (map fst (new_dials (agent_of cl ?n) st1))"
    "cl1 = transmit ?n (st1, snd (nodes_of cl ?n)) (arrange mv cl)"
    using r by (auto simp: perform_by_def react_message_def Let_def split: if_splits option.splits)
  have node: "nodes_of cl' ?n = (agent_of cl ?n, snd (nodes_of cl' ?n))" and e: "empty_buffers (snd (nodes_of cl' ?n))"
    using sim by (simp_all add: same_but_buffers_def prod_eq_iff)
  obtain conns' where "dispatch (node_args net ?n) (move_event net cl mv) (agent_of cl ?n, snd (nodes_of cl' ?n)) = Some (st1, conns')"
    "empty_buffers conns'"
    using dispatch_message_correct [OF e st1(2,1)] by blast
  then have d: "dispatch (node_args net ?n) (move_event net cl' mv) (nodes_of cl' ?n) = Some (st1, conns')" "empty_buffers conns'"
    unfolding same(1) node [symmetric] .
  have "same_but_buffers (arrange mv cl) (arrange mv cl')"
    using sim by (cases mv) (simp_all add: same_but_buffers_def)
  then have "same_but_buffers cl1 (transmit ?n (st1, conns') (arrange mv cl'))"
    using d(2) unfolding st1(5) by (simp add: same_but_buffers_def transmit_def Let_def)
  moreover have "perform net mv cl' = Some (transmit ?n (st1, conns') (arrange mv cl'))"
    using st1(3,4) same(2) d(1) sim by (simp add: perform_by_def Let_def same_but_buffers_def)
  ultimately show ?thesis by blast
qed

lemma cluster_run_append:
  "cluster_run_by react net (mvs @ mvs') cl = Option.bind (cluster_run_by react net mvs cl) (cluster_run_by react net mvs')"
proof (induction mvs arbitrary: cl)
  case (Cons mv mvs)
  then show ?case by (cases "perform_by react net mv cl") simp_all
qed simp

text \<open>The conditions on the schedulers, without the buffers.\<close>

fun message_run_cluster :: "(string \<Rightarrow> bool) \<Rightarrow> 'n network \<Rightarrow> 'n move list \<Rightarrow> 'n cluster \<Rightarrow> bool" where
  "message_run_cluster line_ok net [] cl = True"
| "message_run_cluster line_ok net (mv # mvs) cl =
     (message_ok (\<lambda>_. True) line_ok (node_args net (mover mv)) (move_event net cl mv) (agent_of cl (mover mv)) \<and>
      (case perform_by react_message net mv cl of None \<Rightarrow> False | Some cl' \<Rightarrow> message_run_cluster line_ok net mvs cl'))"

lemma message_run_cluster_ok:
  "message_run_cluster line_ok net mvs cl \<Longrightarrow> same_but_buffers cl cl' \<Longrightarrow> cluster_run_ok line_ok net mvs cl'"
proof (induction mvs arbitrary: cl cl')
  case (Cons mv mvs)
  let ?n = "mover mv"
  obtain cl1 where cl1: "perform_by react_message net mv cl = Some cl1" "message_run_cluster line_ok net mvs cl1"
    "message_ok (\<lambda>_. True) line_ok (node_args net ?n) (move_event net cl mv) (agent_of cl ?n)"
    using Cons.prems(1) by (auto split: option.splits)
  obtain cl1' where cl1': "perform net mv cl' = Some cl1'" "same_but_buffers cl1 cl1'"
    using perform_message [OF Cons.prems(2) cl1(1)] by blast
  have ev: "message_event (node_args net ?n) (move_event net cl mv) (agent_of cl ?n)"
    using cl1(1) by (auto simp: perform_by_def react_message_def Let_def split: if_splits)
  have node: "nodes_of cl' ?n = (agent_of cl ?n, snd (nodes_of cl' ?n))" and e: "empty_buffers (snd (nodes_of cl' ?n))"
    using Cons.prems(2) by (simp_all add: same_but_buffers_def prod_eq_iff)
  have same: "move_event net cl' mv = move_event net cl mv"
    using Cons.prems(2) by (rule same_moves(1))
  have "scheduler_ok line_ok net mv cl'"
    unfolding scheduler_ok_def Let_def same using message_ok_correct [OF e ev cl1(3), folded node] by blast
  then show ?case using cl1'(1) Cons.IH [OF cl1(2) cl1'(2)] by simp
qed simp

lemma cluster_run_message:
  assumes "same_but_buffers cl cl'" "cluster_run_by react_message net mvs cl = Some cl1"
  shows "\<exists>cl1'. cluster_run net mvs cl' = Some cl1' \<and> same_but_buffers cl1 cl1'"
  using assms
proof (induction mvs arbitrary: cl cl')
  case (Cons mv mvs)
  then obtain cl2 where "perform_by react_message net mv cl = Some cl2" "cluster_run_by react_message net mvs cl2 = Some cl1"
    by (auto simp: bind_eq_Some_conv)
  then show ?case using perform_message [OF Cons.prems(1)] Cons.IH [of cl2] by fastforce
qed simp

section \<open>Two nodes\<close>

definition demo_net :: "bool network" where
  "demo_net = \<lparr>node_args = (\<lambda>_. demo_args),
     node_at = (\<lambda>(ip, port). if ip = ''127.0.0.10'' then Some False else if ip = ''127.0.0.20'' then Some True else None)\<rparr>"

definition demo_cluster :: "bool cluster" where
  "demo_cluster = new_cluster (\<lambda>_. demo_init [connected 30, connected 31])"

definition demo_bare :: "bool cluster" where
  "demo_bare = new_cluster (\<lambda>_. (fst (demo_init [connected 30, connected 31]), no_buffers))"

text \<open>One job on each node: the first request of each is granted by its own node, the second is for the other node.\<close>

definition crossed :: "string \<Rightarrow> string \<Rightarrow> bool move list" where
  "crossed job3 job4 =
     [Local False (accept_scheduler 20), Local True (accept_scheduler 20),
      Local False (receive 20 job3), Accept False 10 False 30, Write False 30, Read False 10 0, Read False 30 0,
      Local True (receive 20 job4), Accept True 10 True 30, Write True 30, Read True 10 0, Read True 30 0,
      Accept True 11 False 31, Write False 31, Read True 11 0,
      Accept False 11 True 31, Write True 31, Read False 11 0]"

definition adversarial :: "bool move list" where
  "adversarial = crossed ''JOB_REQUEST 3 @127.0.0.10:cpu:4 @127.0.0.20:gpu:1'' ''JOB_REQUEST 4 @127.0.0.20:gpu:1 @127.0.0.10:cpu:4''"

definition recovery :: "bool move list" where
  "recovery = [Local False (tick 30), Read False 10 30, Read True 31 30, Hang_up True 11]"

definition aftermath :: "bool move list" where
  "aftermath = [Local True (receive 20 ''JOB_RELEASE 4''), Read True 10 40]"

definition job3 :: local_job_t where
  "job3 = \<lparr>lj_self = 0, lj_job_id = 3, lj_erlang_socket = 20, lj_origin_socket = 31,
     lj_next_req = [\<lparr>pr_type = ''gpu'', pr_amount = 1, pr_dest_ip = ''127.0.0.20'', pr_dest_port = 4200, pr_provider_fd = -1\<rparr>],
     lj_granted_reqs = [\<lparr>pr_type = ''cpu'', pr_amount = 4, pr_dest_ip = ''127.0.0.10'', pr_dest_port = 4200, pr_provider_fd = 30\<rparr>],
     lj_timer = 0\<rparr>"

definition job4 :: local_job_t where
  "job4 = \<lparr>lj_self = 0, lj_job_id = 4, lj_erlang_socket = 20, lj_origin_socket = 31,
     lj_next_req = [\<lparr>pr_type = ''cpu'', pr_amount = 4, pr_dest_ip = ''127.0.0.10'', pr_dest_port = 4200, pr_provider_fd = -1\<rparr>],
     lj_granted_reqs = [\<lparr>pr_type = ''gpu'', pr_amount = 1, pr_dest_ip = ''127.0.0.20'', pr_dest_port = 4200, pr_provider_fd = 30\<rparr>],
     lj_timer = 0\<rparr>"

text \<open>The whole story, evaluated once: the jobs when the circle is formed, the answers after the sweep, the GPU at the end.\<close>

definition crossed_story :: "bool cluster \<Rightarrow> bool cluster \<Rightarrow> bool cluster \<Rightarrow> _" where
  "crossed_story cl1 cl2 cl3 =
     ((table_data (table_localjobs (agent_of cl1 False)), table_data (table_localjobs (agent_of cl1 True))),
      (filter (\<lambda>m. fst m = 20) (sent (agent_of cl2 False)), filter (\<lambda>m. fst m = 20) (sent (agent_of cl2 True))),
      (resources_left (gpu_queue (agent_of cl3 True)), 11 \<in> open_fds (agent_of cl3 True),
       map (\<lambda>j. (rj_id j, gpu_granted j, original_socket j)) (table_data (table_nodejobs (agent_of cl3 True)))))"

lemma crossed_run:
  "Option.bind (cluster_run_by react_message demo_net adversarial demo_bare) (\<lambda>cl1.
     Option.bind (cluster_run_by react_message demo_net recovery cl1) (\<lambda>cl2.
       Option.bind (cluster_run_by react_message demo_net aftermath cl2) (\<lambda>cl3. Some (crossed_story cl1 cl2 cl3)))) =
   Some (([job3], [job4]), ([(20, ''JOB_TIMEOUT 3'' @ [NEWLINE])], [(20, ''JOB_GRANTED 4'' @ [NEWLINE])]), (0, False, [(3, 1, 11)]))"
  by code_simp

lemma crossed_edges:
  "waits_on (node_at demo_net) (snd (False, job3)) (Some True, GPU_Q)" "holds (node_at demo_net) (snd (True, job4)) (Some True, GPU_Q)"
  "waits_on (node_at demo_net) (snd (True, job4)) (Some False, CPU_Q)" "holds (node_at demo_net) (snd (False, job3)) (Some False, CPU_Q)"
  by (simp_all add: waits_on_def holds_def resource_def resource_queue_of_def demo_net_def job3_def job4_def)

lemma demo_clusters: "same_but_buffers demo_bare demo_cluster"
  by (simp add: same_but_buffers_def demo_bare_def demo_cluster_def new_cluster_def demo_init_def empty_initial)

lemma demo_cluster_reachable: "cluster_reachable line_ok demo_net demo_cluster"
  unfolding demo_cluster_def by (rule cluster_reachable.start) (simp add: demo_net_def demo_started)

lemma story_run:
  obtains cl1 cl2 cl3 where "cluster_run demo_net adversarial demo_cluster = Some cl1" "cluster_run demo_net recovery cl1 = Some cl2"
    "cluster_run demo_net aftermath cl2 = Some cl3"
    "crossed_story cl1 cl2 cl3 =
       (([job3], [job4]), ([(20, ''JOB_TIMEOUT 3'' @ [NEWLINE])], [(20, ''JOB_GRANTED 4'' @ [NEWLINE])]), (0, False, [(3, 1, 11)]))"
proof -
  obtain b1 b2 b3 where b: "cluster_run_by react_message demo_net adversarial demo_bare = Some b1"
    "cluster_run_by react_message demo_net recovery b1 = Some b2" "cluster_run_by react_message demo_net aftermath b2 = Some b3"
    "crossed_story b1 b2 b3 =
       (([job3], [job4]), ([(20, ''JOB_TIMEOUT 3'' @ [NEWLINE])], [(20, ''JOB_GRANTED 4'' @ [NEWLINE])]), (0, False, [(3, 1, 11)]))"
    using crossed_run by (auto simp: bind_eq_Some_conv)
  obtain cl1 where 1: "cluster_run demo_net adversarial demo_cluster = Some cl1" "same_but_buffers b1 cl1"
    using cluster_run_message [OF demo_clusters b(1)] by blast
  obtain cl2 where 2: "cluster_run demo_net recovery cl1 = Some cl2" "same_but_buffers b2 cl2"
    using cluster_run_message [OF 1(2) b(2)] by blast
  obtain cl3 where 3: "cluster_run demo_net aftermath cl2 = Some cl3" "same_but_buffers b3 cl3"
    using cluster_run_message [OF 2(2) b(3)] by blast
  have "crossed_story cl1 cl2 cl3 = crossed_story b1 b2 b3"
    using 1(2) 2(2) 3(2) by (simp add: crossed_story_def same_but_buffers_def)
  then show ?thesis using that [OF 1(1) 2(1) 3(1)] b(4) by simp
qed

section \<open>Properties\<close>

text \<open>
  C7. No deadlock: in every cluster that can be reached when the schedulers ask for resources in
  the order CPU, memory, GPU, whatever the agents say to one another and whenever, no job waits for
  itself through any chain of jobs that hold what the one before asks for or are before it in the
  queue of its provider; and from every waiting job such a chain leads to a job that waits only for
  jobs that have all they asked for. (What a provider keeps for connections that are gone is not a
  job: see \<open>recovery_loses_the_gpu\<close>.)
\<close>

theorem ordered_requests_never_deadlock:
  assumes "cluster_reachable ordered_line net cl" "job_in (agent_of cl) v" "lj_next_req (snd v) \<noteq> []"
  shows "\<not> (waits_for (node_at net) (queue_place net cl) (agent_of cl))\<^sup>+\<^sup>+ v v \<and>
    (\<exists>w. (waits_for (node_at net) (queue_place net cl) (agent_of cl))\<^sup>*\<^sup>* v w \<and> job_in (agent_of cl) w \<and>
      lj_next_req (snd w) \<noteq> [] \<and>
      (\<forall>u. waits_for (node_at net) (queue_place net cl) (agent_of cl) w u \<longrightarrow> lj_next_req (snd u) = []))"
  using no_circular_wait [OF cluster_ordered [OF assms(1)]] somebody_can_go_on [OF cluster_ordered [OF assms(1)] assms(2,3)]
  by blast

definition first_job :: "bool move list" where
  "first_job = [Local False (accept_scheduler 20), Local False (receive 20 ''JOB_REQUEST 3 @127.0.0.10:cpu:4 @127.0.0.20:gpu:1'')]"

theorem ordered_requests_never_deadlock_witness:
  "\<exists>cl j. cluster_run demo_net first_job demo_cluster = Some cl \<and> table_data (table_localjobs (agent_of cl False)) = [j] \<and>
     \<not> (waits_for (node_at demo_net) (queue_place demo_net cl) (agent_of cl))\<^sup>+\<^sup>+ (False, j) (False, j)"
proof -
  have "message_run_cluster ordered_line demo_net first_job demo_bare"
    unfolding first_job_def by code_simp
  then have "cluster_run_ok ordered_line demo_net first_job demo_cluster"
    using demo_clusters by (rule message_run_cluster_ok)
  then obtain cl where cl: "cluster_run demo_net first_job demo_cluster = Some cl" "cluster_reachable ordered_line demo_net cl"
    using cluster_run_reachable [OF demo_cluster_reachable] by blast
  have "map_option (\<lambda>cl. map (\<lambda>j. lj_next_req j = []) (table_data (table_localjobs (agent_of cl False))))
      (cluster_run_by react_message demo_net first_job demo_bare) = Some [False]"
    unfolding first_job_def by code_simp
  then obtain b where "cluster_run_by react_message demo_net first_job demo_bare = Some b"
    "map (\<lambda>j. lj_next_req j = []) (table_data (table_localjobs (agent_of b False))) = [False]" by auto
  then have "map (\<lambda>j. lj_next_req j = []) (table_data (table_localjobs (agent_of cl False))) = [False]"
    using cluster_run_message [OF demo_clusters] cl(1) by (force simp: same_but_buffers_def)
  then obtain j where j: "table_data (table_localjobs (agent_of cl False)) = [j]" "lj_next_req j \<noteq> []" by auto
  then have "job_in (agent_of cl) (False, j)" by (simp add: job_in_def live_job_def)
  from ordered_requests_never_deadlock [OF cl(2) this] j cl(1) show ?thesis by auto
qed

text \<open>
  Without the order a deadlock forms, and the timeout resolves it, as \<open>test_deadlock.sh\<close> plays it
  through: a job of one node asks for its CPUs and then for the GPU of the other node, a job of the
  other node for that GPU and then for these CPUs. Each gets its first resource and waits for the
  other one, on whatever places in the queues. After 30 seconds the sweep of the first node ends its
  job with \<open>JOB_TIMEOUT\<close>, its CPUs go to the other job, and that job is granted.
\<close>

theorem adversarial_order_is_resolved:
  "\<exists>cl1 cl2. cluster_run demo_net adversarial demo_cluster = Some cl1 \<and>
     (\<forall>place. waits_for (node_at demo_net) place (agent_of cl1) (False, job3) (True, job4) \<and>
              waits_for (node_at demo_net) place (agent_of cl1) (True, job4) (False, job3)) \<and>
     cluster_run demo_net recovery cl1 = Some cl2 \<and>
     filter (\<lambda>m. fst m = 20) (sent (agent_of cl2 False)) = [(20, ''JOB_TIMEOUT 3'' @ [NEWLINE])] \<and>
     filter (\<lambda>m. fst m = 20) (sent (agent_of cl2 True)) = [(20, ''JOB_GRANTED 4'' @ [NEWLINE])]"
proof (rule story_run)
  fix cl1 cl2 cl3
  assume r: "cluster_run demo_net adversarial demo_cluster = Some cl1" "cluster_run demo_net recovery cl1 = Some cl2"
    and o: "crossed_story cl1 cl2 cl3 =
       (([job3], [job4]), ([(20, ''JOB_TIMEOUT 3'' @ [NEWLINE])], [(20, ''JOB_GRANTED 4'' @ [NEWLINE])]), (0, False, [(3, 1, 11)]))"
  have "job_in (agent_of cl1) (False, job3)" "job_in (agent_of cl1) (True, job4)"
    using o by (simp_all add: crossed_story_def job_in_def live_job_def)
  then have "waits_for (node_at demo_net) place (agent_of cl1) (False, job3) (True, job4)"
    "waits_for (node_at demo_net) place (agent_of cl1) (True, job4) (False, job3)" for place
    by (blast intro: waits_for.holder crossed_edges)+
  then show ?thesis using r o by (auto simp: crossed_story_def)
qed

text \<open>
  The price of the recovery: the request of the job that timed out stays in the queue of the other
  node. When the surviving job is over and gives the GPU back, it is granted to the connection
  that was closed long before, and no job ever gets it again.
\<close>

theorem recovery_loses_the_gpu:
  "\<exists>cl3. cluster_run demo_net (adversarial @ recovery @ aftermath) demo_cluster = Some cl3 \<and>
     resources_left (gpu_queue (agent_of cl3 True)) = 0 \<and> 11 \<notin> open_fds (agent_of cl3 True) \<and>
     map (\<lambda>j. (rj_id j, gpu_granted j, original_socket j)) (table_data (table_nodejobs (agent_of cl3 True))) = [(3, 1, 11)]"
  by (rule story_run) (simp add: cluster_run_append crossed_story_def)

end
