(* ===== verification/Spec2Isabelle.thy ===== *)
theory Spec2Isabelle
  imports Agent_Run Job_Lifecycle Server_Behaviour Server_Threads Client_Threads Two_Agents Scheduler_Protocol Cluster
begin

text \<open>
  A verification of the distributed resource manager of this repository: an agent in C
  (\<open>main.c\<close>, \<open>agent/\<close>, \<open>ResourceManager/\<close>) that lends CPUs, memory and GPUs of its node to the
  jobs of other nodes and reserves resources of other nodes for the jobs of a local Erlang
  scheduler (\<open>Scheduler_Erlang/\<close>).

  \<^bold>\<open>The program.\<close> \<open>main\<close> creates four hash tables (\<open>table_localjobs\<close> owns the jobs of the local
  scheduler, \<open>table_ourjobs\<close> finds such a job by the descriptor it waits on, \<open>table_nodejobs\<close> records
  what was granted to peers, \<open>table_nodes\<close> the peers heard of) and three queues, one per resource,
  each with the free amount and the FIFO of requests that wait for it. \<open>setup_epoll\<close> opens the
  sockets and timers and starts four workers that run \<open>event_loop\<close>. As a \<^emph>\<open>server\<close> the agent
  queues a \<open>RESERVE\<close>, grants from the head of the queues as far as the free amounts go, and takes back on
  \<open>RELEASE\<close> or disconnect. As a \<^emph>\<open>client\<close> it asks, for a job, one provider after the other and
  reports to the scheduler. Peers announce themselves by UDP.

  \<^bold>\<open>Theories and sources.\<close>
  \<^item> \<open>Agent_Prelude\<close>: \<open>int\<close> as \<open>32 word\<close> and its signed reading, lemmas on lists, collections of
    rewrite rules.
  \<^item> \<open>Hashtable\<close> (\<open>hashtable.c\<close>): chained table with its callbacks; the locale \<open>hash_callbacks\<close>
    states what the callbacks owe the table and holds its lemmas. \<open>Entry_Pointers\<close>: the pointer that
    \<open>tablahash_find\<close> returns and what becomes of it when other workers use the table. \<open>Resource_Hash\<close> (\<open>hash.c\<close>,
    \<open>hash.h\<close>): the records and the four interpretations of that locale.
  \<^item> \<open>Resource_Queue\<close> (\<open>resource_queue.c\<close>): the linked FIFO on a store of cells; the locale
    \<open>fifo_queue\<close> and its interpretation.
  \<^item> \<open>C_Strings\<close>: the functions of the C library on text. \<open>Read_Instructions\<close>
    (\<open>read_instructions.c\<close>): line buffers, tokens, the \<open>NODES\<close> reply.
  \<^item> \<open>Agent_State\<close> (\<open>globals.h\<close>, \<open>main.c\<close>): the record \<open>agent\<close> and the system calls.
    \<open>Utils\<close>, \<open>Communications\<close>, \<open>Timer\<close>, \<open>Loopfunc\<close>, \<open>Agent_Loop\<close>: the files of the same names
    under \<open>agent/\<close> (\<open>Agent_Loop\<close> is \<open>agent.c\<close>, and has \<open>make_timer\<close> of \<open>timer.c\<close>), one definition per C function, with the
    branches of the long ones and the bodies of the loops as definitions of their own.
  \<^item> \<open>Server_Pool\<close>, \<open>Pool_Safety\<close>, \<open>Server_Behaviour\<close>: the server side. \<open>Server_Threads\<close>: the same
    operations cut at their locks and interleaved by the workers.
  \<^item> \<open>Client_Safety\<close>, \<open>Job_Lifecycle\<close>: the client side. \<open>Client_Threads\<close>: its handlers cut at their
    locks and interleaved. \<open>Protocol\<close>: the text protocols.
    \<open>Two_Agents\<close>: both ends of a connection, from the request of a job to its release or its timeout.
  \<^item> \<open>Job_Order\<close>: what stays true of a job while the agent works for it; the locale \<open>job_contract\<close>
    lifts a predicate of jobs to every live job of every reachable state. \<open>Deadlock\<close>: the order of the
    resources and the waits-for graph over the jobs of any number of agents.
    \<open>Message_Events\<close>: events that carry one whole line, without the line buffers. \<open>Cluster\<close>: a
    network of agents that exchange the messages their handlers send, its reachable states, and the
    scenario of \<open>test_deadlock.sh\<close>.
  \<^item> \<open>Scheduler_Utils\<close> (\<open>scheduler_utils.erl\<close>): the text and the choices of the scheduler.
    \<open>Scheduler\<close> (\<open>scheduler.erl\<close>): the coordinator, the generator and the job processes with their
    mailboxes, as one step function on the record \<open>sched\<close>; \<open>Scheduler_Protocol\<close>: what they send.
  \<^item> \<open>Agent_Run\<close>: an event as a step, reachable states; the locale \<open>server_contract\<close> says what an
    invariant of the server side has to satisfy to hold in every reachable state, and is interpreted
    three times. This theory: start-up, the properties of runs, and what is not safe, also of the
    agent and the scheduler together.

  \<^bold>\<open>How code is modelled.\<close> An operation is a function on \<open>agent\<close> that returns \<open>None\<close> where the
  code would read through a dangling or NULL pointer. \<open>int\<close> is a 32-bit word with wrap-around, compared
  signed. A job is a cell of \<open>table_localjobs\<close> with an address, so that a pointer to a freed job is
  visible; entries of the other tables are read through a pointer with a generation where that matters
  (\<open>Entry_Pointers\<close>). What the kernel, the peers and the clock answer is an argument or a field of the environment, never
  assumed: results of \<open>accept4\<close>, \<open>connect\<close>, \<open>epoll_ctl\<close>, \<open>recv\<close> (in any segmentation), \<open>getpeername\<close>,
  \<open>inet_addr\<close>. A failed \<open>fatal_error\<close> call is \<open>Inl\<close> with its message. An Erlang process is a state
  and a mailbox, and any process may take the next step; one that fails stays behind as crashed or dead.

  \<^bold>\<open>What is shown.\<close> Of the containers: the table is a finite map that frees each datum once, the
  queue is a list. Of the line buffer: no overrun, and framing loses nothing. Of the server: every
  operation ends, refines abstract books, conserves the pool in 32-bit arithmetic for any peers,
  never over-commits as integers for peers that ask for no negative amounts, and leaves nobody waiting for
  what is free; the same bounds under interleaving of the workers, with what they have in hand
  counted, if no entry changes between its copy and its replacement; without that condition the data structures still hold, and
  the one read that can go wrong is the copy of an entry. Of the client: the descriptor index is sound, jobs move on, complete, end and time out as the
  comments of the code say, and every event is handled without a bad pointer as long as the
  scheduler reuses no live id; with the handlers interleaved a bad pointer takes two workers on one job or
  one descriptor, which the code does not prevent, or such an id; over whole runs all data structures stay well formed. Of the protocols:
  what one end prints the other end reads, also between agent and scheduler; a reservation is made,
  answered and taken back across two agents. Of any number of agents together: a job asks for exactly what its
  \<open>JOB_REQUEST\<close> said, in its order; if all schedulers keep to the order CPU, memory, GPU, which the one of
  this repository does, no circle of waiting jobs can form; a job that is stuck is ended by the
  timeout sweep and what it held is granted to those that wait for it. Of the scheduler: the lines about one id are in order, an id is
  sent again only after a timeout for it, and exactly which replies end the coordinator. The last section and some theorems elsewhere exhibit, by evaluation, runs in which the code does not do what
  its comments promise.

  \<^bold>\<open>Bounds and termination.\<close> No fuel is used. \<open>drain_loop\<close> and \<open>run_thread\<close> are partial functions whose
  results are proved to exist; the loop over the lines of a socket ends because each line consumes bytes.
  The constants are the source's: 256 buckets, 1024 descriptors and buffer bytes, 8192 bytes of
  \<open>NODES\<close>, 256 timeouts per tick, four workers. Addresses are read as on a little-endian machine.

  In \<open>Cluster\<close> a read hands over one message or the end of the stream, and the kernel gives out descriptors
  that are not open.

  \<^bold>\<open>Not modelled.\<close> Log output and \<open>perror\<close>. Failure of \<open>malloc\<close>, which the code asserts or ignores.
  \<open>send\<close> on an open descriptor takes the whole message; the destination of the broadcast is the constant
  address and port of the source and is not recorded. In \<open>worker_loop\<close> the events of the batches of the four
  workers are one sequence, each handled to its end; interleaving inside the handlers is
  modelled for the server operations and for the client handlers apart from each other (\<open>Server_Threads\<close>,
  \<open>Client_Threads\<close>), each cut at the locks and at the reads through a pointer that a lookup returned, except
  for the lookups of ports by \<open>JOB_REQUEST\<close>. The clock is read once per event, where the code reads it for each
  line of the event. The results of several \<open>setsockopt\<close>, \<open>bind\<close> or \<open>listen\<close> calls with the same error are
  one flag. Signed overflow, undefined in C, wraps. The clean-up after \<open>pthread_join\<close> is unreachable. Of the scheduler,
  the times it sleeps (a process that sleeps may go on at any moment), a failed connect, and the cutting
  of lines by its socket: what arrives is any text. The stand-in for the agent (\<open>test.erl\<close>), the
  Makefile and the test scripts (the scenario of \<open>test_deadlock.sh\<close> is a run of \<open>Cluster\<close>). That what a job believes to
  hold is also recorded by its provider is not shown of a cluster, and cannot be: see
  \<open>stale_request_answers_another\<close>.
\<close>

section \<open>Start-up\<close>

text \<open>Every call that \<open>setup_epoll\<close> checks succeeds.\<close>

definition setup_calls_ok :: "setup_results \<Rightarrow> bool" where
  "setup_calls_ok r \<longleftrightarrow>
     (case (lr_sockets (sr_listen r), sr_broadcast_timer r, sr_timeout_timer r) of
        ((s, e, u), (b, b_set, b_add), (t, t_set, t_add)) \<Rightarrow>
          list_all (\<lambda>x. \<not> x <s 0) [sr_epollfd r, s, e, u, b, t] \<and> b_set \<and> b_add \<and> t_set \<and> t_add) \<and>
     lr_reuse_ok (sr_listen r) \<and> lr_broadcast_ok (sr_listen r) \<and> lr_bind_ok (sr_listen r) \<and> lr_listen_ok (sr_listen r) \<and>
     sr_add_ok r \<and> sr_threads_ok r"

text \<open>
  C40. Start-up is all or nothing: \<open>setup_epoll\<close> gets to the event loop exactly when every call it
  checks succeeds, and then the three sockets are bound (peers on all interfaces, the scheduler
  on the loopback address, announcements on port 12529) and registered without one-shot, and the two
  timers are registered one-shot with first expiration 1 s and 5 s and a period of 5 s. The
  descriptors the kernel returned are distinct.
\<close>

theorem setup_succeeds_completely:
  assumes "distinct [fst (lr_sockets (sr_listen r)), fst (snd (lr_sockets (sr_listen r))), snd (snd (lr_sockets (sr_listen r))),
      fst (sr_broadcast_timer r), fst (sr_timeout_timer r)]"
  shows "(setup_calls_ok r \<longleftrightarrow> (\<exists>args st'. setup_epoll st port r = Inr (args, st'))) \<and>
    (\<forall>args st'. setup_epoll st port r = Inr (args, st') \<longrightarrow>
       bound st' = [(socket_server args, INADDR_ANY, take_bit 16 port), (socket_erlang args, INADDR_LOOPBACK, take_bit 16 port),
                    (socket_UDP args, INADDR_ANY, 12529)] \<and>
       map (epoll_set st') [socket_server args, socket_erlang args, socket_UDP args] = replicate 3 (Some reg_listen) \<and>
       map (epoll_set st') [broadcast_timer_fd args, timeout_timer_fd args] = replicate 2 (Some reg_in_oneshot) \<and>
       map (timer_specs st') [broadcast_timer_fd args, timeout_timer_fd args] = [Some (1, 5), Some (5, 5)] \<and>
       w_port args = port)"
  using assms
  by (auto simp: setup_calls_ok_def setup_epoll_def initialize_listen_sockets_def make_timer_def Let_def
      listen_addresses_def BROADCAST_PORT_def epoll_ctl_add_def numeral_eq_Suc split: prod.splits if_splits sum.splits)

theorem setup_succeeds_completely_witness:
  "setup_calls_ok demo_setup \<and> (\<exists>args st'. setup_epoll new_agent 4200 demo_setup = Inr (args, st') \<and>
     map (timer_specs st') [broadcast_timer_fd args, timeout_timer_fd args] = [Some (1, 5), Some (5, 5)])"
proof -
  have "setup_calls_ok demo_setup" by code_simp
  moreover have "distinct [fst (lr_sockets (sr_listen demo_setup)), fst (snd (lr_sockets (sr_listen demo_setup))),
      snd (snd (lr_sockets (sr_listen demo_setup))), fst (sr_broadcast_timer demo_setup), fst (sr_timeout_timer demo_setup)]"
    by code_simp
  ultimately show ?thesis using setup_succeeds_completely [of demo_setup new_agent 4200] by blast
qed
section \<open>Runs of the agent\<close>

text \<open>
  C1. The agent never over-commits. In every state it reaches, as long as peers ask for
  amounts that are not negative and the scheduler for no id that is still live, the free amount of each resource is between 0 and the local
  capacity, no entry of \<open>table_nodejobs\<close> holds a negative amount, and the free amount and
  what is granted add up to the capacity, as integers: no 32-bit sum wraps.
\<close>

theorem never_overcommits:
  assumes "reachable (\<lambda>amount. 0 \<le>s amount) args s"
  shows "0 \<le> sint (resources_left (get_queue r (fst s))) \<and>
    sint (resources_left (get_queue r (fst s))) \<le> sint (local_capacity r) \<and>
    sint (resources_left (get_queue r (fst s))) + granted_sum r (fst s) = sint (local_capacity r) \<and>
    (\<forall>j \<in> set (table_data (table_nodejobs (fst s))). 0 \<le> sint (granted_of r j))"
proof -
  have "pool_safe (\<lambda>r. sint (local_capacity r)) (fst s)"
    using safe.reachable_ok [OF started_safe assms] by (simp add: agent_ok_def)
  then have p: "0 \<le> sint (resources_left (get_queue r (fst s)))"
    "sint (resources_left (get_queue r (fst s))) + granted_sum r (fst s) = sint (local_capacity r)"
    "\<forall>j \<in> set (table_data (table_nodejobs (fst s))). 0 \<le> sint (granted_of r j)"
    by (simp_all add: pool_safe_def entries_nonneg_def)
  then have "0 \<le> granted_sum r (fst s)"
    unfolding granted_sum_def by (intro sum_list_nonneg_int) simp
  then show ?thesis using p by simp
qed

theorem never_overcommits_witness:
  "\<exists>s. event_loop demo_args demo_contention (demo_init []) = Some s \<and>
     sint (resources_left (cpu_queue (fst s))) + granted_sum CPU_Q (fst s) = 4"
proof -
  obtain s where s: "event_loop demo_args demo_contention (demo_init []) = Some s" "reachable (\<lambda>amount. 0 \<le>s amount) demo_args s"
    using contention_run by blast
  from never_overcommits [OF s(2), of CPU_Q] s(1) show ?thesis by (simp add: LOCAL_CPU_def)
qed

text \<open>
  C2. Conservation with no condition on the peers: in every state the agent reaches, as long as the
  scheduler asks for no id that is still live, the free amount
  of each resource plus what \<open>table_nodejobs\<close> records as granted is the local capacity,
  in 32-bit arithmetic. \<open>RELEASE\<close>, disconnects, grants and timeouts neither lose nor
  create resources.
\<close>

theorem pool_is_conserved:
  assumes "reachable (\<lambda>_. True) args s"
  shows "resources_left (get_queue r (fst s)) + granted_total r (fst s) = local_capacity r"
  using conserved.reachable_ok [OF started_conserved assms] by (simp add: agent_ok_def pool_conserved_def)

theorem pool_is_conserved_witness:
  "\<exists>s. event_loop demo_args demo_contention (demo_init []) = Some s \<and>
     resources_left (cpu_queue (fst s)) + granted_total CPU_Q (fst s) = 4"
proof -
  obtain s where s: "event_loop demo_args demo_contention (demo_init []) = Some s" "reachable (\<lambda>_. True) demo_args s"
    using contention_run by blast
  from pool_is_conserved [OF s(2), of CPU_Q] s(1) show ?thesis by (simp add: LOCAL_CPU_def)
qed

text \<open>
  C3. Every event is handled to its end: from a reachable state, whatever the event, the
  handler terminates and never reads through a dangling or NULL pointer, provided that the
  scheduler does not ask for an id that is still live.
\<close>

theorem every_event_is_handled:
  assumes "reachable (\<lambda>_. True) args s" "admissible (\<lambda>_. True) args ev s"
  shows "\<exists>s'. dispatch args ev s = Some s' \<and> reachable (\<lambda>_. True) args s'"
  by (rule conserved.reachable_dispatch [OF started_conserved assms])

theorem every_event_is_handled_witness:
  "\<exists>s'. dispatch demo_args (accept_scheduler 20) (demo_init []) = Some s' \<and> reachable (\<lambda>_. True) demo_args s'"
  by (rule every_event_is_handled [OF demo_reachable]) code_simp

text \<open>
  C4. The descriptor index is sound in every state the agent reaches as long as the scheduler asks for no
  id that is still live (with such a request it is not: \<open>duplicate_id_reads_freed_job\<close>): each entry of
  \<open>table_ourjobs\<close> leads to a job that is still in \<open>table_localjobs\<close>, that waits for an answer
  on that very descriptor and still has a request pending.
\<close>

theorem index_has_no_dangling_entry:
  assumes "reachable (\<lambda>_. True) args s" "e \<in> set (table_data (table_ourjobs (fst s)))"
  shows "\<exists>j. deref_job (fst s) (entry_job e) = Some j \<and> lj_origin_socket j = entry_fd e \<and> lj_next_req j \<noteq> []"
proof -
  have inv: "client_inv (fst s)"
    using conserved.reachable_ok [OF started_conserved assms(1)] by (simp add: agent_ok_def)
  obtain j where "j \<in> set (table_data (table_localjobs (fst s)))" "lj_self j = entry_job e"
    "lj_origin_socket j = entry_fd e" "lj_next_req j \<noteq> []"
    using client_invD(5) [OF inv] assms(2) by (auto simp: index_sound_def)
  then show ?thesis using deref_live [OF inv] by metis
qed

definition grant_then_close :: "fd \<Rightarrow> event" where
  "grant_then_close x = no_event\<lparr>ev_fd := x, ev_rx := [Segment (''GRANTED 1'' @ [NEWLINE]), Closed]\<rparr>"

definition demo_request :: "event list" where
  "demo_request = [accept_scheduler 20, receive 20 ''JOB_REQUEST 1 @10.0.0.2:cpu:2'']"

theorem index_has_no_dangling_entry_witness:
  "\<exists>s j. event_loop demo_args demo_request (demo_init [connected 30]) = Some s \<and>
     table_data (table_ourjobs (fst s)) = [\<lparr>entry_fd = 30, entry_job = 0\<rparr>] \<and>
     deref_job (fst s) 0 = Some j \<and> lj_origin_socket j = 30 \<and> lj_next_req j \<noteq> []"
proof -
  have "run_ok (\<lambda>_. True) demo_args demo_request (demo_init [connected 30])"
    unfolding demo_request_def by (rule demo_run_ok) code_simp
  then obtain s where s: "event_loop demo_args demo_request (demo_init [connected 30]) = Some s"
    "reachable (\<lambda>_. True) demo_args s"
    using run_ok_reachable [OF demo_reachable] by blast
  have "map_option (\<lambda>s. table_data (table_ourjobs (fst s)))
      (event_loop demo_args demo_request (demo_init [connected 30])) = Some [\<lparr>entry_fd = 30, entry_job = 0\<rparr>]"
    unfolding demo_request_def by (rule observe_demo) code_simp
  then have d: "table_data (table_ourjobs (fst s)) = [\<lparr>entry_fd = 30, entry_job = 0\<rparr>]" using s(1) by simp
  from index_has_no_dangling_entry [OF s(2), of "\<lparr>entry_fd = 30, entry_job = 0\<rparr>"] d s(1) show ?thesis by auto
qed

text \<open>
  C5. Nobody waits for what is free: in every state the agent reaches, as long as the scheduler asks
  for no id that is still live, the request at the head of each
  queue, if there is one, asks for more than the free amount of its resource.
\<close>

theorem nobody_waits_for_free_resources:
  assumes "reachable (\<lambda>_. True) args s" "queue_list (get_queue r (fst s)) = head # rest"
  shows "resources_left (get_queue r (fst s)) <s rq_amount_requested head"
proof -
  have "settled r (fst s)" using idle.reachable_ok [OF started_settled assms(1)] by (simp add: agent_ok_def)
  then show ?thesis using assms(2) by (simp add: settled_def signed.not_le)
qed

theorem nobody_waits_for_free_resources_witness:
  "\<exists>s. event_loop demo_args demo_contention (demo_init []) = Some s \<and>
     queue_list (cpu_queue (fst s)) = [make_request 8 11 3] \<and> resources_left (cpu_queue (fst s)) <s 3"
proof -
  obtain s where s: "event_loop demo_args demo_contention (demo_init []) = Some s" "reachable (\<lambda>_. True) demo_args s"
    "queue_list (get_queue CPU_Q (fst s)) = make_request 8 11 3 # []"
    using contention_run by auto
  from nobody_waits_for_free_resources [OF s(2,3)] s(1,3) show ?thesis by (simp add: make_request_def)
qed

section \<open>Whole runs\<close>

lemma admits_run:
  assumes "reachable (\<lambda>_. True) args s" "admits (\<lambda>_. True) args evs s"
  shows "\<exists>s'. event_loop args evs s = Some s' \<and> reachable (\<lambda>_. True) args s'"
  using assms
proof (induction evs arbitrary: s)
  case (Cons ev evs)
  then have ev: "admissible (\<lambda>_. True) args ev s" by simp
  have "\<exists>s1. dispatch args ev s = Some s1 \<and> reachable (\<lambda>_. True) args s1"
    by (rule conserved.reachable_dispatch [OF started_conserved Cons.prems(1) ev])
  then obtain s1 where "dispatch args ev s = Some s1" "reachable (\<lambda>_. True) args s1" by blast
  then show ?case using Cons.IH [of s1] Cons.prems(2) by simp
qed simp

text \<open>
  C6. A run keeps every structure well formed: from the state that start-up leaves, whatever
  \<open>epoll_wait\<close> returns, in whatever batches and with whatever failures in between, all events are
  handled, and then each table has every datum in its bucket under a key of its own with the
  right count, each queue is a chain of its cells from its first to its last one, and each line buffer is
  within its bounds; provided that the scheduler asks for no id that is still live.
\<close>

theorem runs_stay_well_formed:
  assumes "started args s" "admits (\<lambda>_. True) args (concat (map wait_events results)) s"
  shows "\<exists>s'. worker_loop args results s = Some s' \<and> state_wf s'"
proof -
  obtain s' where s': "event_loop args (concat (map wait_events results)) s = Some s'" "reachable (\<lambda>_. True) args s'"
    using admits_run [OF reachable.start [OF assms(1)] assms(2)] by blast
  have "server_inv (fst s')" "client_inv (fst s')" "nodes_ok (table_nodes (fst s'))"
    using conserved.reachable_ok [OF started_conserved s'(2)] by (simp_all add: agent_ok_def)
  then have "state_wf s'" by (rule reachable_state_wf [OF s'(2)])
  then show ?thesis using s'(1) worker_loop_events [of args results s] by simp
qed

theorem runs_stay_well_formed_witness:
  "\<exists>s'. worker_loop demo_args [Ready demo_request, Wait_failed True, Ready [accept_peer 10]] (demo_init [connected 30]) = Some s' \<and>
     state_wf s'"
proof (rule runs_stay_well_formed [OF demo_started])
  show "admits (\<lambda>_. True) demo_args
     (concat (map wait_events [Ready demo_request, Wait_failed True, Ready [accept_peer 10]])) (demo_init [connected 30])"
    unfolding demo_request_def by (intro run_ok_admits demo_run_ok) code_simp
qed

section \<open>Behaviours outside the conditions\<close>

text \<open>
  Reusing a live id is not safe: a second \<open>JOB_REQUEST\<close> with the id of a job that is waiting
  for a provider frees that job while the descriptor index still points to it, and the next
  event on its socket reads the freed job.
\<close>

theorem duplicate_id_reads_freed_job:
  "Option.is_none (event_loop demo_args (demo_request @ [receive 20 ''JOB_REQUEST 1 @10.0.0.2:cpu:2'', writable 30])
     (demo_init [connected 30, connected 31]))"
  unfolding demo_request_def by code_simp

definition demo_crossed :: "event list" where
  "demo_crossed = [accept_scheduler 20, receive 20 ''JOB_REQUEST 1001 @10.0.0.2:cpu:2'', tick 30, receive 20 ''JOB_STATUS 1001'']"

text \<open>
  The agent and the scheduler together reuse a live id: a job waits 30 seconds, its heart beat
  (every 15 seconds) is on its way when the sweep of the agent ends the job, and the agent
  answers the \<open>JOB_STATUS\<close> of the id it no longer has with a second \<open>JOB_TIMEOUT\<close>. From exactly
  these two lines the scheduler relaunches the job twice and sends the id again while it is live.
\<close>

theorem crossing_status_repeats_request:
  "map_option (\<lambda>s. sent (fst s)) (event_loop demo_args demo_crossed (demo_init [connected 30])) =
     Some [(20, ''JOB_TIMEOUT 1001'' @ [NEWLINE]), (20, ''JOB_TIMEOUT 1001'' @ [NEWLINE])] \<and>
   map_option s_wire (sched_run (demo_spawn @ demo_crossing) coordinator) =
     Some [get_nodes_line, demo_line, status_line 1001, demo_line, demo_line]"
proof
  show "map_option (\<lambda>s. sent (fst s)) (event_loop demo_args demo_crossed (demo_init [connected 30])) =
     Some [(20, ''JOB_TIMEOUT 1001'' @ [NEWLINE]), (20, ''JOB_TIMEOUT 1001'' @ [NEWLINE])]"
    unfolding demo_crossed_def by (rule observe_demo) code_simp
qed (rule demo_runs(2))

text \<open>
  A peer that disconnects while its request waits stays in the queue: when the amount
  becomes free it is granted to the closed socket, and the amount is lent to nobody. Here the
  CPUs of peer 10 go, when it leaves, to the request of peer 11, which had left before.
\<close>

theorem departed_peer_is_granted:
  "map_option (\<lambda>s. (resources_left (cpu_queue (fst s)), 11 \<in> open_fds (fst s),
       map (\<lambda>j. (rj_id j, cpu_granted j, original_socket j)) (table_data (table_nodejobs (fst s)))))
     (event_loop demo_args (demo_contention @ [hang_up 11, hang_up 10]) (demo_init [])) =
   Some (1, False, [(8, 3, 11)])"
  unfolding demo_contention_def by (rule observe_demo) code_simp

text \<open>
  A stale request is answered to its successor. A job asks for the GPU and leaves; its
  request stays in the queue. The same job asks again, for a CPU, and the kernel gives its new
  connection the old number. When the GPU becomes free, the agent sends \<open>GRANTED\<close> with the id of
  the job on that connection: the job takes it for the answer to its CPU request, which is still
  in the queue, while the ledger records a GPU.
\<close>

theorem stale_request_answers_another:
  "map_option (\<lambda>s. (filter (\<lambda>m. fst m = 11) (sent (fst s)), queue_list (cpu_queue (fst s)),
       map (\<lambda>j. (rj_id j, original_socket j, cpu_granted j, gpu_granted j)) (swept_by 11 (table_data (table_nodejobs (fst s))))))
     (event_loop demo_args [accept_peer 10, receive 10 ''RESERVE 7 gpu 1'', accept_peer 11, receive 11 ''RESERVE 3 gpu 1'', hang_up 11,
        accept_peer 12, receive 12 ''RESERVE 8 cpu 4'', accept_peer 11, receive 11 ''RESERVE 3 cpu 2'', hang_up 10] (demo_init [])) =
   Some ([(11, ''GRANTED 3'' @ [NEWLINE])], [make_request 3 11 2], [(3, 11, 0, 1)])"
  by (rule observe_demo) code_simp

definition partial_read :: "fd \<Rightarrow> string \<Rightarrow> event" where
  "partial_read x bytes = no_event\<lparr>ev_fd := x, ev_rx := [Segment bytes]\<rparr>"

text \<open>
  Bytes of a connection survive it: the sockets that the timeout sweep, \<open>JOB_RELEASE\<close> and a
  refusal close keep their line buffer. Here half an answer arrives before the job times out; the
  next peer on that number asks for a CPU, its line is read behind the old bytes, and nobody
  answers although four CPUs are free.
\<close>

theorem stale_bytes_spoil_next_request:
  "map_option (\<lambda>s. (resources_left (cpu_queue (fst s)), filter (\<lambda>m. fst m = 30) (sent (fst s))))
     (event_loop demo_args (demo_request @ [writable 30, partial_read 30 ''GRAN'', tick 30, accept_peer 30, receive 30 ''RESERVE 8 cpu 1''])
       (demo_init [connected 30])) =
   Some (4, [(30, ''RESERVE 1 cpu 2'' @ [NEWLINE])])"
  unfolding demo_request_def by code_simp

text \<open>
  Amounts are not checked: a \<open>RESERVE\<close> of a negative amount is granted and raises the free
  amount above the capacity of the node, from 4 CPUs to 7.
\<close>

theorem negative_amount_inflates_pool:
  "map_option (\<lambda>s. resources_left (cpu_queue (fst s)))
     (event_loop demo_args [accept_peer 10, receive 10 ''RESERVE 7 cpu -3''] (demo_init [])) = Some 7"
  by (rule observe_demo) code_simp

text \<open>
  A provider that grants and hangs up at once: the handler closes the socket although the
  job keeps it as the provider of what it holds. The kernel may give the number to the next
  peer, and \<open>JOB_RELEASE\<close> then sends the \<open>RELEASE\<close> to that peer and closes its connection.
\<close>

theorem closed_provider_is_reused:
  "map_option (\<lambda>s. (30 \<in> open_fds (fst s), last (sent (fst s))))
     (event_loop demo_args (demo_request @ [writable 30, grant_then_close 30, accept_peer 30, receive 20 ''JOB_RELEASE 1''])
       (demo_init [connected 30])) =
   Some (False, (30, ''RELEASE 1 cpu 2'' @ [NEWLINE]))"
  unfolding demo_request_def by code_simp

text \<open>
  A \<open>JOB_REQUEST\<close> with destinations of which none can be parsed is answered with
  \<open>JOB_GRANTED\<close>, although nothing was reserved.
\<close>

theorem unparsable_request_is_granted:
  "map_option (\<lambda>s. sent (fst s))
     (event_loop demo_args [accept_scheduler 20, receive 20 ''JOB_REQUEST 1 cpu=2''] (demo_init [])) =
   Some [(20, ''JOB_GRANTED 1'' @ [NEWLINE])]"
  by (rule observe_demo) code_simp

text \<open>
  A failed accept on the scheduler's port forgets the scheduler: the event loop stores the
  -1 that \<open>connect_erlang\<close> returns, while the connection is still open.
\<close>

theorem failed_accept_forgets_scheduler:
  "map_option (\<lambda>s. (erlangfd (fst s), 20 \<in> open_fds (fst s)))
     (event_loop demo_args [accept_scheduler 20, accept_scheduler (-1)] (demo_init [])) = Some (-1, True)"
  by (rule observe_demo) code_simp

text \<open>
  A failed read of the timeout timer stops it for good: the handler goes on to the next
  event without re-arming the one-shot registration, so that neither peers nor stuck jobs are
  swept any more.
\<close>

theorem failed_timer_read_stops_timer:
  "map_option (\<lambda>s. map_option reg_armed (epoll_set (fst s) 8))
     (event_loop demo_args [(tick 40)\<lparr>ev_timer_ok := False\<rparr>] (demo_init [])) = Some (Some False)"
  by (rule observe_demo) code_simp

end
